(* ===== verification/Fe2o3_Prelude.thy ===== *)
theory Fe2o3_Prelude
  imports Main "HOL-Library.Word" "HOL-Library.Product_Lexorder"
begin

text \<open>
  Shared vocabulary of the development: machine integers, Rust results as sums, the checked
  arithmetic of the standard library, loops with an early return, and generic lemmas on lists
  of keyed records.

  A Rust \<open>Result<T, E>\<close> is a value of \<open>'e + 'a\<close> with \<open>Inl\<close> the error. The
  question-mark operator is \<open>and_then\<close>, so the body of an operation reads in source order
  and its first failing guard decides the error.
\<close>

section \<open>Machine integers\<close>

type_synonym u8 = "8 word"
type_synonym u16 = "16 word"
type_synonym u32 = "32 word"
type_synonym u64 = "64 word"

text \<open>
  Lengths and indices (\<open>usize\<close>) are natural numbers: a Rust collection has fewer than
  \<open>isize::MAX\<close> elements, so a length never wraps.
\<close>

definition checked_add :: "'a::len word \<Rightarrow> 'a word \<Rightarrow> 'a word option" where
  "checked_add a b = (if unat a + unat b < 2 ^ LENGTH('a) then Some (a + b) else None)"

definition checked_mul :: "'a::len word \<Rightarrow> 'a word \<Rightarrow> 'a word option" where
  "checked_mul a b = (if unat a * unat b < 2 ^ LENGTH('a) then Some (a * b) else None)"

definition checked_sub :: "'a::len word \<Rightarrow> 'a word \<Rightarrow> 'a word option" where
  "checked_sub a b = (if b \<le> a then Some (a - b) else None)"

definition is_power_of_two :: "'a::len word \<Rightarrow> bool" where
  "is_power_of_two w = list_ex (\<lambda>k. unat w = 2 ^ k) [0..<LENGTH('a)]"

section \<open>Results\<close>

fun and_then :: "'e + 'a \<Rightarrow> ('a \<Rightarrow> 'e + 'b) \<Rightarrow> 'e + 'b" where
  "and_then (Inl e) f = Inl e"
| "and_then (Inr x) f = f x"

definition ok_or :: "'a option \<Rightarrow> 'e \<Rightarrow> 'e + 'a" where
  "ok_or x e = (case x of None \<Rightarrow> Inl e | Some y \<Rightarrow> Inr y)"

fun map_err :: "('e \<Rightarrow> 'f) \<Rightarrow> 'e + 'a \<Rightarrow> 'f + 'a" where
  "map_err f (Inl e) = Inl (f e)"
| "map_err f (Inr x) = Inr x"

text \<open>\<open>xs[i]\<close>, which panics out of range.\<close>

definition checked_nth :: "'a list \<Rightarrow> nat \<Rightarrow> 'a option" where
  "checked_nth xs i = (if i < length xs then Some (xs ! i) else None)"

text \<open>An early return: \<open>if !c { return Err(e) }\<close>.\<close>

definition require :: "bool \<Rightarrow> 'e \<Rightarrow> 'e + unit" where
  "require c e = (if c then Inr () else Inl e)"

text \<open>\<open>for x in xs { f(x)? }\<close>, and the same loop over \<open>enumerate()\<close> whose body reads
  the prefix \<open>xs[..index]\<close>.\<close>

fun for_each :: "('a \<Rightarrow> 'e + unit) \<Rightarrow> 'a list \<Rightarrow> 'e + unit" where
  "for_each f [] = Inr ()"
| "for_each f (x # xs) = and_then (f x) (\<lambda>_. for_each f xs)"

fun for_each_prefix :: "('a list \<Rightarrow> 'a \<Rightarrow> 'e + unit) \<Rightarrow> 'a list \<Rightarrow> 'a list \<Rightarrow> 'e + unit" where
  "for_each_prefix f pre [] = Inr ()"
| "for_each_prefix f pre (x # xs) =
     and_then (f pre x) (\<lambda>_. for_each_prefix f (pre @ [x]) xs)"

text \<open>A loop with an early return that threads mutable locals through its iterations.\<close>

fun try_fold :: "('s \<Rightarrow> 'a \<Rightarrow> 'e + 's) \<Rightarrow> 's \<Rightarrow> 'a list \<Rightarrow> 'e + 's" where
  "try_fold f s [] = Inr s"
| "try_fold f s (x # xs) = and_then (f s x) (\<lambda>s'. try_fold f s' xs)"

text \<open>\<open>iter().find_map(f)\<close>: the first value that \<open>f\<close> returns.\<close>

fun find_map :: "('a \<Rightarrow> 'b option) \<Rightarrow> 'a list \<Rightarrow> 'b option" where
  "find_map f [] = None"
| "find_map f (x # xs) = (case f x of None \<Rightarrow> find_map f xs | Some y \<Rightarrow> Some y)"

text \<open>\<open>xs.windows(2)\<close>: the adjacent pairs.\<close>

fun windows2 :: "'a list \<Rightarrow> ('a \<times> 'a) list" where
  "windows2 (x # y # xs) = (x, y) # windows2 (y # xs)"
| "windows2 _ = []"

text \<open>\<open>iter_mut().find(p)\<close> followed by an assignment through the returned reference.\<close>

fun update_first :: "('a \<Rightarrow> bool) \<Rightarrow> ('a \<Rightarrow> 'a) \<Rightarrow> 'a list \<Rightarrow> 'a list" where
  "update_first p f [] = []"
| "update_first p f (x # xs) = (if p x then f x # xs else x # update_first p f xs)"

section \<open>Lemmas on results\<close>

named_theorems result_simps \<open>success of a sequence of guarded steps as a conjunction\<close>

lemma and_then_Inr [result_simps]:
  "and_then m f = Inr y \<longleftrightarrow> (\<exists>x. m = Inr x \<and> f x = Inr y)"
  by (cases m) auto

lemma and_then_Inl:
  "and_then m f = Inl e \<longleftrightarrow> m = Inl e \<or> (\<exists>x. m = Inr x \<and> f x = Inl e)"
  by (cases m) auto

lemma ok_or_Inr [result_simps]: "ok_or x e = Inr y \<longleftrightarrow> x = Some y"
  by (cases x) (auto simp: ok_or_def)

lemma ok_or_Inl: "ok_or x e = Inl e' \<longleftrightarrow> x = None \<and> e' = e"
  by (cases x) (auto simp: ok_or_def)

lemma checked_nth_less [simp]: "i < length xs \<Longrightarrow> checked_nth xs i = Some (xs ! i)"
  by (simp add: checked_nth_def)

lemma checked_nth_Some: "checked_nth xs i = Some x \<longleftrightarrow> i < length xs \<and> xs ! i = x"
  by (simp add: checked_nth_def)

lemma require_Inr [result_simps]: "require c e = Inr u \<longleftrightarrow> c"
  by (simp add: require_def)

lemma require_Inl: "require c e = Inl e' \<longleftrightarrow> \<not> c \<and> e' = e"
  by (auto simp: require_def)

lemma require_True [simp]: "require True e = Inr ()"
  by (simp add: require_def)

lemma map_err_Inr [result_simps]: "map_err f m = Inr x \<longleftrightarrow> m = Inr x"
  by (cases m) auto

lemma map_err_Inl: "map_err f m = Inl e \<longleftrightarrow> (\<exists>e'. m = Inl e' \<and> e = f e')"
  by (cases m) auto

lemma if_Inl_Inr [result_simps]: "(if c then Inl e else m) = Inr y \<longleftrightarrow> \<not> c \<and> m = Inr y"
  by simp

lemma if_Inr_Inr [result_simps]:
  "(if c then m else Inr x) = Inr y \<longleftrightarrow> (c \<longrightarrow> m = Inr y) \<and> (\<not> c \<longrightarrow> x = y)"
  by simp

lemma case_option_Inl_Inr [result_simps]:
  "(case x of Some a \<Rightarrow> Inl (f a) | None \<Rightarrow> m) = Inr y \<longleftrightarrow> x = None \<and> m = Inr y"
  by (cases x) auto

lemma find_map_None: "find_map f xs = None \<longleftrightarrow> (\<forall>x\<in>set xs. f x = None)"
  by (induction xs) (auto split: option.splits)

lemma find_map_Some: "find_map f xs = Some y \<Longrightarrow> \<exists>x\<in>set xs. f x = Some y"
  by (induction xs) (auto split: option.splits)

lemma find_map_cong [fundef_cong]:
  "\<lbrakk>xs = ys; \<And>y. y \<in> set ys \<Longrightarrow> f y = g y\<rbrakk> \<Longrightarrow> find_map f xs = find_map g ys"
  by (induction xs arbitrary: ys) (auto split: option.splits)

lemma for_each_Inr [result_simps]:
  "for_each f xs = Inr u \<longleftrightarrow> (\<forall>x\<in>set xs. f x = Inr ())"
  by (induction xs) (auto simp: and_then_Inr)

lemma for_each_Inl_elem:
  "for_each f xs = Inl e \<Longrightarrow> \<exists>x\<in>set xs. f x = Inl e"
  by (induction xs) (auto simp: and_then_Inl)

lemma for_each_prefix_iff:
  assumes "\<And>pre x. f pre x = Inr () \<longleftrightarrow> (\<forall>p\<in>set pre. R p x) \<and> Q x"
  shows "for_each_prefix f pre xs = Inr () \<longleftrightarrow>
    sorted_wrt R xs \<and> (\<forall>x\<in>set xs. Q x) \<and> (\<forall>p\<in>set pre. \<forall>x\<in>set xs. R p x)"
proof (induction xs arbitrary: pre)
  case Nil
  then show ?case by simp
next
  case (Cons x xs)
  show ?case
    by (auto simp: and_then_Inr assms Cons.IH)
qed

lemma for_each_prefix_Nil_iff:
  assumes "\<And>pre x. f pre x = Inr () \<longleftrightarrow> (\<forall>p\<in>set pre. R p x) \<and> Q x"
  shows "for_each_prefix f [] xs = Inr u \<longleftrightarrow> sorted_wrt R xs \<and> (\<forall>x\<in>set xs. Q x)"
  using for_each_prefix_iff [of f R Q "[]" xs, OF assms] by simp

section \<open>Lemmas on lists\<close>

lemma sorted_wrt_neq_distinct: "sorted_wrt (\<lambda>x y. f x \<noteq> f y) xs \<longleftrightarrow> distinct (map f xs)"
  by (induction xs) auto

lemma windows2_sorted_wrt:
  fixes f :: "'a \<Rightarrow> 'b::linorder"
  shows "(\<forall>(x, y)\<in>set (windows2 xs). f x < f y) \<longleftrightarrow> sorted_wrt (\<lambda>x y. f x < f y) xs"
proof (induction xs rule: windows2.induct)
  case (1 x y xs)
  then show ?case by (fastforce dest: order.strict_trans)
qed auto

lemma length_update_first [simp]: "length (update_first p f xs) = length xs"
  by (induction xs) auto

lemma map_update_first:
  "(\<And>x. g (f x) = g x) \<Longrightarrow> map g (update_first p f xs) = map g xs"
  by (induction xs) auto

lemma find_Some_iff_mem:
  "distinct (map k xs) \<Longrightarrow> find (\<lambda>r. k r = a) xs = Some x \<longleftrightarrow> x \<in> set xs \<and> k x = a"
  by (induction xs) auto

lemma find_None_iff_key: "find (\<lambda>r. k r = a) xs = None \<longleftrightarrow> a \<notin> k ` set xs"
  by (induction xs) auto

lemma find_keyed_Some: "find (\<lambda>r. k r = a) xs = Some x \<Longrightarrow> x \<in> set xs \<and> k x = a"
  by (induction xs) (auto split: if_splits)

lemma set_update_first:
  assumes "distinct (map k xs)" and "x \<in> set xs"
  shows "set (update_first (\<lambda>r. k r = k x) f xs) = insert (f x) (set xs - {x})"
  using assms
proof (induction xs)
  case Nil
  then show ?case by simp
next
  case (Cons y ys)
  show ?case
  proof (cases "k y = k x")
    case True
    with Cons.prems have "x \<notin> set ys" "y = x"
      by (auto simp: image_iff)
    with Cons.prems show ?thesis by auto
  next
    case False
    with Cons show ?thesis by auto
  qed
qed

section \<open>Lemmas on words\<close>

lemma unat_less_2p: "unat (w :: 'a::len word) < 2 ^ LENGTH('a)"
  by (rule unsigned_less)

lemma checked_add_Some:
  "checked_add a b = Some c \<longleftrightarrow>
     unat (a :: 'a::len word) + unat b < 2 ^ LENGTH('a) \<and> c = a + b"
  by (auto simp: checked_add_def)

lemma checked_add_None:
  "checked_add a b = None \<longleftrightarrow> 2 ^ LENGTH('a) \<le> unat (a :: 'a::len word) + unat b"
  by (auto simp: checked_add_def)

lemma checked_mul_Some:
  "checked_mul a b = Some c \<longleftrightarrow>
     unat (a :: 'a::len word) * unat b < 2 ^ LENGTH('a) \<and> c = a * b"
  by (auto simp: checked_mul_def)

lemma unat_plus_no_overflow:
  "unat (a :: 'a::len word) + unat b < 2 ^ LENGTH('a) \<Longrightarrow> unat (a + b) = unat a + unat b"
  by (simp add: unat_word_ariths)

lemma unat_mult_no_overflow:
  "unat (a :: 'a::len word) * unat b < 2 ^ LENGTH('a) \<Longrightarrow> unat (a * b) = unat a * unat b"
  by (simp add: unat_word_ariths)

lemma is_power_of_two_iff:
  "is_power_of_two (w :: 'a::len word) \<longleftrightarrow> (\<exists>k < LENGTH('a). unat w = 2 ^ k)"
  by (auto simp: is_power_of_two_def list_ex_iff)

lemma is_power_of_two_nonzero: "is_power_of_two w \<Longrightarrow> w \<noteq> 0"
  by (auto simp: is_power_of_two_iff)

end
