(* ===== verification/Byte_Arrays.thy ===== *)
theory Byte_Arrays
  imports Fe2o3_Prelude "HOL-Library.List_Lexorder"
begin

text \<open>
  Fixed 32-byte identities and little-endian integers. The type \<open>bytes32\<close> is the Rust array
  \<open>[u8; 32]\<close>; its derived \<open>Ord\<close> is the lexicographic order of the bytes. The identity
  types of \<open>crates/fe2o3-completion/src/graph.rs\<close> and the digests of
  \<open>crates/fe2o3-runtime-model/src/identity.rs\<close> wrap it.
\<close>

section \<open>Arrays of 32 bytes\<close>

typedef bytes32 = "{bs :: u8 list. length bs = 32}"
  morphisms as_bytes Abs_bytes32
  by (rule exI [of _ "replicate 32 0"]) simp

setup_lifting type_definition_bytes32

instantiation bytes32 :: linorder
begin

lift_definition less_eq_bytes32 :: "bytes32 \<Rightarrow> bytes32 \<Rightarrow> bool" is "(\<le>)" .

lift_definition less_bytes32 :: "bytes32 \<Rightarrow> bytes32 \<Rightarrow> bool" is "(<)" .

instance
  by standard (transfer; auto)+

end

instantiation bytes32 :: equal
begin

lift_definition equal_bytes32 :: "bytes32 \<Rightarrow> bytes32 \<Rightarrow> bool" is "(=)" .

instance
  by standard (transfer; simp)

end

text \<open>The array whose bytes are all \<open>b\<close>, \<open>[b; 32]\<close>.\<close>

definition fill32 :: "u8 \<Rightarrow> bytes32" where
  "fill32 b = Abs_bytes32 (replicate 32 b)"

text \<open>\<open>value.try_into()\<close> from a slice of exactly 32 bytes; another length has no array.\<close>

definition to_bytes32 :: "u8 list \<Rightarrow> bytes32 option" where
  "to_bytes32 bs = (if length bs = 32 then Some (Abs_bytes32 bs) else None)"

lemma length_as_bytes [simp]: "length (as_bytes b) = 32"
  using as_bytes [of b] by simp

lemma as_bytes_fill32 [simp]: "as_bytes (fill32 b) = replicate 32 b"
  by (simp add: fill32_def Abs_bytes32_inverse)

lemma as_bytes_inject_iff [simp]: "as_bytes a = as_bytes b \<longleftrightarrow> a = b"
  by (rule as_bytes_inject)

lemma to_bytes32_as_bytes [simp]: "to_bytes32 (as_bytes b) = Some b"
  by (simp add: to_bytes32_def as_bytes_inverse)

lemma to_bytes32_Some: "to_bytes32 bs = Some b \<longleftrightarrow> bs = as_bytes b"
  by (auto simp: to_bytes32_def Abs_bytes32_inverse as_bytes_inverse)

lemma fill32_eq [simp]: "fill32 a = fill32 b \<longleftrightarrow> a = b"
  by (auto simp: as_bytes_inject [symmetric] simp del: as_bytes_inject_iff)

lemma replicate_less_iff:
  "0 < n \<Longrightarrow> replicate n a < replicate n (b::'a::linorder) \<longleftrightarrow> a < b"
proof (induction n)
  case (Suc n)
  then show ?case by (cases n) auto
qed simp

lemma fill32_less [simp]: "fill32 a < fill32 b \<longleftrightarrow> a < b"
  by (simp add: less_bytes32.rep_eq replicate_less_iff)

lemma fill32_le [simp]: "fill32 a \<le> fill32 b \<longleftrightarrow> a \<le> b"
  by (simp add: linorder_not_less [symmetric])

section \<open>Little-endian integers\<close>

text \<open>\<open>to_le_bytes\<close> and \<open>from_le_bytes\<close>: byte \<open>k\<close> holds bits \<open>8 k\<close> to
  \<open>8 k + 7\<close>.\<close>

definition to_le_bytes :: "nat \<Rightarrow> 'a::len word \<Rightarrow> u8 list" where
  "to_le_bytes n w = map (\<lambda>k. word_of_nat (unat w div 256 ^ k)) [0..<n]"

fun nat_of_le_bytes :: "u8 list \<Rightarrow> nat" where
  "nat_of_le_bytes [] = 0"
| "nat_of_le_bytes (b # bs) = unat b + 256 * nat_of_le_bytes bs"

definition from_le_bytes :: "u8 list \<Rightarrow> 'a::len word" where
  "from_le_bytes bs = word_of_nat (nat_of_le_bytes bs)"

lemma length_to_le_bytes [simp]: "length (to_le_bytes n w) = n"
  by (simp add: to_le_bytes_def)

lemma nat_of_le_bytes_map_div:
  "nat_of_le_bytes (map (\<lambda>k. word_of_nat (m div 256 ^ k)) [0..<n]) = m mod 256 ^ n"
proof (induction n arbitrary: m)
  case 0
  then show ?case by simp
next
  case (Suc n)
  have shift: "map (\<lambda>k. word_of_nat (m div 256 ^ k) :: u8) [0..<Suc n] =
      word_of_nat m # map (\<lambda>k. word_of_nat ((m div 256) div 256 ^ k)) [0..<n]"
    by (simp add: upt_conv_Cons map_Suc_upt [symmetric] div_mult2_eq del: upt_Suc)
  have "unat (word_of_nat m :: u8) = m mod 256"
    by (simp add: unat_of_nat)
  then have "nat_of_le_bytes (map (\<lambda>k. word_of_nat (m div 256 ^ k)) [0..<Suc n]) =
      m mod 256 + 256 * ((m div 256) mod 256 ^ n)"
    by (simp only: shift nat_of_le_bytes.simps Suc.IH)
  also have "\<dots> = m mod 256 ^ Suc n"
    by (simp add: mod_mult2_eq)
  finally show ?case .
qed

lemma from_to_le_bytes:
  "8 * n = LENGTH('a) \<Longrightarrow> from_le_bytes (to_le_bytes n w) = (w :: 'a::len word)"
proof -
  assume len: "8 * n = LENGTH('a)"
  have "(256::nat) ^ n = 2 ^ LENGTH('a)"
    using power_mult [of "2::nat" 8 n] by (simp add: len)
  moreover have "unat w < 2 ^ LENGTH('a)"
    by (rule unat_less_2p)
  ultimately show ?thesis
    by (simp add: from_le_bytes_def to_le_bytes_def nat_of_le_bytes_map_div)
qed

lemma nat_of_le_bytes_less: "nat_of_le_bytes bs < 256 ^ length bs"
proof (induction bs)
  case Nil
  then show ?case by simp
next
  case (Cons b bs)
  have "unat b < 256" using unat_less_2p [of b] by simp
  with Cons show ?case by simp
qed

lemma to_le_bytes_nat_of_le_bytes:
  "map (\<lambda>k. word_of_nat (nat_of_le_bytes bs div 256 ^ k)) [0..<length bs] = bs"
proof (induction bs)
  case Nil
  then show ?case by simp
next
  case (Cons b bs)
  have b: "unat b < 256" using unat_less_2p [of b] by simp
  then have div: "(unat b + 256 * nat_of_le_bytes bs) div 256 = nat_of_le_bytes bs"
    by simp
  have first: "word_of_nat (unat b + 256 * nat_of_le_bytes bs) = b"
  proof -
    have "unat (word_of_nat (unat b + 256 * nat_of_le_bytes bs) :: u8) = unat b"
      using b by (simp add: unat_of_nat del: of_nat_add of_nat_mult)
    then show ?thesis by (simp only: word_unat_eq_iff)
  qed
  have "map (\<lambda>k. word_of_nat (nat_of_le_bytes (b # bs) div 256 ^ k) :: u8) [0..<length (b # bs)] =
      word_of_nat (nat_of_le_bytes (b # bs)) #
      map (\<lambda>k. word_of_nat ((nat_of_le_bytes (b # bs) div 256) div 256 ^ k)) [0..<length bs]"
    by (simp add: upt_conv_Cons map_Suc_upt [symmetric] div_mult2_eq del: upt_Suc nat_of_le_bytes.simps)
  also have "\<dots> = b # bs"
    by (simp only: nat_of_le_bytes.simps first div Cons.IH)
  finally show ?case .
qed

lemma to_from_le_bytes:
  assumes "8 * n = LENGTH('a::len)" and "length bs = n"
  shows "to_le_bytes n (from_le_bytes bs :: 'a word) = bs"
proof -
  have "(256::nat) ^ n = 2 ^ LENGTH('a)"
    using power_mult [of "2::nat" 8 n] by (simp add: assms(1))
  with nat_of_le_bytes_less [of bs] assms(2)
  have "unat (word_of_nat (nat_of_le_bytes bs) :: 'a word) = nat_of_le_bytes bs"
    by (simp add: unat_of_nat)
  with to_le_bytes_nat_of_le_bytes [of bs] assms(2) show ?thesis
    by (simp add: to_le_bytes_def from_le_bytes_def)
qed

end
