(* ===== verification/Runtime_Identity.thy ===== *)
theory Runtime_Identity
  imports Byte_Arrays
begin

text \<open>
  The typed identities of \<open>crates/fe2o3-runtime-model/src/identity.rs\<close>. A key names its
  parent, so every lower-level identity is rooted in a device incarnation. Numeric identities
  are \<open>u64\<close> newtypes and digests are \<open>[u8; 32]\<close> newtypes; both are transparent in
  the source and are type synonyms here. The derived \<open>Ord\<close> of a key struct compares its
  fields in declaration order, which is the lexicographic order on their tuple.
\<close>

type_synonym identity_digest = bytes32

type_synonym code_load_plan_id = identity_digest
type_synonym runtime_artifact_id = identity_digest
type_synonym queue_plan_id = identity_digest

datatype device_key = DeviceKeyV1 (physical: u64) (generation: u64)

datatype vm_key = VmKeyV1 (vm_device: device_key) (vm_id: u64)

datatype allocation_key = AllocationKeyV1 (allocation_vm: vm_key) (allocation_id: u64)

datatype mapping_key = MappingKeyV1 (mapping_allocation: allocation_key) (mapping_id: u64)

datatype loaded_code_key = LoadedCodeKeyV1 (code_vm: vm_key) (code_id: u64)

datatype queue_key = QueueKeyV1 (queue_vm: vm_key) (queue_id: u64) (queue_generation: u64)

datatype dispatch_key = DispatchKeyV1 (dispatch_queue: queue_key) (dispatch_id: u64)

datatype completion_key = CompletionKeyV1 (completion_dispatch: dispatch_key) (completion_id: u64)

section \<open>Derived orders\<close>

text \<open>Dispatch resources are kept in ascending order of their mapping key, so the order of
  mapping keys and of their parents is part of the model.\<close>

instantiation device_key :: linorder
begin

definition less_eq_device_key :: "device_key \<Rightarrow> device_key \<Rightarrow> bool" where
  "less_eq_device_key a b \<longleftrightarrow> (physical a, generation a) \<le> (physical b, generation b)"

definition less_device_key :: "device_key \<Rightarrow> device_key \<Rightarrow> bool" where
  "less_device_key a b \<longleftrightarrow> (physical a, generation a) < (physical b, generation b)"

instance
  by standard (auto simp: less_eq_device_key_def less_device_key_def intro: device_key.expand)

end

instantiation vm_key :: linorder
begin

definition less_eq_vm_key :: "vm_key \<Rightarrow> vm_key \<Rightarrow> bool" where
  "less_eq_vm_key a b \<longleftrightarrow> (vm_device a, vm_id a) \<le> (vm_device b, vm_id b)"

definition less_vm_key :: "vm_key \<Rightarrow> vm_key \<Rightarrow> bool" where
  "less_vm_key a b \<longleftrightarrow> (vm_device a, vm_id a) < (vm_device b, vm_id b)"

instance
  by standard (auto simp: less_eq_vm_key_def less_vm_key_def intro: vm_key.expand)

end

instantiation allocation_key :: linorder
begin

definition less_eq_allocation_key :: "allocation_key \<Rightarrow> allocation_key \<Rightarrow> bool" where
  "less_eq_allocation_key a b \<longleftrightarrow>
     (allocation_vm a, allocation_id a) \<le> (allocation_vm b, allocation_id b)"

definition less_allocation_key :: "allocation_key \<Rightarrow> allocation_key \<Rightarrow> bool" where
  "less_allocation_key a b \<longleftrightarrow>
     (allocation_vm a, allocation_id a) < (allocation_vm b, allocation_id b)"

instance
  by standard
    (auto simp: less_eq_allocation_key_def less_allocation_key_def intro: allocation_key.expand)

end

instantiation mapping_key :: linorder
begin

definition less_eq_mapping_key :: "mapping_key \<Rightarrow> mapping_key \<Rightarrow> bool" where
  "less_eq_mapping_key a b \<longleftrightarrow>
     (mapping_allocation a, mapping_id a) \<le> (mapping_allocation b, mapping_id b)"

definition less_mapping_key :: "mapping_key \<Rightarrow> mapping_key \<Rightarrow> bool" where
  "less_mapping_key a b \<longleftrightarrow>
     (mapping_allocation a, mapping_id a) < (mapping_allocation b, mapping_id b)"

instance
  by standard
    (auto simp: less_eq_mapping_key_def less_mapping_key_def intro: mapping_key.expand)

end

lemmas key_order_defs =
  less_eq_device_key_def less_device_key_def
  less_eq_vm_key_def less_vm_key_def
  less_eq_allocation_key_def less_allocation_key_def
  less_eq_mapping_key_def less_mapping_key_def

end
