(* ===== verification/Runtime_State.thy ===== *)
theory Runtime_State
  imports Runtime_Identity
begin

text \<open>
  The carrier of the runtime lifecycle model, \<open>crates/fe2o3-runtime-model/src/model.rs\<close>:
  record states, record structs, error enums, the eight tables of \<open>RuntimeStateV1\<close>, the
  private lookups \<open>device\<close>, \<open>device_mut\<close>, \<open>vm\<close>, ... and the free helper
  functions at the end of the file. Constructors carry the name of their enum where Rust
  distinguishes them by path (\<open>DeviceStateV1::Ready\<close> is \<open>Device_Ready\<close>).
\<close>

section \<open>Record states\<close>

datatype device_state = Device_Ready | Device_MayStillAccess | Device_Quiescent | Device_Released

datatype vm_state = Vm_Active | Vm_MayStillAccess | Vm_Quiescent | Vm_Released

datatype resource_state = Live | Released

datatype queue_state = Queue_Ready | Queue_MayStillAccess | Queue_Quiescent | Queue_Released

datatype dispatch_state =
    Prepared
  | Published
  | Ambiguous
  | Completed
  | FailedQuiescent
  | AbortedBeforePublication

fun retains_resources :: "dispatch_state \<Rightarrow> bool" where
  "retains_resources Prepared = True"
| "retains_resources Published = True"
| "retains_resources Ambiguous = True"
| "retains_resources _ = False"

datatype completion_state =
    Completion_Armed
  | Completion_Ambiguous
  | Completion_Observed
  | Completion_QuiescedFailure
  | Completion_CancelledBeforePublication

datatype memory_access = Read | ReadWrite | ReadExecute

fun permits :: "memory_access \<Rightarrow> memory_access \<Rightarrow> bool" where
  "permits Read Read = True"
| "permits ReadWrite Read = True"
| "permits ReadWrite ReadWrite = True"
| "permits ReadExecute Read = True"
| "permits ReadExecute ReadExecute = True"
| "permits _ _ = False"

section \<open>Records\<close>

record dispatch_resource =
  res_mapping :: mapping_key
  res_required_access :: memory_access

record device_record =
  dev_key :: device_key
  dev_state :: device_state

record vm_record =
  vm_key :: vm_key
  vm_state :: vm_state

record allocation_record =
  alloc_key :: allocation_key
  alloc_byte_len :: u64
  alloc_state :: resource_state

record mapping_record =
  map_key :: mapping_key
  map_allocation_offset :: u64
  map_gpu_va :: u64
  map_byte_len :: u64
  map_access :: memory_access
  map_state :: resource_state

record loaded_code_record =
  code_key :: loaded_code_key
  code_load_plan_id :: code_load_plan_id
  code_artifact_id :: runtime_artifact_id
  code_executable_mapping :: mapping_key
  code_entry_offset :: u64
  code_state :: resource_state

record queue_record =
  queue_key :: queue_key
  queue_plan_id :: queue_plan_id
  queue_ring_mapping :: mapping_key
  queue_capacity :: u32
  queue_state :: queue_state

record dispatch_record =
  disp_key :: dispatch_key
  disp_code :: loaded_code_key
  disp_completion :: completion_key
  disp_resources :: "dispatch_resource list"
  disp_state :: dispatch_state

record completion_record =
  comp_key :: completion_key
  comp_state :: completion_state

section \<open>Errors\<close>

datatype record_kind =
    Kind_Device
  | Kind_Vm
  | Kind_Allocation
  | Kind_Mapping
  | Kind_LoadedCode
  | Kind_Queue
  | Kind_Dispatch
  | Kind_Completion
  | Kind_DispatchResource

datatype record_ref =
    Ref_Device device_key
  | Ref_Vm vm_key
  | Ref_Allocation allocation_key
  | Ref_Mapping mapping_key
  | Ref_LoadedCode loaded_code_key
  | Ref_Queue queue_key
  | Ref_Dispatch dispatch_key
  | Ref_Completion completion_key

datatype invariant_violation =
    Iv_CapacityExceeded record_kind
  | Iv_Duplicate record_ref
  | Iv_MissingParent record_ref
  | Iv_BindingMismatch record_ref
  | Iv_InvalidRange record_ref
  | Iv_InvalidAccess record_ref
  | Iv_InvalidGeneration device_key
  | Iv_InvalidState record_ref
  | Iv_AddressOverlap mapping_key mapping_key
  | Iv_NonCanonicalResources dispatch_key
  | Iv_CompletionMismatch dispatch_key
  | Iv_EarlyRelease record_ref
  | Iv_QueueOversubscribed queue_key

datatype transition_error =
    SourceInvariant invariant_violation
  | NextInvariant invariant_violation
  | CapacityExceeded record_kind nat
  | NotFound record_ref
  | AlreadyExists record_ref
  | IllegalState record_ref
  | BindingMismatch record_ref
  | GenerationNotMonotonic device_key
  | InvalidRange record_ref
  | InvalidAccess record_ref
  | AddressConflict mapping_key
  | NonCanonicalResources dispatch_key
  | ResourceInUse record_ref
  | QueueFull queue_key
  | CompletionMismatch dispatch_key
  | NotQuiescent record_ref

section \<open>The state\<close>

definition MAX_DEVICES :: nat where "MAX_DEVICES = 16"
definition MAX_VMS :: nat where "MAX_VMS = 64"
definition MAX_ALLOCATIONS :: nat where "MAX_ALLOCATIONS = 4096"
definition MAX_MAPPINGS :: nat where "MAX_MAPPINGS = 4096"
definition MAX_LOADED_CODE :: nat where "MAX_LOADED_CODE = 256"
definition MAX_QUEUES :: nat where "MAX_QUEUES = 256"
definition MAX_DISPATCHES :: nat where "MAX_DISPATCHES = 32768"
definition MAX_COMPLETIONS :: nat where "MAX_COMPLETIONS = MAX_DISPATCHES"
definition MAX_DISPATCH_RESOURCES :: nat where "MAX_DISPATCH_RESOURCES = 256"
definition MAX_QUEUE_CAPACITY :: u32 where "MAX_QUEUE_CAPACITY = 16384"
definition AQL_PACKET_BYTES :: u64 where "AQL_PACKET_BYTES = 64"

lemmas capacity_defs =
  MAX_DEVICES_def MAX_VMS_def MAX_ALLOCATIONS_def MAX_MAPPINGS_def MAX_LOADED_CODE_def
  MAX_QUEUES_def MAX_DISPATCHES_def MAX_COMPLETIONS_def MAX_DISPATCH_RESOURCES_def
  MAX_QUEUE_CAPACITY_def AQL_PACKET_BYTES_def

record runtime_state =
  devices :: "device_record list"
  vms :: "vm_record list"
  allocations :: "allocation_record list"
  mappings :: "mapping_record list"
  loaded_code :: "loaded_code_record list"
  queues :: "queue_record list"
  dispatches :: "dispatch_record list"
  completions :: "completion_record list"

definition new_runtime_state :: runtime_state where
  "new_runtime_state =
     \<lparr>devices = [], vms = [], allocations = [], mappings = [], loaded_code = [],
      queues = [], dispatches = [], completions = []\<rparr>"

section \<open>Lookups\<close>

definition device :: "runtime_state \<Rightarrow> device_key \<Rightarrow> transition_error + device_record" where
  "device s k = ok_or (find (\<lambda>r. dev_key r = k) (devices s)) (NotFound (Ref_Device k))"

definition vm :: "runtime_state \<Rightarrow> vm_key \<Rightarrow> transition_error + vm_record" where
  "vm s k = ok_or (find (\<lambda>r. vm_key r = k) (vms s)) (NotFound (Ref_Vm k))"

definition allocation :: "runtime_state \<Rightarrow> allocation_key \<Rightarrow> transition_error + allocation_record" where
  "allocation s k =
     ok_or (find (\<lambda>r. alloc_key r = k) (allocations s)) (NotFound (Ref_Allocation k))"

definition mapping :: "runtime_state \<Rightarrow> mapping_key \<Rightarrow> transition_error + mapping_record" where
  "mapping s k = ok_or (find (\<lambda>r. map_key r = k) (mappings s)) (NotFound (Ref_Mapping k))"

definition code :: "runtime_state \<Rightarrow> loaded_code_key \<Rightarrow> transition_error + loaded_code_record" where
  "code s k = ok_or (find (\<lambda>r. code_key r = k) (loaded_code s)) (NotFound (Ref_LoadedCode k))"

definition queue :: "runtime_state \<Rightarrow> queue_key \<Rightarrow> transition_error + queue_record" where
  "queue s k = ok_or (find (\<lambda>r. queue_key r = k) (queues s)) (NotFound (Ref_Queue k))"

definition dispatch :: "runtime_state \<Rightarrow> dispatch_key \<Rightarrow> transition_error + dispatch_record" where
  "dispatch s k = ok_or (find (\<lambda>r. disp_key r = k) (dispatches s)) (NotFound (Ref_Dispatch k))"

definition completion :: "runtime_state \<Rightarrow> completion_key \<Rightarrow> transition_error + completion_record" where
  "completion s k =
     ok_or (find (\<lambda>r. comp_key r = k) (completions s)) (NotFound (Ref_Completion k))"

text \<open>
  \<open>self.x_mut(key)?.state = st\<close>: the first record with the key is found again and its
  state field assigned; a missing record is the same \<open>NotFound\<close> error.
\<close>

definition device_mut :: "runtime_state \<Rightarrow> device_key \<Rightarrow> device_state \<Rightarrow> transition_error + runtime_state" where
  "device_mut s k st = and_then (device s k) (\<lambda>_.
     Inr (s\<lparr>devices := update_first (\<lambda>r. dev_key r = k) (\<lambda>r. r\<lparr>dev_state := st\<rparr>) (devices s)\<rparr>))"

definition vm_mut :: "runtime_state \<Rightarrow> vm_key \<Rightarrow> vm_state \<Rightarrow> transition_error + runtime_state" where
  "vm_mut s k st = and_then (vm s k) (\<lambda>_.
     Inr (s\<lparr>vms := update_first (\<lambda>r. vm_key r = k) (\<lambda>r. r\<lparr>vm_state := st\<rparr>) (vms s)\<rparr>))"

definition allocation_mut :: "runtime_state \<Rightarrow> allocation_key \<Rightarrow> resource_state \<Rightarrow> transition_error + runtime_state" where
  "allocation_mut s k st = and_then (allocation s k) (\<lambda>_.
     Inr (s\<lparr>allocations :=
        update_first (\<lambda>r. alloc_key r = k) (\<lambda>r. r\<lparr>alloc_state := st\<rparr>) (allocations s)\<rparr>))"

definition mapping_mut :: "runtime_state \<Rightarrow> mapping_key \<Rightarrow> resource_state \<Rightarrow> transition_error + runtime_state" where
  "mapping_mut s k st = and_then (mapping s k) (\<lambda>_.
     Inr (s\<lparr>mappings :=
        update_first (\<lambda>r. map_key r = k) (\<lambda>r. r\<lparr>map_state := st\<rparr>) (mappings s)\<rparr>))"

definition code_mut :: "runtime_state \<Rightarrow> loaded_code_key \<Rightarrow> resource_state \<Rightarrow> transition_error + runtime_state" where
  "code_mut s k st = and_then (code s k) (\<lambda>_.
     Inr (s\<lparr>loaded_code :=
        update_first (\<lambda>r. code_key r = k) (\<lambda>r. r\<lparr>code_state := st\<rparr>) (loaded_code s)\<rparr>))"

definition queue_mut :: "runtime_state \<Rightarrow> queue_key \<Rightarrow> queue_state \<Rightarrow> transition_error + runtime_state" where
  "queue_mut s k st = and_then (queue s k) (\<lambda>_.
     Inr (s\<lparr>queues :=
        update_first (\<lambda>r. queue_key r = k) (\<lambda>r. r\<lparr>queue_state := st\<rparr>) (queues s)\<rparr>))"

definition dispatch_mut :: "runtime_state \<Rightarrow> dispatch_key \<Rightarrow> dispatch_state \<Rightarrow> transition_error + runtime_state" where
  "dispatch_mut s k st = and_then (dispatch s k) (\<lambda>_.
     Inr (s\<lparr>dispatches :=
        update_first (\<lambda>r. disp_key r = k) (\<lambda>r. r\<lparr>disp_state := st\<rparr>) (dispatches s)\<rparr>))"

definition completion_mut :: "runtime_state \<Rightarrow> completion_key \<Rightarrow> completion_state \<Rightarrow> transition_error + runtime_state" where
  "completion_mut s k st = and_then (completion s k) (\<lambda>_.
     Inr (s\<lparr>completions :=
        update_first (\<lambda>r. comp_key r = k) (\<lambda>r. r\<lparr>comp_state := st\<rparr>) (completions s)\<rparr>))"

section \<open>Helper functions\<close>

fun completion_matches :: "dispatch_state \<Rightarrow> completion_state \<Rightarrow> bool" where
  "completion_matches Prepared Completion_Armed = True"
| "completion_matches Published Completion_Armed = True"
| "completion_matches Ambiguous Completion_Ambiguous = True"
| "completion_matches Completed Completion_Observed = True"
| "completion_matches FailedQuiescent Completion_QuiescedFailure = True"
| "completion_matches AbortedBeforePublication Completion_CancelledBeforePublication = True"
| "completion_matches _ _ = False"

definition require_state :: "bool \<Rightarrow> record_ref \<Rightarrow> transition_error + unit" where
  "require_state condition r = (if condition then Inr () else Inl (IllegalState r))"

definition ensure_room :: "nat \<Rightarrow> nat \<Rightarrow> record_kind \<Rightarrow> transition_error + unit" where
  "ensure_room actual maximum kind =
     (if actual < maximum then Inr () else Inl (CapacityExceeded kind maximum))"

text \<open>The sums wrap, as an overflowing addition does in a release build; they never overflow
  on validated ranges (\<open>ranges_overlap_sets\<close> below).\<close>

definition ranges_overlap :: "u64 \<Rightarrow> u64 \<Rightarrow> u64 \<Rightarrow> u64 \<Rightarrow> bool" where
  "ranges_overlap left_start left_len right_start right_len =
     (let left_end = left_start + left_len;
          right_end = right_start + right_len
      in left_start < right_end \<and> right_start < left_end)"

definition strictly_ascending :: "dispatch_resource list \<Rightarrow> bool" where
  "strictly_ascending rs =
     (\<not> list_ex (\<lambda>(a, b). res_mapping a \<ge> res_mapping b) (windows2 rs))"

section \<open>Lemmas\<close>

lemma require_state_Inr [result_simps]: "require_state c r = Inr u \<longleftrightarrow> c"
  by (simp add: require_state_def)

lemma ensure_room_Inr [result_simps]: "ensure_room a m k = Inr u \<longleftrightarrow> a < m"
  by (simp add: ensure_room_def)

text \<open>On ranges that do not overflow, the overlap test is intersection of address sets.\<close>

lemma ranges_overlap_sets:
  assumes "unat a + unat m < 2 ^ 64" and "unat b + unat n < 2 ^ 64" and "m \<noteq> 0" and "n \<noteq> 0"
  shows "ranges_overlap a m b n \<longleftrightarrow>
    {unat a ..< unat a + unat m} \<inter> {unat b ..< unat b + unat n} \<noteq> {}"
proof -
  have "0 < unat m" "0 < unat n"
    using assms(3,4) by (simp_all add: unat_gt_0)
  moreover have "ranges_overlap a m b n \<longleftrightarrow> unat a < unat b + unat n \<and> unat b < unat a + unat m"
    using assms(1,2)
    by (simp add: ranges_overlap_def word_less_nat_alt unat_plus_no_overflow)
  ultimately show ?thesis
    by (auto simp: ivl_disj_int_one intro: exI [of _ "max (unat a) (unat b)"])
qed

lemma ranges_overlap_commute: "ranges_overlap a m b n = ranges_overlap b n a m"
  by (auto simp: ranges_overlap_def)

lemma strictly_ascending_iff:
  "strictly_ascending rs \<longleftrightarrow> sorted_wrt (\<lambda>a b. res_mapping a < res_mapping b) rs"
  unfolding windows2_sorted_wrt [symmetric]
  by (auto simp: strictly_ascending_def list_ex_iff not_le)

end
