(* ===== verification/Runtime_Transitions.thy ===== *)
theory Runtime_Transitions
  imports Runtime_State
begin

text \<open>
  The operations of \<open>RuntimeStateV1\<close> in \<open>crates/fe2o3-runtime-model/src/model.rs\<close>:
  one definition per private method, \<open>apply\<close> as \<open>apply_transition\<close>, with every guard
  in source order. A method that mutates \<open>self\<close> returns the new state; the source works on a
  clone, so an error discards it.
\<close>

datatype runtime_transition =
    AddDevice device_key
  | BeginDeviceFailure device_key
  | EstablishDeviceQuiescence device_key
  | ReleaseDevice device_key
  | CreateVm vm_key
  | BeginVmFailure vm_key
  | EstablishVmQuiescence vm_key
  | ReleaseVm vm_key
  | Allocate allocation_key u64
  | ReleaseAllocation allocation_key
  | Map mapping_key u64 u64 u64 memory_access
  | Unmap mapping_key
  | LoadCode loaded_code_key code_load_plan_id runtime_artifact_id mapping_key u64
  | UnloadCode loaded_code_key
  | CreateQueue queue_key queue_plan_id mapping_key u32
  | BeginQueueFailure queue_key
  | EstablishQueueQuiescence queue_key
  | ReleaseQueue queue_key
  | PrepareDispatch dispatch_key loaded_code_key completion_key "dispatch_resource list"
  | AbortPrepared completion_key
  | PublishDispatch completion_key
  | MarkDispatchAmbiguous completion_key
  | ObserveCompletion completion_key
  | SettleAfterQuiescence completion_key

section \<open>Shared guards\<close>

definition require_vm_active :: "runtime_state \<Rightarrow> vm_key \<Rightarrow> transition_error + unit" where
  "require_vm_active s k =
     and_then (vm s k) (\<lambda>v.
     and_then (require_state (vm_state v = Vm_Active) (Ref_Vm k)) (\<lambda>_.
     and_then (device s (vm_device k)) (\<lambda>d.
     require_state (dev_state d = Device_Ready) (Ref_Device (vm_device k)))))"

text \<open>The disjunction is short-circuit: a later lookup runs only if the earlier tests fail.\<close>

definition queue_is_effectively_quiescent :: "runtime_state \<Rightarrow> queue_key \<Rightarrow> transition_error + bool" where
  "queue_is_effectively_quiescent s k =
     and_then (queue s k) (\<lambda>q. if queue_state q = Queue_Quiescent then Inr True else
     and_then (vm s (queue_vm k)) (\<lambda>v. if vm_state v = Vm_Quiescent then Inr True else
     and_then (device s (vm_device (queue_vm k))) (\<lambda>d.
     Inr (dev_state d = Device_Quiescent))))"

section \<open>Devices\<close>

definition add_device :: "runtime_state \<Rightarrow> device_key \<Rightarrow> transition_error + runtime_state" where
  "add_device s key =
     and_then (ensure_room (length (devices s)) MAX_DEVICES Kind_Device) (\<lambda>_.
     if list_ex (\<lambda>r. dev_key r = key) (devices s)
     then Inl (AlreadyExists (Ref_Device key)) else
     and_then (for_each (\<lambda>r.
         if dev_state r \<noteq> Device_Released then Inl (ResourceInUse (Ref_Device (dev_key r)))
         else if generation (dev_key r) \<ge> generation key then Inl (GenerationNotMonotonic key)
         else Inr ())
       (filter (\<lambda>r. physical (dev_key r) = physical key) (devices s))) (\<lambda>_.
     Inr (s\<lparr>devices := devices s @ [\<lparr>dev_key = key, dev_state = Device_Ready\<rparr>]\<rparr>)))"

definition begin_device_failure :: "runtime_state \<Rightarrow> device_key \<Rightarrow> transition_error + runtime_state" where
  "begin_device_failure s key =
     and_then (device s key) (\<lambda>r.
     and_then (require_state (dev_state r = Device_Ready) (Ref_Device key)) (\<lambda>_.
     device_mut s key Device_MayStillAccess))"

definition establish_device_quiescence :: "runtime_state \<Rightarrow> device_key \<Rightarrow> transition_error + runtime_state" where
  "establish_device_quiescence s key =
     and_then (device s key) (\<lambda>r.
     and_then (require_state (dev_state r = Device_MayStillAccess) (Ref_Device key)) (\<lambda>_.
     device_mut s key Device_Quiescent))"

definition release_device :: "runtime_state \<Rightarrow> device_key \<Rightarrow> transition_error + runtime_state" where
  "release_device s key =
     and_then (device s key) (\<lambda>r.
     and_then (require_state (dev_state r = Device_Ready \<or> dev_state r = Device_Quiescent)
       (Ref_Device key)) (\<lambda>_.
     if list_ex (\<lambda>v. vm_device (vm_key v) = key \<and> vm_state v \<noteq> Vm_Released) (vms s)
     then Inl (ResourceInUse (Ref_Device key))
     else device_mut s key Device_Released))"

section \<open>Virtual memory spaces\<close>

definition create_vm :: "runtime_state \<Rightarrow> vm_key \<Rightarrow> transition_error + runtime_state" where
  "create_vm s key =
     and_then (ensure_room (length (vms s)) MAX_VMS Kind_Vm) (\<lambda>_.
     if list_ex (\<lambda>r. vm_key r = key) (vms s) then Inl (AlreadyExists (Ref_Vm key)) else
     and_then (device s (vm_device key)) (\<lambda>d.
     and_then (require_state (dev_state d = Device_Ready) (Ref_Device (vm_device key))) (\<lambda>_.
     Inr (s\<lparr>vms := vms s @ [\<lparr>vm_key = key, vm_state = Vm_Active\<rparr>]\<rparr>))))"

definition begin_vm_failure :: "runtime_state \<Rightarrow> vm_key \<Rightarrow> transition_error + runtime_state" where
  "begin_vm_failure s key =
     and_then (vm s key) (\<lambda>r.
     and_then (require_state (vm_state r = Vm_Active) (Ref_Vm key)) (\<lambda>_.
     vm_mut s key Vm_MayStillAccess))"

definition establish_vm_quiescence :: "runtime_state \<Rightarrow> vm_key \<Rightarrow> transition_error + runtime_state" where
  "establish_vm_quiescence s key =
     and_then (vm s key) (\<lambda>r.
     and_then (require_state (vm_state r = Vm_MayStillAccess) (Ref_Vm key)) (\<lambda>_.
     vm_mut s key Vm_Quiescent))"

definition release_vm :: "runtime_state \<Rightarrow> vm_key \<Rightarrow> transition_error + runtime_state" where
  "release_vm s key =
     and_then (vm s key) (\<lambda>r.
     and_then (require_state (vm_state r = Vm_Active \<or> vm_state r = Vm_Quiescent) (Ref_Vm key)) (\<lambda>_.
     if list_ex (\<lambda>a. allocation_vm (alloc_key a) = key \<and> alloc_state a \<noteq> Released) (allocations s)
        \<or> list_ex (\<lambda>c. code_vm (code_key c) = key \<and> code_state c \<noteq> Released) (loaded_code s)
        \<or> list_ex (\<lambda>q. queue_vm (queue_key q) = key \<and> queue_state q \<noteq> Queue_Released) (queues s)
     then Inl (ResourceInUse (Ref_Vm key))
     else vm_mut s key Vm_Released))"

section \<open>Allocations and mappings\<close>

definition allocate :: "runtime_state \<Rightarrow> allocation_key \<Rightarrow> u64 \<Rightarrow> transition_error + runtime_state" where
  "allocate s key byte_len =
     and_then (ensure_room (length (allocations s)) MAX_ALLOCATIONS Kind_Allocation) (\<lambda>_.
     if list_ex (\<lambda>r. alloc_key r = key) (allocations s)
     then Inl (AlreadyExists (Ref_Allocation key))
     else if byte_len = 0 then Inl (InvalidRange (Ref_Allocation key)) else
     and_then (require_vm_active s (allocation_vm key)) (\<lambda>_.
     Inr (s\<lparr>allocations := allocations s @
       [\<lparr>alloc_key = key, alloc_byte_len = byte_len, alloc_state = Live\<rparr>]\<rparr>)))"

definition release_allocation :: "runtime_state \<Rightarrow> allocation_key \<Rightarrow> transition_error + runtime_state" where
  "release_allocation s key =
     and_then (allocation s key) (\<lambda>r.
     and_then (require_state (alloc_state r = Live) (Ref_Allocation key)) (\<lambda>_.
     if list_ex (\<lambda>m. mapping_allocation (map_key m) = key \<and> map_state m = Live) (mappings s)
     then Inl (ResourceInUse (Ref_Allocation key))
     else allocation_mut s key Released))"

text \<open>\<open>checked_add(..).is_none_or(|end| end > limit)\<close>\<close>

definition range_exceeds :: "u64 \<Rightarrow> u64 \<Rightarrow> u64 \<Rightarrow> bool" where
  "range_exceeds start len limit =
     (case checked_add start len of None \<Rightarrow> True | Some end_ \<Rightarrow> limit < end_)"

definition map_op :: "runtime_state \<Rightarrow> mapping_key \<Rightarrow> u64 \<Rightarrow> u64 \<Rightarrow> u64 \<Rightarrow> memory_access \<Rightarrow>
    transition_error + runtime_state" where
  "map_op s key allocation_offset gpu_va byte_len access =
     and_then (ensure_room (length (mappings s)) MAX_MAPPINGS Kind_Mapping) (\<lambda>_.
     if list_ex (\<lambda>r. map_key r = key) (mappings s) then Inl (AlreadyExists (Ref_Mapping key)) else
     and_then (require_vm_active s (allocation_vm (mapping_allocation key))) (\<lambda>_.
     and_then (allocation s (mapping_allocation key)) (\<lambda>a.
     and_then (require_state (alloc_state a = Live) (Ref_Allocation (mapping_allocation key))) (\<lambda>_.
     if byte_len = 0 \<or> range_exceeds allocation_offset byte_len (alloc_byte_len a)
        \<or> checked_add gpu_va byte_len = None
     then Inl (InvalidRange (Ref_Mapping key))
     else if list_ex (\<lambda>r. ranges_overlap gpu_va byte_len (map_gpu_va r) (map_byte_len r))
          (filter (\<lambda>r. map_state r = Live \<and>
             allocation_vm (mapping_allocation (map_key r)) = allocation_vm (mapping_allocation key))
           (mappings s))
     then Inl (AddressConflict key)
     else Inr (s\<lparr>mappings := mappings s @
       [\<lparr>map_key = key, map_allocation_offset = allocation_offset, map_gpu_va = gpu_va,
         map_byte_len = byte_len, map_access = access, map_state = Live\<rparr>]\<rparr>)))))"

definition unmap :: "runtime_state \<Rightarrow> mapping_key \<Rightarrow> transition_error + runtime_state" where
  "unmap s key =
     and_then (mapping s key) (\<lambda>r.
     and_then (require_state (map_state r = Live) (Ref_Mapping key)) (\<lambda>_.
     if list_ex (\<lambda>c. code_executable_mapping c = key \<and> code_state c = Live) (loaded_code s)
        \<or> list_ex (\<lambda>q. queue_ring_mapping q = key \<and> queue_state q \<noteq> Queue_Released) (queues s)
        \<or> list_ex (\<lambda>d. retains_resources (disp_state d) \<and>
             list_ex (\<lambda>resource. res_mapping resource = key) (disp_resources d)) (dispatches s)
     then Inl (ResourceInUse (Ref_Mapping key))
     else mapping_mut s key Released))"

section \<open>Code and queues\<close>

definition load_code :: "runtime_state \<Rightarrow> loaded_code_key \<Rightarrow> code_load_plan_id \<Rightarrow>
    runtime_artifact_id \<Rightarrow> mapping_key \<Rightarrow> u64 \<Rightarrow> transition_error + runtime_state" where
  "load_code s key load_plan_id artifact_id executable_mapping entry_offset =
     and_then (ensure_room (length (loaded_code s)) MAX_LOADED_CODE Kind_LoadedCode) (\<lambda>_.
     if list_ex (\<lambda>r. code_key r = key) (loaded_code s)
     then Inl (AlreadyExists (Ref_LoadedCode key)) else
     and_then (require_vm_active s (code_vm key)) (\<lambda>_.
     and_then (mapping s executable_mapping) (\<lambda>m.
     if allocation_vm (mapping_allocation executable_mapping) \<noteq> code_vm key
     then Inl (BindingMismatch (Ref_LoadedCode key))
     else if map_state m \<noteq> Live \<or> map_access m \<noteq> ReadExecute
     then Inl (InvalidAccess (Ref_Mapping executable_mapping))
     else if map_byte_len m \<le> entry_offset then Inl (InvalidRange (Ref_LoadedCode key))
     else Inr (s\<lparr>loaded_code := loaded_code s @
       [\<lparr>code_key = key, code_load_plan_id = load_plan_id, code_artifact_id = artifact_id,
         code_executable_mapping = executable_mapping, code_entry_offset = entry_offset,
         code_state = Live\<rparr>]\<rparr>))))"

definition unload_code :: "runtime_state \<Rightarrow> loaded_code_key \<Rightarrow> transition_error + runtime_state" where
  "unload_code s key =
     and_then (code s key) (\<lambda>r.
     and_then (require_state (code_state r = Live) (Ref_LoadedCode key)) (\<lambda>_.
     if list_ex (\<lambda>d. disp_code d = key \<and> retains_resources (disp_state d)) (dispatches s)
     then Inl (ResourceInUse (Ref_LoadedCode key))
     else code_mut s key Released))"

definition valid_queue_capacity :: "u32 \<Rightarrow> bool" where
  "valid_queue_capacity capacity =
     (\<not> (capacity = 0 \<or> MAX_QUEUE_CAPACITY < capacity \<or> \<not> is_power_of_two capacity))"

definition create_queue :: "runtime_state \<Rightarrow> queue_key \<Rightarrow> queue_plan_id \<Rightarrow> mapping_key \<Rightarrow> u32 \<Rightarrow>
    transition_error + runtime_state" where
  "create_queue s key plan_id ring_mapping capacity =
     and_then (ensure_room (length (queues s)) MAX_QUEUES Kind_Queue) (\<lambda>_.
     if list_ex (\<lambda>r. queue_key r = key) (queues s) then Inl (AlreadyExists (Ref_Queue key)) else
     and_then (require_vm_active s (queue_vm key)) (\<lambda>_.
     if \<not> valid_queue_capacity capacity then Inl (InvalidRange (Ref_Queue key)) else
     and_then (mapping s ring_mapping) (\<lambda>m.
     and_then (ok_or (checked_mul (ucast capacity) AQL_PACKET_BYTES)
       (InvalidRange (Ref_Queue key))) (\<lambda>required_bytes.
     if allocation_vm (mapping_allocation ring_mapping) \<noteq> queue_vm key
     then Inl (BindingMismatch (Ref_Queue key))
     else if map_state m \<noteq> Live \<or> map_access m \<noteq> ReadWrite \<or> map_byte_len m < required_bytes
     then Inl (InvalidAccess (Ref_Mapping ring_mapping)) else
     and_then (for_each (\<lambda>r.
         if queue_state r \<noteq> Queue_Released then Inl (ResourceInUse (Ref_Queue (queue_key r)))
         else if queue_generation (queue_key r) \<ge> queue_generation key
         then Inl (IllegalState (Ref_Queue key))
         else Inr ())
       (filter (\<lambda>r. queue_vm (queue_key r) = queue_vm key \<and>
          queue_id (queue_key r) = queue_id key) (queues s))) (\<lambda>_.
     Inr (s\<lparr>queues := queues s @
       [\<lparr>queue_key = key, queue_plan_id = plan_id, queue_ring_mapping = ring_mapping,
         queue_capacity = capacity, queue_state = Queue_Ready\<rparr>]\<rparr>))))))"

definition begin_queue_failure :: "runtime_state \<Rightarrow> queue_key \<Rightarrow> transition_error + runtime_state" where
  "begin_queue_failure s key =
     and_then (queue s key) (\<lambda>r.
     and_then (require_state (queue_state r = Queue_Ready) (Ref_Queue key)) (\<lambda>_.
     queue_mut s key Queue_MayStillAccess))"

definition establish_queue_quiescence :: "runtime_state \<Rightarrow> queue_key \<Rightarrow> transition_error + runtime_state" where
  "establish_queue_quiescence s key =
     and_then (queue s key) (\<lambda>r.
     and_then (require_state (queue_state r = Queue_MayStillAccess) (Ref_Queue key)) (\<lambda>_.
     queue_mut s key Queue_Quiescent))"

definition release_queue :: "runtime_state \<Rightarrow> queue_key \<Rightarrow> transition_error + runtime_state" where
  "release_queue s key =
     and_then (queue s key) (\<lambda>r.
     and_then
       (if queue_state r = Queue_MayStillAccess
        then and_then (queue_is_effectively_quiescent s key) (\<lambda>quiescent.
          require quiescent (NotQuiescent (Ref_Queue key)))
        else Inr ()) (\<lambda>_.
     and_then (require_state (queue_state r \<noteq> Queue_Released) (Ref_Queue key)) (\<lambda>_.
     if list_ex (\<lambda>d. dispatch_queue (disp_key d) = key \<and> retains_resources (disp_state d))
          (dispatches s)
     then Inl (ResourceInUse (Ref_Queue key))
     else queue_mut s key Queue_Released)))"

section \<open>Dispatches and completions\<close>

definition active_dispatches :: "runtime_state \<Rightarrow> queue_key \<Rightarrow> nat" where
  "active_dispatches s q =
     length (filter (\<lambda>r. dispatch_queue (disp_key r) = q \<and> retains_resources (disp_state r))
       (dispatches s))"

definition check_dispatch_resource :: "runtime_state \<Rightarrow> dispatch_key \<Rightarrow> dispatch_resource \<Rightarrow>
    transition_error + unit" where
  "check_dispatch_resource s key resource =
     and_then (mapping s (res_mapping resource)) (\<lambda>m.
     if allocation_vm (mapping_allocation (res_mapping resource)) \<noteq> queue_vm (dispatch_queue key)
     then Inl (BindingMismatch (Ref_Mapping (res_mapping resource)))
     else if map_state m \<noteq> Live \<or> \<not> permits (map_access m) (res_required_access resource)
     then Inl (InvalidAccess (Ref_Mapping (res_mapping resource)))
     else Inr ())"

definition prepare_dispatch :: "runtime_state \<Rightarrow> dispatch_key \<Rightarrow> loaded_code_key \<Rightarrow> completion_key \<Rightarrow>
    dispatch_resource list \<Rightarrow> transition_error + runtime_state" where
  "prepare_dispatch s key cod compl resources =
     and_then (ensure_room (length (dispatches s)) MAX_DISPATCHES Kind_Dispatch) (\<lambda>_.
     and_then (ensure_room (length (completions s)) MAX_COMPLETIONS Kind_Completion) (\<lambda>_.
     if list_ex (\<lambda>r. disp_key r = key) (dispatches s) then Inl (AlreadyExists (Ref_Dispatch key))
     else if list_ex (\<lambda>r. comp_key r = compl) (completions s)
     then Inl (AlreadyExists (Ref_Completion compl))
     else if completion_dispatch compl \<noteq> key then Inl (CompletionMismatch key)
     else if MAX_DISPATCH_RESOURCES < length resources
     then Inl (CapacityExceeded Kind_DispatchResource MAX_DISPATCH_RESOURCES)
     else if \<not> strictly_ascending resources then Inl (NonCanonicalResources key) else
     and_then (require_vm_active s (queue_vm (dispatch_queue key))) (\<lambda>_.
     and_then (queue s (dispatch_queue key)) (\<lambda>q.
     and_then (require_state (queue_state q = Queue_Ready) (Ref_Queue (dispatch_queue key))) (\<lambda>_.
     if unat (queue_capacity q) \<le> active_dispatches s (dispatch_queue key)
     then Inl (QueueFull (dispatch_queue key)) else
     and_then (code s cod) (\<lambda>loaded.
     if code_vm cod \<noteq> queue_vm (dispatch_queue key)
     then Inl (BindingMismatch (Ref_Dispatch key)) else
     and_then (require_state (code_state loaded = Live) (Ref_LoadedCode cod)) (\<lambda>_.
     and_then (for_each (check_dispatch_resource s key) resources) (\<lambda>_.
     Inr (s\<lparr>dispatches := dispatches s @
            [\<lparr>disp_key = key, disp_code = cod, disp_completion = compl,
              disp_resources = resources, disp_state = Prepared\<rparr>],
          completions := completions s @
            [\<lparr>comp_key = compl, comp_state = Completion_Armed\<rparr>]\<rparr>)))))))))"

text \<open>The common head of the dispatch transitions: the exact pair of dispatch and completion
  in the states the transition starts from.\<close>

definition require_dispatch_pair :: "runtime_state \<Rightarrow> completion_key \<Rightarrow> dispatch_state \<Rightarrow>
    completion_state \<Rightarrow> transition_error + unit" where
  "require_dispatch_pair s compl from_dispatch from_completion =
     and_then (dispatch s (completion_dispatch compl)) (\<lambda>d.
     if disp_completion d \<noteq> compl then Inl (CompletionMismatch (completion_dispatch compl)) else
     and_then (require_state (disp_state d = from_dispatch)
       (Ref_Dispatch (completion_dispatch compl))) (\<lambda>_.
     and_then (completion s compl) (\<lambda>c.
     require_state (comp_state c = from_completion) (Ref_Completion compl))))"

definition require_queue_ready :: "runtime_state \<Rightarrow> completion_key \<Rightarrow> transition_error + unit" where
  "require_queue_ready s compl =
     and_then (require_vm_active s (queue_vm (dispatch_queue (completion_dispatch compl)))) (\<lambda>_.
     and_then (queue s (dispatch_queue (completion_dispatch compl))) (\<lambda>q.
     require_state (queue_state q = Queue_Ready)
       (Ref_Queue (dispatch_queue (completion_dispatch compl)))))"

definition publish_dispatch :: "runtime_state \<Rightarrow> completion_key \<Rightarrow> transition_error + runtime_state" where
  "publish_dispatch s compl =
     and_then (require_dispatch_pair s compl Prepared Completion_Armed) (\<lambda>_.
     and_then (require_queue_ready s compl) (\<lambda>_.
     dispatch_mut s (completion_dispatch compl) Published))"

definition observe_completion :: "runtime_state \<Rightarrow> completion_key \<Rightarrow> transition_error + runtime_state" where
  "observe_completion s compl =
     and_then (require_dispatch_pair s compl Published Completion_Armed) (\<lambda>_.
     and_then (require_queue_ready s compl) (\<lambda>_.
     and_then (dispatch_mut s (completion_dispatch compl) Completed) (\<lambda>s'.
     completion_mut s' compl Completion_Observed)))"

definition settle_after_quiescence :: "runtime_state \<Rightarrow> completion_key \<Rightarrow> transition_error + runtime_state" where
  "settle_after_quiescence s compl =
     and_then (require_dispatch_pair s compl Ambiguous Completion_Ambiguous) (\<lambda>_.
     and_then (queue_is_effectively_quiescent s (dispatch_queue (completion_dispatch compl)))
       (\<lambda>quiescent.
     if \<not> quiescent
     then Inl (NotQuiescent (Ref_Queue (dispatch_queue (completion_dispatch compl)))) else
     and_then (dispatch_mut s (completion_dispatch compl) FailedQuiescent) (\<lambda>s'.
     completion_mut s' compl Completion_QuiescedFailure)))"

definition transition_dispatch :: "runtime_state \<Rightarrow> completion_key \<Rightarrow> dispatch_state \<Rightarrow> dispatch_state \<Rightarrow>
    completion_state \<Rightarrow> completion_state \<Rightarrow> transition_error + runtime_state" where
  "transition_dispatch s compl from_dispatch to_dispatch from_completion to_completion =
     and_then (require_dispatch_pair s compl from_dispatch from_completion) (\<lambda>_.
     and_then (dispatch_mut s (completion_dispatch compl) to_dispatch) (\<lambda>s'.
     completion_mut s' compl to_completion))"

section \<open>The transition function\<close>

fun apply_transition :: "runtime_state \<Rightarrow> runtime_transition \<Rightarrow> transition_error + runtime_state" where
  "apply_transition s (AddDevice key) = add_device s key"
| "apply_transition s (BeginDeviceFailure key) = begin_device_failure s key"
| "apply_transition s (EstablishDeviceQuiescence key) = establish_device_quiescence s key"
| "apply_transition s (ReleaseDevice key) = release_device s key"
| "apply_transition s (CreateVm key) = create_vm s key"
| "apply_transition s (BeginVmFailure key) = begin_vm_failure s key"
| "apply_transition s (EstablishVmQuiescence key) = establish_vm_quiescence s key"
| "apply_transition s (ReleaseVm key) = release_vm s key"
| "apply_transition s (Allocate key byte_len) = allocate s key byte_len"
| "apply_transition s (ReleaseAllocation key) = release_allocation s key"
| "apply_transition s (Map key allocation_offset gpu_va byte_len access) =
     map_op s key allocation_offset gpu_va byte_len access"
| "apply_transition s (Unmap key) = unmap s key"
| "apply_transition s (LoadCode key load_plan_id artifact_id executable_mapping entry_offset) =
     load_code s key load_plan_id artifact_id executable_mapping entry_offset"
| "apply_transition s (UnloadCode key) = unload_code s key"
| "apply_transition s (CreateQueue key plan_id ring_mapping capacity) =
     create_queue s key plan_id ring_mapping capacity"
| "apply_transition s (BeginQueueFailure key) = begin_queue_failure s key"
| "apply_transition s (EstablishQueueQuiescence key) = establish_queue_quiescence s key"
| "apply_transition s (ReleaseQueue key) = release_queue s key"
| "apply_transition s (PrepareDispatch key cod compl resources) =
     prepare_dispatch s key cod compl resources"
| "apply_transition s (AbortPrepared compl) =
     transition_dispatch s compl Prepared AbortedBeforePublication
       Completion_Armed Completion_CancelledBeforePublication"
| "apply_transition s (PublishDispatch compl) = publish_dispatch s compl"
| "apply_transition s (MarkDispatchAmbiguous compl) =
     transition_dispatch s compl Published Ambiguous Completion_Armed Completion_Ambiguous"
| "apply_transition s (ObserveCompletion compl) = observe_completion s compl"
| "apply_transition s (SettleAfterQuiescence compl) = settle_after_quiescence s compl"

end
