(* ===== verification/Runtime_Invariants.thy ===== *)
theory Runtime_Invariants
  imports Runtime_Transitions
begin

text \<open>
  \<open>RuntimeStateV1::validate_global_invariants\<close> and its five parts, then \<open>next_all\<close> and
  \<open>next\<close>, which run it before the batch and after every transition.
\<close>

section \<open>The validators of the source\<close>

definition validate_capacities :: "runtime_state \<Rightarrow> invariant_violation + unit" where
  "validate_capacities s =
     for_each (\<lambda>(actual, maximum, kind).
         if (maximum :: nat) < actual then Inl (Iv_CapacityExceeded kind) else Inr ())
       [(length (devices s), MAX_DEVICES, Kind_Device),
        (length (vms s), MAX_VMS, Kind_Vm),
        (length (allocations s), MAX_ALLOCATIONS, Kind_Allocation),
        (length (mappings s), MAX_MAPPINGS, Kind_Mapping),
        (length (loaded_code s), MAX_LOADED_CODE, Kind_LoadedCode),
        (length (queues s), MAX_QUEUES, Kind_Queue),
        (length (dispatches s), MAX_DISPATCHES, Kind_Dispatch),
        (length (completions s), MAX_COMPLETIONS, Kind_Completion)]"

definition validate_devices :: "runtime_state \<Rightarrow> invariant_violation + unit" where
  "validate_devices s =
     for_each_prefix (\<lambda>pre device.
         if list_ex (\<lambda>other. dev_key other = dev_key device) pre
         then Inl (Iv_Duplicate (Ref_Device (dev_key device)))
         else for_each (\<lambda>other.
             if dev_state other \<noteq> Device_Released
             then Inl (Iv_InvalidGeneration (dev_key device)) else Inr ())
           (filter (\<lambda>other. physical (dev_key other) = physical (dev_key device) \<and>
              generation (dev_key other) < generation (dev_key device)) (devices s)))
       [] (devices s)"

definition validate_vm :: "runtime_state \<Rightarrow> vm_record list \<Rightarrow> vm_record \<Rightarrow> invariant_violation + unit" where
  "validate_vm s pre v =
     (if list_ex (\<lambda>other. vm_key other = vm_key v) pre
      then Inl (Iv_Duplicate (Ref_Vm (vm_key v))) else
      and_then (ok_or (find (\<lambda>r. dev_key r = vm_device (vm_key v)) (devices s))
        (Iv_MissingParent (Ref_Vm (vm_key v)))) (\<lambda>device.
      if dev_state device = Device_Released \<and> vm_state v \<noteq> Vm_Released
      then Inl (Iv_EarlyRelease (Ref_Device (dev_key device)))
      else Inr ()))"

definition validate_allocation :: "runtime_state \<Rightarrow> allocation_record list \<Rightarrow> allocation_record \<Rightarrow>
    invariant_violation + unit" where
  "validate_allocation s pre a =
     (if list_ex (\<lambda>other. alloc_key other = alloc_key a) pre
      then Inl (Iv_Duplicate (Ref_Allocation (alloc_key a))) else
      and_then (ok_or (find (\<lambda>r. vm_key r = allocation_vm (alloc_key a)) (vms s))
        (Iv_MissingParent (Ref_Allocation (alloc_key a)))) (\<lambda>v.
      if alloc_byte_len a = 0 then Inl (Iv_InvalidRange (Ref_Allocation (alloc_key a)))
      else if vm_state v = Vm_Released \<and> alloc_state a \<noteq> Released
      then Inl (Iv_EarlyRelease (Ref_Vm (vm_key v)))
      else Inr ()))"

definition validate_mapping :: "runtime_state \<Rightarrow> mapping_record list \<Rightarrow> mapping_record \<Rightarrow>
    invariant_violation + unit" where
  "validate_mapping s pre m =
     (if list_ex (\<lambda>other. map_key other = map_key m) pre
      then Inl (Iv_Duplicate (Ref_Mapping (map_key m))) else
      and_then (ok_or (find (\<lambda>r. alloc_key r = mapping_allocation (map_key m)) (allocations s))
        (Iv_MissingParent (Ref_Mapping (map_key m)))) (\<lambda>a.
      if map_byte_len m = 0
         \<or> range_exceeds (map_allocation_offset m) (map_byte_len m) (alloc_byte_len a)
         \<or> checked_add (map_gpu_va m) (map_byte_len m) = None
      then Inl (Iv_InvalidRange (Ref_Mapping (map_key m)))
      else if alloc_state a = Released \<and> map_state m \<noteq> Released
      then Inl (Iv_EarlyRelease (Ref_Allocation (alloc_key a)))
      else if map_state m = Live
      then for_each (\<lambda>other.
          if ranges_overlap (map_gpu_va m) (map_byte_len m) (map_gpu_va other) (map_byte_len other)
          then Inl (Iv_AddressOverlap (map_key other) (map_key m)) else Inr ())
        (filter (\<lambda>other. map_state other = Live \<and>
           allocation_vm (mapping_allocation (map_key other)) =
           allocation_vm (mapping_allocation (map_key m))) pre)
      else Inr ()))"

definition validate_vms_and_memory :: "runtime_state \<Rightarrow> invariant_violation + unit" where
  "validate_vms_and_memory s =
     and_then (for_each_prefix (validate_vm s) [] (vms s)) (\<lambda>_.
     and_then (for_each_prefix (validate_allocation s) [] (allocations s)) (\<lambda>_.
     for_each_prefix (validate_mapping s) [] (mappings s)))"

definition validate_code :: "runtime_state \<Rightarrow> loaded_code_record list \<Rightarrow> loaded_code_record \<Rightarrow>
    invariant_violation + unit" where
  "validate_code s pre c =
     (if list_ex (\<lambda>other. code_key other = code_key c) pre
      then Inl (Iv_Duplicate (Ref_LoadedCode (code_key c))) else
      and_then (ok_or (find (\<lambda>r. map_key r = code_executable_mapping c) (mappings s))
        (Iv_MissingParent (Ref_LoadedCode (code_key c)))) (\<lambda>m.
      if allocation_vm (mapping_allocation (code_executable_mapping c)) \<noteq> code_vm (code_key c)
      then Inl (Iv_BindingMismatch (Ref_LoadedCode (code_key c)))
      else if map_byte_len m \<le> code_entry_offset c
      then Inl (Iv_InvalidRange (Ref_LoadedCode (code_key c)))
      else if code_state c = Live \<and> (map_state m \<noteq> Live \<or> map_access m \<noteq> ReadExecute)
      then Inl (Iv_InvalidAccess (Ref_LoadedCode (code_key c)))
      else Inr ()))"

definition validate_queue :: "runtime_state \<Rightarrow> queue_record list \<Rightarrow> queue_record \<Rightarrow>
    invariant_violation + unit" where
  "validate_queue s pre q =
     (if list_ex (\<lambda>other. queue_key other = queue_key q) pre
      then Inl (Iv_Duplicate (Ref_Queue (queue_key q))) else
      and_then (ok_or (find (\<lambda>r. map_key r = queue_ring_mapping q) (mappings s))
        (Iv_MissingParent (Ref_Queue (queue_key q)))) (\<lambda>m.
      and_then (ok_or (checked_mul (ucast (queue_capacity q)) AQL_PACKET_BYTES)
        (Iv_InvalidRange (Ref_Queue (queue_key q)))) (\<lambda>required.
      if allocation_vm (mapping_allocation (queue_ring_mapping q)) \<noteq> queue_vm (queue_key q)
      then Inl (Iv_BindingMismatch (Ref_Queue (queue_key q)))
      else if queue_capacity q = 0 \<or> MAX_QUEUE_CAPACITY < queue_capacity q
         \<or> \<not> is_power_of_two (queue_capacity q) \<or> map_byte_len m < required
      then Inl (Iv_InvalidRange (Ref_Queue (queue_key q)))
      else if queue_state q \<noteq> Queue_Released \<and> (map_state m \<noteq> Live \<or> map_access m \<noteq> ReadWrite)
      then Inl (Iv_InvalidAccess (Ref_Queue (queue_key q)))
      else Inr ())))"

definition validate_code_and_queues :: "runtime_state \<Rightarrow> invariant_violation + unit" where
  "validate_code_and_queues s =
     and_then (for_each_prefix (validate_code s) [] (loaded_code s)) (\<lambda>_.
     for_each_prefix (validate_queue s) [] (queues s))"

definition validate_dispatch_resource :: "runtime_state \<Rightarrow> dispatch_key \<Rightarrow> dispatch_resource \<Rightarrow>
    invariant_violation + unit" where
  "validate_dispatch_resource s key resource =
     and_then (ok_or (find (\<lambda>r. map_key r = res_mapping resource) (mappings s))
       (Iv_MissingParent (Ref_Mapping (res_mapping resource)))) (\<lambda>m.
     if allocation_vm (mapping_allocation (res_mapping resource)) \<noteq> queue_vm (dispatch_queue key)
     then Inl (Iv_BindingMismatch (Ref_Mapping (res_mapping resource)))
     else if map_state m \<noteq> Live \<or> \<not> permits (map_access m) (res_required_access resource)
     then Inl (Iv_EarlyRelease (Ref_Mapping (res_mapping resource)))
     else Inr ())"

definition validate_dispatch :: "runtime_state \<Rightarrow> dispatch_record list \<Rightarrow> dispatch_record \<Rightarrow>
    invariant_violation + unit" where
  "validate_dispatch s pre d =
     (if list_ex (\<lambda>other. disp_key other = disp_key d) pre
      then Inl (Iv_Duplicate (Ref_Dispatch (disp_key d))) else
      and_then (ok_or (find (\<lambda>r. queue_key r = dispatch_queue (disp_key d)) (queues s))
        (Iv_MissingParent (Ref_Dispatch (disp_key d)))) (\<lambda>q.
      and_then (ok_or (find (\<lambda>r. code_key r = disp_code d) (loaded_code s))
        (Iv_MissingParent (Ref_Dispatch (disp_key d)))) (\<lambda>c.
      and_then (ok_or (find (\<lambda>r. comp_key r = disp_completion d) (completions s))
        (Iv_MissingParent (Ref_Dispatch (disp_key d)))) (\<lambda>compl.
      if code_vm (disp_code d) \<noteq> queue_vm (dispatch_queue (disp_key d))
      then Inl (Iv_BindingMismatch (Ref_Dispatch (disp_key d)))
      else if completion_dispatch (disp_completion d) \<noteq> disp_key d
         \<or> \<not> completion_matches (disp_state d) (comp_state compl)
      then Inl (Iv_CompletionMismatch (disp_key d))
      else if MAX_DISPATCH_RESOURCES < length (disp_resources d)
         \<or> \<not> strictly_ascending (disp_resources d)
      then Inl (Iv_NonCanonicalResources (disp_key d))
      else if retains_resources (disp_state d)
      then if queue_state q = Queue_Released \<or> code_state c \<noteq> Live
        then Inl (Iv_EarlyRelease (Ref_Dispatch (disp_key d)))
        else for_each (validate_dispatch_resource s (disp_key d)) (disp_resources d)
      else Inr ()))))"

definition validate_completion :: "runtime_state \<Rightarrow> completion_record list \<Rightarrow> completion_record \<Rightarrow>
    invariant_violation + unit" where
  "validate_completion s pre c =
     (if list_ex (\<lambda>other. comp_key other = comp_key c) pre
      then Inl (Iv_Duplicate (Ref_Completion (comp_key c)))
      else if \<not> list_ex (\<lambda>r. disp_key r = completion_dispatch (comp_key c) \<and>
           disp_completion r = comp_key c) (dispatches s)
      then Inl (Iv_MissingParent (Ref_Completion (comp_key c)))
      else Inr ())"

definition validate_dispatches_and_completions :: "runtime_state \<Rightarrow> invariant_violation + unit" where
  "validate_dispatches_and_completions s =
     and_then (for_each_prefix (validate_dispatch s) [] (dispatches s)) (\<lambda>_.
     and_then (for_each_prefix (validate_completion s) [] (completions s)) (\<lambda>_.
     for_each (\<lambda>q.
         if unat (queue_capacity q) < active_dispatches s (queue_key q)
         then Inl (Iv_QueueOversubscribed (queue_key q)) else Inr ())
       (queues s)))"

definition validate_global_invariants :: "runtime_state \<Rightarrow> invariant_violation + unit" where
  "validate_global_invariants s =
     and_then (validate_capacities s) (\<lambda>_.
     and_then (validate_devices s) (\<lambda>_.
     and_then (validate_vms_and_memory s) (\<lambda>_.
     and_then (validate_code_and_queues s) (\<lambda>_.
     validate_dispatches_and_completions s))))"

section \<open>Checked transitions\<close>

fun next_loop :: "runtime_state \<Rightarrow> runtime_transition list \<Rightarrow> transition_error + runtime_state" where
  "next_loop s [] = Inr s"
| "next_loop s (t # ts) =
     and_then (apply_transition s t) (\<lambda>s'.
     and_then (map_err NextInvariant (validate_global_invariants s')) (\<lambda>_.
     next_loop s' ts))"

definition next_all :: "runtime_state \<Rightarrow> runtime_transition list \<Rightarrow> transition_error + runtime_state" where
  "next_all s ts =
     and_then (map_err SourceInvariant (validate_global_invariants s)) (\<lambda>_. next_loop s ts)"

definition next_state :: "runtime_state \<Rightarrow> runtime_transition \<Rightarrow> transition_error + runtime_state" where
  "next_state s t = next_all s [t]"

end
