(* ===== verification/Runtime_Tables.thy ===== *)
theory Runtime_Tables
  imports Runtime_State
begin

text \<open>
  The contract the eight record tables of \<open>RuntimeStateV1\<close> share: a vector of records with
  a key field and a state field, searched from the front by key, extended at the end, and changed
  only by assigning the state of the record with a given key. The locale proves once what a
  search returns after each of these; it is interpreted on every table of the state.
\<close>

definition lookup :: "('r \<Rightarrow> 'k) \<Rightarrow> 'r list \<Rightarrow> 'k \<Rightarrow> 'r option" where
  "lookup key xs k = find (\<lambda>r. key r = k) xs"

lemma lookup_Nil [simp]: "lookup key [] k = None"
  by (simp add: lookup_def)

locale keyed_table =
  fixes key :: "'r \<Rightarrow> 'k" and put :: "'s \<Rightarrow> 'r \<Rightarrow> 'r" and state :: "'r \<Rightarrow> 's"
  assumes key_put [simp]: "key (put st r) = key r"
    and state_put [simp]: "state (put st r) = st"
begin

lemma lookup_key: "lookup key xs k = Some r \<Longrightarrow> key r = k"
  by (auto simp: lookup_def dest: find_keyed_Some)

lemma lookup_mem: "lookup key xs k = Some r \<Longrightarrow> r \<in> set xs"
  by (auto simp: lookup_def dest: find_keyed_Some)

lemma lookup_Some: "lookup key xs k = Some r \<Longrightarrow> r \<in> set xs \<and> key r = k"
  by (auto dest: lookup_key lookup_mem)

lemma lookup_None: "lookup key xs k = None \<longleftrightarrow> k \<notin> key ` set xs"
  by (simp add: lookup_def find_None_iff_key)

lemma lookup_self: "distinct (map key xs) \<Longrightarrow> r \<in> set xs \<Longrightarrow> lookup key xs (key r) = Some r"
  by (simp add: lookup_def find_Some_iff_mem)

lemma ball_lookup:
  "distinct (map key xs) \<Longrightarrow> (\<forall>r\<in>set xs. Q r) \<longleftrightarrow> (\<forall>k r. lookup key xs k = Some r \<longrightarrow> Q r)"
  by (metis lookup_mem lookup_self)

lemma ball_lookup_key:
  "distinct (map key xs) \<Longrightarrow>
   (\<forall>r\<in>set xs. Q (key r) r) \<longleftrightarrow> (\<forall>k r. lookup key xs k = Some r \<longrightarrow> Q k r)"
  by (metis lookup_key lookup_mem lookup_self)

text \<open>A validation loop that rejects duplicates and pairs of records out of the symmetric
  relation \<open>S\<close>, and checks \<open>Q\<close> of each record, accepts exactly the tables that are
  maps with \<open>Q\<close> at every binding and \<open>S\<close> between any two.\<close>

lemma pair_loop_iff:
  assumes step: "\<And>pre r. f pre r = Inr () \<longleftrightarrow>
      (\<forall>p\<in>set pre. key p \<noteq> key r \<and> S p r) \<and> Q (key r) r"
    and sym: "\<And>r r'. S r r' \<Longrightarrow> S r' r"
  shows "for_each_prefix f [] xs = Inr u \<longleftrightarrow> distinct (map key xs) \<and>
    (\<forall>k r k' r'. lookup key xs k = Some r \<longrightarrow> lookup key xs k' = Some r' \<longrightarrow> k \<noteq> k' \<longrightarrow> S r r') \<and>
    (\<forall>k r. lookup key xs k = Some r \<longrightarrow> Q k r)"
proof -
  have pairs: "sorted_wrt (\<lambda>p r. key p \<noteq> key r \<and> S p r) xs \<longleftrightarrow> distinct (map key xs) \<and>
      (\<forall>r\<in>set xs. \<forall>r'\<in>set xs. key r \<noteq> key r' \<longrightarrow> S r r')"
    by (induction xs) (auto dest: sym)
  have "for_each_prefix f [] xs = Inr u \<longleftrightarrow>
      sorted_wrt (\<lambda>p r. key p \<noteq> key r \<and> S p r) xs \<and> (\<forall>r\<in>set xs. Q (key r) r)"
    by (rule for_each_prefix_Nil_iff [OF step])
  moreover have "(\<forall>r\<in>set xs. \<forall>r'\<in>set xs. key r \<noteq> key r' \<longrightarrow> S r r') \<longleftrightarrow>
    (\<forall>k r k' r'. lookup key xs k = Some r \<longrightarrow> lookup key xs k' = Some r' \<longrightarrow> k \<noteq> k' \<longrightarrow> S r r')"
    if "distinct (map key xs)"
    using that by (metis lookup_key lookup_mem lookup_self)
  ultimately show ?thesis
    using ball_lookup_key [of xs Q] pairs by blast
qed

lemma loop_iff:
  assumes "\<And>pre r. f pre r = Inr () \<longleftrightarrow> (\<forall>p\<in>set pre. key p \<noteq> key r) \<and> Q (key r) r"
  shows "for_each_prefix f [] xs = Inr u \<longleftrightarrow>
    distinct (map key xs) \<and> (\<forall>k r. lookup key xs k = Some r \<longrightarrow> Q k r)"
  using pair_loop_iff [of f "\<lambda>_ _. True" Q xs u] assms by simp

lemma any_key_iff: "list_ex (\<lambda>r. key r = k) xs \<longleftrightarrow> lookup key xs k \<noteq> None"
  by (auto simp: lookup_def find_None_iff list_ex_iff)

lemma lookup_push:
  "lookup key xs (key x) = None \<Longrightarrow> lookup key (xs @ [x]) = (lookup key xs)(key x \<mapsto> x)"
  by (rule ext, induction xs) (auto simp: lookup_def)

lemma distinct_push:
  "distinct (map key (xs @ [x])) \<longleftrightarrow> distinct (map key xs) \<and> lookup key xs (key x) = None"
  by (auto simp: lookup_def find_None_iff_key)

lemma lookup_assign:
  "lookup key xs k = Some r \<Longrightarrow>
   lookup key (update_first (\<lambda>r. key r = k) (put st) xs) = (lookup key xs)(k \<mapsto> put st r)"
  by (rule ext, induction xs) (auto simp: lookup_def split: if_splits)

lemma distinct_assign:
  "distinct (map key (update_first p (put st) xs)) \<longleftrightarrow> distinct (map key xs)"
  by (simp add: map_update_first)

lemma count_assign_le:
  "\<lbrakk>lookup key xs k = Some r; P (put st r) \<Longrightarrow> P r\<rbrakk> \<Longrightarrow>
   length (filter P (update_first (\<lambda>r. key r = k) (put st) xs)) \<le> length (filter P xs)"
  by (induction xs) (auto simp: lookup_def split: if_splits)

lemma weight_assign:
  "lookup key xs k = Some r \<Longrightarrow>
   sum_list (map w (update_first (\<lambda>r. key r = k) (put st) xs)) + w r =
   sum_list (map w xs) + (w (put st r) :: nat)"
  by (induction xs) (auto simp: lookup_def split: if_splits)

end

interpretation dev: keyed_table dev_key "\<lambda>st r. r\<lparr>dev_state := st\<rparr>" dev_state
  by unfold_locales simp_all

interpretation vmt: keyed_table vm_key "\<lambda>st r. r\<lparr>vm_state := st\<rparr>" vm_state
  by unfold_locales simp_all

interpretation alloc: keyed_table alloc_key "\<lambda>st r. r\<lparr>alloc_state := st\<rparr>" alloc_state
  by unfold_locales simp_all

interpretation mapt: keyed_table map_key "\<lambda>st r. r\<lparr>map_state := st\<rparr>" map_state
  by unfold_locales simp_all

interpretation codet: keyed_table code_key "\<lambda>st r. r\<lparr>code_state := st\<rparr>" code_state
  by unfold_locales simp_all

interpretation que: keyed_table queue_key "\<lambda>st r. r\<lparr>queue_state := st\<rparr>" queue_state
  by unfold_locales simp_all

interpretation disp: keyed_table disp_key "\<lambda>st r. r\<lparr>disp_state := st\<rparr>" disp_state
  by unfold_locales simp_all

interpretation comp: keyed_table comp_key "\<lambda>st r. r\<lparr>comp_state := st\<rparr>" comp_state
  by unfold_locales simp_all

section \<open>The tables as maps\<close>

abbreviation dev_at :: "runtime_state \<Rightarrow> device_key \<Rightarrow> device_record option" where
  "dev_at s \<equiv> lookup dev_key (devices s)"

abbreviation vm_at :: "runtime_state \<Rightarrow> vm_key \<Rightarrow> vm_record option" where
  "vm_at s \<equiv> lookup vm_key (vms s)"

abbreviation alloc_at :: "runtime_state \<Rightarrow> allocation_key \<Rightarrow> allocation_record option" where
  "alloc_at s \<equiv> lookup alloc_key (allocations s)"

abbreviation map_at :: "runtime_state \<Rightarrow> mapping_key \<Rightarrow> mapping_record option" where
  "map_at s \<equiv> lookup map_key (mappings s)"

abbreviation code_at :: "runtime_state \<Rightarrow> loaded_code_key \<Rightarrow> loaded_code_record option" where
  "code_at s \<equiv> lookup code_key (loaded_code s)"

abbreviation queue_at :: "runtime_state \<Rightarrow> queue_key \<Rightarrow> queue_record option" where
  "queue_at s \<equiv> lookup queue_key (queues s)"

abbreviation disp_at :: "runtime_state \<Rightarrow> dispatch_key \<Rightarrow> dispatch_record option" where
  "disp_at s \<equiv> lookup disp_key (dispatches s)"

abbreviation comp_at :: "runtime_state \<Rightarrow> completion_key \<Rightarrow> completion_record option" where
  "comp_at s \<equiv> lookup comp_key (completions s)"

lemma getter_Inr [result_simps]:
  "device s dk = Inr d \<longleftrightarrow> dev_at s dk = Some d"
  "vm s vk = Inr v \<longleftrightarrow> vm_at s vk = Some v"
  "allocation s ak = Inr a \<longleftrightarrow> alloc_at s ak = Some a"
  "mapping s mk = Inr m \<longleftrightarrow> map_at s mk = Some m"
  "code s ck = Inr c \<longleftrightarrow> code_at s ck = Some c"
  "queue s qk = Inr q \<longleftrightarrow> queue_at s qk = Some q"
  "dispatch s pk = Inr p \<longleftrightarrow> disp_at s pk = Some p"
  "completion s tk = Inr t \<longleftrightarrow> comp_at s tk = Some t"
  by (simp_all add: device_def vm_def allocation_def mapping_def code_def queue_def dispatch_def
      completion_def lookup_def ok_or_Inr)

lemmas mut_defs =
  device_mut_def vm_mut_def allocation_mut_def mapping_mut_def code_mut_def queue_mut_def
  dispatch_mut_def completion_mut_def

lemmas any_key_iffs =
  dev.any_key_iff vmt.any_key_iff alloc.any_key_iff mapt.any_key_iff codet.any_key_iff
  que.any_key_iff disp.any_key_iff comp.any_key_iff

lemmas lookup_Somes =
  dev.lookup_Some vmt.lookup_Some alloc.lookup_Some mapt.lookup_Some codet.lookup_Some
  que.lookup_Some disp.lookup_Some comp.lookup_Some

lemmas lookup_keys =
  dev.lookup_key vmt.lookup_key alloc.lookup_key mapt.lookup_key codet.lookup_key
  que.lookup_key disp.lookup_key comp.lookup_key

end
