(* ===== verification/Runtime_Global_Invariant.thy ===== *)
theory Runtime_Global_Invariant
  imports Runtime_Invariants Runtime_Tables
begin

text \<open>
  The invariant of the runtime state in declarative form, over the tables read as maps, and the
  proof that the validators of \<open>Runtime_Invariants\<close> accept exactly the states that satisfy
  it. Each validator loop is an instance of the loop lemma of \<open>keyed_table\<close>.
\<close>

section \<open>The invariant over the tables as maps\<close>

definition devices_inv :: "(device_key \<rightharpoonup> device_record) \<Rightarrow> bool" where
  "devices_inv D \<longleftrightarrow> (\<forall>k d k' d'. D k = Some d \<longrightarrow> D k' = Some d' \<longrightarrow> physical k' = physical k \<longrightarrow>
     generation k' < generation k \<longrightarrow> dev_state d' = Device_Released)"

definition vms_inv :: "(device_key \<rightharpoonup> device_record) \<Rightarrow> (vm_key \<rightharpoonup> vm_record) \<Rightarrow> bool" where
  "vms_inv D V \<longleftrightarrow> (\<forall>k v. V k = Some v \<longrightarrow>
     (\<exists>d. D (vm_device k) = Some d \<and> (dev_state d = Device_Released \<longrightarrow> vm_state v = Vm_Released)))"

definition allocations_inv :: "(vm_key \<rightharpoonup> vm_record) \<Rightarrow> (allocation_key \<rightharpoonup> allocation_record) \<Rightarrow> bool" where
  "allocations_inv V A \<longleftrightarrow> (\<forall>k a. A k = Some a \<longrightarrow> alloc_byte_len a \<noteq> 0 \<and>
     (\<exists>v. V (allocation_vm k) = Some v \<and> (vm_state v = Vm_Released \<longrightarrow> alloc_state a = Released)))"

definition in_bounds :: "mapping_record \<Rightarrow> allocation_record \<Rightarrow> bool" where
  "in_bounds m a \<longleftrightarrow> map_byte_len m \<noteq> 0
     \<and> unat (map_allocation_offset m) + unat (map_byte_len m) \<le> unat (alloc_byte_len a)
     \<and> unat (map_gpu_va m) + unat (map_byte_len m) < 2 ^ 64"

definition mappings_inv :: "(allocation_key \<rightharpoonup> allocation_record) \<Rightarrow> (mapping_key \<rightharpoonup> mapping_record) \<Rightarrow> bool" where
  "mappings_inv A M \<longleftrightarrow> (\<forall>k m. M k = Some m \<longrightarrow>
     (\<exists>a. A (mapping_allocation k) = Some a \<and> in_bounds m a \<and>
       (alloc_state a = Released \<longrightarrow> map_state m = Released)))"

definition conflict :: "mapping_record \<Rightarrow> mapping_record \<Rightarrow> bool" where
  "conflict m m' \<longleftrightarrow> map_state m = Live \<and> map_state m' = Live
     \<and> allocation_vm (mapping_allocation (map_key m)) = allocation_vm (mapping_allocation (map_key m'))
     \<and> ranges_overlap (map_gpu_va m) (map_byte_len m) (map_gpu_va m') (map_byte_len m')"

definition disjoint_inv :: "(mapping_key \<rightharpoonup> mapping_record) \<Rightarrow> bool" where
  "disjoint_inv M \<longleftrightarrow> (\<forall>k m k' m'. M k = Some m \<longrightarrow> M k' = Some m' \<longrightarrow> k \<noteq> k' \<longrightarrow> \<not> conflict m m')"

definition codes_inv :: "(mapping_key \<rightharpoonup> mapping_record) \<Rightarrow> (loaded_code_key \<rightharpoonup> loaded_code_record) \<Rightarrow> bool" where
  "codes_inv M C \<longleftrightarrow> (\<forall>k c. C k = Some c \<longrightarrow>
     allocation_vm (mapping_allocation (code_executable_mapping c)) = code_vm k \<and>
     (\<exists>m. M (code_executable_mapping c) = Some m \<and> code_entry_offset c < map_byte_len m \<and>
       (code_state c = Live \<longrightarrow> map_state m = Live \<and> map_access m = ReadExecute)))"

definition queues_inv :: "(mapping_key \<rightharpoonup> mapping_record) \<Rightarrow> (queue_key \<rightharpoonup> queue_record) \<Rightarrow> bool" where
  "queues_inv M Q \<longleftrightarrow> (\<forall>k q. Q k = Some q \<longrightarrow> valid_queue_capacity (queue_capacity q) \<and>
     allocation_vm (mapping_allocation (queue_ring_mapping q)) = queue_vm k \<and>
     (\<exists>m. M (queue_ring_mapping q) = Some m \<and>
       unat (queue_capacity q) * 64 \<le> unat (map_byte_len m) \<and>
       (queue_state q \<noteq> Queue_Released \<longrightarrow> map_state m = Live \<and> map_access m = ReadWrite)))"

definition resource_ok :: "(mapping_key \<rightharpoonup> mapping_record) \<Rightarrow> vm_key \<Rightarrow> dispatch_resource \<Rightarrow> bool" where
  "resource_ok M v r \<longleftrightarrow> allocation_vm (mapping_allocation (res_mapping r)) = v \<and>
     (\<exists>m. M (res_mapping r) = Some m \<and> map_state m = Live \<and>
       permits (map_access m) (res_required_access r))"

definition dispatch_ok :: "(mapping_key \<rightharpoonup> mapping_record) \<Rightarrow>
    (loaded_code_key \<rightharpoonup> loaded_code_record) \<Rightarrow> (queue_key \<rightharpoonup> queue_record) \<Rightarrow>
    (completion_key \<rightharpoonup> completion_record) \<Rightarrow> dispatch_key \<Rightarrow> dispatch_record \<Rightarrow> bool" where
  "dispatch_ok M C Q K k d \<longleftrightarrow>
     code_vm (disp_code d) = queue_vm (dispatch_queue k) \<and>
     completion_dispatch (disp_completion d) = k \<and>
     length (disp_resources d) \<le> MAX_DISPATCH_RESOURCES \<and>
     strictly_ascending (disp_resources d) \<and>
     (\<exists>q. Q (dispatch_queue k) = Some q \<and>
       (retains_resources (disp_state d) \<longrightarrow> queue_state q \<noteq> Queue_Released)) \<and>
     (\<exists>c. C (disp_code d) = Some c \<and> (retains_resources (disp_state d) \<longrightarrow> code_state c = Live)) \<and>
     (\<exists>t. K (disp_completion d) = Some t \<and> completion_matches (disp_state d) (comp_state t)) \<and>
     (retains_resources (disp_state d) \<longrightarrow>
       (\<forall>r\<in>set (disp_resources d). resource_ok M (queue_vm (dispatch_queue k)) r))"

definition dispatches_inv :: "(mapping_key \<rightharpoonup> mapping_record) \<Rightarrow>
    (loaded_code_key \<rightharpoonup> loaded_code_record) \<Rightarrow> (queue_key \<rightharpoonup> queue_record) \<Rightarrow>
    (dispatch_key \<rightharpoonup> dispatch_record) \<Rightarrow> (completion_key \<rightharpoonup> completion_record) \<Rightarrow> bool" where
  "dispatches_inv M C Q P K \<longleftrightarrow> (\<forall>k d. P k = Some d \<longrightarrow> dispatch_ok M C Q K k d)"

definition completions_inv :: "(dispatch_key \<rightharpoonup> dispatch_record) \<Rightarrow>
    (completion_key \<rightharpoonup> completion_record) \<Rightarrow> bool" where
  "completions_inv P K \<longleftrightarrow> (\<forall>k t. K k = Some t \<longrightarrow>
     (\<exists>d. P (completion_dispatch k) = Some d \<and> disp_completion d = k))"

definition occupancy_inv :: "runtime_state \<Rightarrow> bool" where
  "occupancy_inv s \<longleftrightarrow> (\<forall>k q. queue_at s k = Some q \<longrightarrow>
     active_dispatches s k \<le> unat (queue_capacity q))"

definition capacities_inv :: "runtime_state \<Rightarrow> bool" where
  "capacities_inv s \<longleftrightarrow>
     length (devices s) \<le> MAX_DEVICES \<and> length (vms s) \<le> MAX_VMS \<and>
     length (allocations s) \<le> MAX_ALLOCATIONS \<and> length (mappings s) \<le> MAX_MAPPINGS \<and>
     length (loaded_code s) \<le> MAX_LOADED_CODE \<and> length (queues s) \<le> MAX_QUEUES \<and>
     length (dispatches s) \<le> MAX_DISPATCHES \<and> length (completions s) \<le> MAX_COMPLETIONS"

definition keys_inv :: "runtime_state \<Rightarrow> bool" where
  "keys_inv s \<longleftrightarrow>
     distinct (map dev_key (devices s)) \<and> distinct (map vm_key (vms s)) \<and>
     distinct (map alloc_key (allocations s)) \<and> distinct (map map_key (mappings s)) \<and>
     distinct (map code_key (loaded_code s)) \<and> distinct (map queue_key (queues s)) \<and>
     distinct (map disp_key (dispatches s)) \<and> distinct (map comp_key (completions s))"

definition global_inv :: "runtime_state \<Rightarrow> bool" where
  "global_inv s \<longleftrightarrow> capacities_inv s \<and> keys_inv s \<and> devices_inv (dev_at s) \<and>
     vms_inv (dev_at s) (vm_at s) \<and> allocations_inv (vm_at s) (alloc_at s) \<and>
     mappings_inv (alloc_at s) (map_at s) \<and> disjoint_inv (map_at s) \<and>
     codes_inv (map_at s) (code_at s) \<and> queues_inv (map_at s) (queue_at s) \<and>
     dispatches_inv (map_at s) (code_at s) (queue_at s) (disp_at s) (comp_at s) \<and>
     completions_inv (disp_at s) (comp_at s) \<and> occupancy_inv s"

section \<open>The validators decide the invariant\<close>

lemma validate_capacities_iff [result_simps]:
  "validate_capacities s = Inr u \<longleftrightarrow> capacities_inv s"
  by (simp add: validate_capacities_def capacities_inv_def for_each_Inr not_less)

lemmas validator_simps = list_ex_iff result_simps lookup_def [symmetric]

lemma validate_devices_iff [result_simps]:
  "validate_devices s = Inr u \<longleftrightarrow> distinct (map dev_key (devices s)) \<and> devices_inv (dev_at s)"
proof -
  have "validate_devices s = Inr u \<longleftrightarrow> distinct (map dev_key (devices s)) \<and>
      (\<forall>k d. dev_at s k = Some d \<longrightarrow> (\<forall>d'\<in>set (devices s). physical (dev_key d') = physical k \<longrightarrow>
         generation (dev_key d') < generation k \<longrightarrow> dev_state d' = Device_Released))"
    unfolding validate_devices_def
    by (rule dev.loop_iff) (auto simp: validator_simps)
  moreover have "(\<forall>d'\<in>set (devices s). physical (dev_key d') = physical k \<longrightarrow>
         generation (dev_key d') < generation k \<longrightarrow> dev_state d' = Device_Released) \<longleftrightarrow>
      (\<forall>k' d'. dev_at s k' = Some d' \<longrightarrow> physical k' = physical k \<longrightarrow>
         generation k' < generation k \<longrightarrow> dev_state d' = Device_Released)"
    if "distinct (map dev_key (devices s))" for k
    using that by (rule dev.ball_lookup_key)
  ultimately show ?thesis
    by (auto simp: devices_inv_def)
qed

lemma validate_vms_iff [result_simps]:
  "for_each_prefix (validate_vm s) [] (vms s) = Inr u \<longleftrightarrow>
     distinct (map vm_key (vms s)) \<and> vms_inv (dev_at s) (vm_at s)"
  unfolding vms_inv_def
  by (rule vmt.loop_iff) (auto simp: validate_vm_def validator_simps)

lemma validate_allocations_iff [result_simps]:
  "for_each_prefix (validate_allocation s) [] (allocations s) = Inr u \<longleftrightarrow>
     distinct (map alloc_key (allocations s)) \<and> allocations_inv (vm_at s) (alloc_at s)"
  unfolding allocations_inv_def
  by (rule alloc.loop_iff) (auto simp: validate_allocation_def validator_simps)

lemma range_exceeds_iff: "\<not> range_exceeds a n l \<longleftrightarrow> unat a + unat n \<le> unat l"
  using unat_less_2p [of l]
  by (auto simp: range_exceeds_def checked_add_def word_less_nat_alt unat_plus_no_overflow)

lemma in_bounds_iff:
  "in_bounds m a \<longleftrightarrow> \<not> (map_byte_len m = 0
     \<or> range_exceeds (map_allocation_offset m) (map_byte_len m) (alloc_byte_len a)
     \<or> checked_add (map_gpu_va m) (map_byte_len m) = None)"
  by (simp add: in_bounds_def range_exceeds_iff checked_add_None not_le)

lemma conflict_commute: "conflict m m' \<longleftrightarrow> conflict m' m"
  by (auto simp: conflict_def ranges_overlap_commute)

lemma validate_mappings_iff [result_simps]:
  "for_each_prefix (validate_mapping s) [] (mappings s) = Inr u \<longleftrightarrow>
     distinct (map map_key (mappings s)) \<and> mappings_inv (alloc_at s) (map_at s) \<and>
     disjoint_inv (map_at s)"
proof -
  have "for_each_prefix (validate_mapping s) [] (mappings s) = Inr u \<longleftrightarrow>
      distinct (map map_key (mappings s)) \<and>
      (\<forall>k r k' r'. map_at s k = Some r \<longrightarrow> map_at s k' = Some r' \<longrightarrow> k \<noteq> k' \<longrightarrow> \<not> conflict r r') \<and>
      (\<forall>k m. map_at s k = Some m \<longrightarrow> (\<exists>a. alloc_at s (mapping_allocation k) = Some a \<and>
         in_bounds m a \<and> (alloc_state a = Released \<longrightarrow> map_state m = Released)))"
  proof (rule mapt.pair_loop_iff)
    show "validate_mapping s pre r = Inr () \<longleftrightarrow>
        (\<forall>p\<in>set pre. map_key p \<noteq> map_key r \<and> \<not> conflict p r) \<and>
        (\<exists>a. alloc_at s (mapping_allocation (map_key r)) = Some a \<and> in_bounds r a \<and>
           (alloc_state a = Released \<longrightarrow> map_state r = Released))" for pre r
      unfolding conflict_commute [of _ r] in_bounds_iff
      by (auto simp: validate_mapping_def validator_simps conflict_def)
  qed (simp add: conflict_commute)
  then show ?thesis
    by (auto simp: mappings_inv_def disjoint_inv_def)
qed

lemma validate_codes_iff [result_simps]:
  "for_each_prefix (validate_code s) [] (loaded_code s) = Inr u \<longleftrightarrow>
     distinct (map code_key (loaded_code s)) \<and> codes_inv (map_at s) (code_at s)"
  unfolding codes_inv_def
  by (rule codet.loop_iff) (auto simp: validate_code_def validator_simps not_le)

text \<open>The ring size cannot overflow: a 32-bit capacity times 64 fits 64 bits.\<close>

lemma checked_ring_bytes:
  "checked_mul (ucast (c :: u32)) AQL_PACKET_BYTES = Some (ucast c * AQL_PACKET_BYTES)"
  "ucast c * AQL_PACKET_BYTES \<le> (l :: u64) \<longleftrightarrow> unat c * 64 \<le> unat l"
proof -
  have "unat c * 64 < 2 ^ 64" and "take_bit 64 (unat c) = unat c"
    using unat_less_2p [of c] by (simp_all add: take_bit_nat_eq_self)
  then show "checked_mul (ucast (c :: u32)) AQL_PACKET_BYTES = Some (ucast c * AQL_PACKET_BYTES)"
    and "ucast c * AQL_PACKET_BYTES \<le> (l :: u64) \<longleftrightarrow> unat c * 64 \<le> unat l"
    by (simp_all add: checked_mul_def AQL_PACKET_BYTES_def unsigned_ucast_eq word_le_nat_alt
        unat_word_ariths)
qed

lemma validate_queues_iff [result_simps]:
  "for_each_prefix (validate_queue s) [] (queues s) = Inr u \<longleftrightarrow>
     distinct (map queue_key (queues s)) \<and> queues_inv (map_at s) (queue_at s)"
  unfolding queues_inv_def
  by (rule que.loop_iff)
    (auto simp: validate_queue_def validator_simps checked_ring_bytes valid_queue_capacity_def not_less)

lemma validate_dispatch_resource_iff [result_simps]:
  "validate_dispatch_resource s k r = Inr u \<longleftrightarrow>
     resource_ok (map_at s) (queue_vm (dispatch_queue k)) r"
  by (auto simp: validate_dispatch_resource_def resource_ok_def validator_simps)

lemma validate_dispatches_iff [result_simps]:
  "for_each_prefix (validate_dispatch s) [] (dispatches s) = Inr u \<longleftrightarrow>
     distinct (map disp_key (dispatches s)) \<and>
     dispatches_inv (map_at s) (code_at s) (queue_at s) (disp_at s) (comp_at s)"
  unfolding dispatches_inv_def dispatch_ok_def
  by (rule disp.loop_iff) (auto simp: validate_dispatch_def validator_simps validate_dispatch_resource_iff not_less)

lemma validate_completions_iff:
  "distinct (map disp_key (dispatches s)) \<Longrightarrow>
   for_each_prefix (validate_completion s) [] (completions s) = Inr u \<longleftrightarrow>
     distinct (map comp_key (completions s)) \<and> completions_inv (disp_at s) (comp_at s)"
  unfolding completions_inv_def
  by (rule comp.loop_iff)
    (auto simp: validate_completion_def list_ex_iff dest: disp.lookup_mem disp.lookup_key
      disp.lookup_self)

lemma validate_occupancy_iff:
  "distinct (map queue_key (queues s)) \<Longrightarrow>
   (\<forall>q\<in>set (queues s). \<not> unat (queue_capacity q) < active_dispatches s (queue_key q)) \<longleftrightarrow>
   occupancy_inv s"
  unfolding occupancy_inv_def not_less by (rule que.ball_lookup_key)

lemma validate_global_invariants_iff [result_simps]:
  "validate_global_invariants s = Inr u \<longleftrightarrow> global_inv s"
  unfolding validate_global_invariants_def validate_vms_and_memory_def
    validate_code_and_queues_def validate_dispatches_and_completions_def global_inv_def keys_inv_def
  by (simp add: result_simps validate_completions_iff validate_occupancy_iff cong: conj_cong) blast

end
