(* ===== verification/Runtime_Preservation.thy ===== *)
theory Runtime_Preservation
  imports Runtime_Global_Invariant
begin

text \<open>
  Every operation of \<open>RuntimeStateV1\<close> that succeeds on a state satisfying the global invariant
  yields one that satisfies it. A push extends a map, and the parts of the invariant that only
  look records up survive it by monotonicity; an assignment changes one binding, and the
  guard of the operation is what the affected parts need.
\<close>

named_theorems inv_intros \<open>how one part of the invariant survives the growth of a table\<close>

section \<open>Growing the tables\<close>

lemma map_le_Some: "m \<subseteq>\<^sub>m m' \<Longrightarrow> m k = Some v \<Longrightarrow> m' k = Some v"
  by (force simp: map_le_def)

lemma map_le_push: "m k = None \<Longrightarrow> m \<subseteq>\<^sub>m m(k \<mapsto> v)"
  by (auto simp: map_le_def)

lemma vms_inv_mono [inv_intros]: "vms_inv D V \<Longrightarrow> D \<subseteq>\<^sub>m D' \<Longrightarrow> vms_inv D' V"
  unfolding vms_inv_def by (meson map_le_Some)

lemma allocations_inv_mono [inv_intros]:
  "allocations_inv V A \<Longrightarrow> V \<subseteq>\<^sub>m V' \<Longrightarrow> allocations_inv V' A"
  unfolding allocations_inv_def by (meson map_le_Some)

lemma mappings_inv_mono [inv_intros]: "mappings_inv A M \<Longrightarrow> A \<subseteq>\<^sub>m A' \<Longrightarrow> mappings_inv A' M"
  unfolding mappings_inv_def by (meson map_le_Some)

lemma codes_inv_mono [inv_intros]: "codes_inv M C \<Longrightarrow> M \<subseteq>\<^sub>m M' \<Longrightarrow> codes_inv M' C"
  unfolding codes_inv_def by (meson map_le_Some)

lemma queues_inv_mono [inv_intros]: "queues_inv M Q \<Longrightarrow> M \<subseteq>\<^sub>m M' \<Longrightarrow> queues_inv M' Q"
  unfolding queues_inv_def by (meson map_le_Some)

lemma resource_ok_mono: "resource_ok M v r \<Longrightarrow> M \<subseteq>\<^sub>m M' \<Longrightarrow> resource_ok M' v r"
  unfolding resource_ok_def by (meson map_le_Some)

lemma dispatches_inv_mono [inv_intros]:
  "\<lbrakk>dispatches_inv M C Q P K; M \<subseteq>\<^sub>m M'; C \<subseteq>\<^sub>m C'; Q \<subseteq>\<^sub>m Q'; K \<subseteq>\<^sub>m K'\<rbrakk>
   \<Longrightarrow> dispatches_inv M' C' Q' P K'"
  unfolding dispatches_inv_def dispatch_ok_def by (meson map_le_Some resource_ok_mono)

lemma completions_inv_mono [inv_intros]:
  "completions_inv P K \<Longrightarrow> P \<subseteq>\<^sub>m P' \<Longrightarrow> completions_inv P' K"
  unfolding completions_inv_def by (meson map_le_Some)

lemma devices_inv_push:
  "\<lbrakk>devices_inv D; \<And>k' d'. D k' = Some d' \<Longrightarrow> physical k' = physical k \<Longrightarrow>
      dev_state d' = Device_Released \<and> generation k' < generation k\<rbrakk> \<Longrightarrow> devices_inv (D(k \<mapsto> d))"
  unfolding devices_inv_def by (smt (verit) fun_upd_apply option.inject order.asym)

lemma disjoint_inv_push:
  "\<lbrakk>disjoint_inv M; \<And>k' m'. M k' = Some m' \<Longrightarrow> \<not> conflict m m'\<rbrakk> \<Longrightarrow> disjoint_inv (M(k \<mapsto> m))"
  unfolding disjoint_inv_def by (auto simp: conflict_commute)

lemma occupancy_inv_other [simp]:
  "occupancy_inv (s\<lparr>devices := ds\<rparr>) = occupancy_inv s"
  "occupancy_inv (s\<lparr>vms := vs\<rparr>) = occupancy_inv s"
  "occupancy_inv (s\<lparr>allocations := as\<rparr>) = occupancy_inv s"
  "occupancy_inv (s\<lparr>mappings := ms\<rparr>) = occupancy_inv s"
  "occupancy_inv (s\<lparr>loaded_code := cs\<rparr>) = occupancy_inv s"
  "occupancy_inv (s\<lparr>completions := ts\<rparr>) = occupancy_inv s"
  by (simp_all add: occupancy_inv_def active_dispatches_def)

lemmas inv_unfolds = global_inv_def capacities_inv_def keys_inv_def

lemma add_device_inv:
  assumes "global_inv s" and "add_device s k = Inr s'"
  shows "global_inv s'"
proof -
  have fresh: "dev_at s k = None" "length (devices s) < MAX_DEVICES"
    and older: "\<And>k' d'. dev_at s k' = Some d' \<Longrightarrow> physical k' = physical k \<Longrightarrow>
      dev_state d' = Device_Released \<and> generation k' < generation k"
    and s': "s' = s\<lparr>devices := devices s @ [\<lparr>dev_key = k, dev_state = Device_Ready\<rparr>]\<rparr>"
    using assms(2) by (auto simp: add_device_def result_simps any_key_iffs not_le
        dest!: dev.lookup_Some)
  show ?thesis
    using assms(1) fresh unfolding inv_unfolds s'
    by (auto simp del: map_append simp: dev.distinct_push dev.lookup_push devices_inv_push older intro: inv_intros map_le_push)
qed

lemma create_vm_inv:
  assumes "global_inv s" and "create_vm s k = Inr s'"
  shows "global_inv s'"
proof -
  obtain d where fresh: "vm_at s k = None" "length (vms s) < MAX_VMS"
    and d: "dev_at s (vm_device k) = Some d" "dev_state d = Device_Ready"
    and s': "s' = s\<lparr>vms := vms s @ [\<lparr>vm_key = k, vm_state = Vm_Active\<rparr>]\<rparr>"
    using assms(2) by (auto simp: create_vm_def result_simps any_key_iffs)
  moreover have "vms_inv (dev_at s) (vm_at s) \<Longrightarrow>
      vms_inv (dev_at s) ((vm_at s)(k \<mapsto> \<lparr>vm_key = k, vm_state = Vm_Active\<rparr>))"
    using d by (auto simp: vms_inv_def)
  ultimately show ?thesis
    using assms(1) unfolding inv_unfolds s'
    by (auto simp del: map_append simp: vmt.distinct_push vmt.lookup_push intro: inv_intros map_le_push)
qed

lemma require_vm_active_Inr [result_simps]:
  "require_vm_active s k = Inr u \<longleftrightarrow> (\<exists>v d. vm_at s k = Some v \<and> vm_state v = Vm_Active \<and>
     dev_at s (vm_device k) = Some d \<and> dev_state d = Device_Ready)"
  by (auto simp: require_vm_active_def result_simps)

lemma allocate_inv:
  assumes "global_inv s" and "allocate s k n = Inr s'"
  shows "global_inv s'"
proof -
  let ?a = "\<lparr>alloc_key = k, alloc_byte_len = n, alloc_state = Live\<rparr>"
  obtain v where fresh: "alloc_at s k = None" "length (allocations s) < MAX_ALLOCATIONS"
    and v: "vm_at s (allocation_vm k) = Some v" "vm_state v = Vm_Active" "n \<noteq> 0"
    and s': "s' = s\<lparr>allocations := allocations s @ [?a]\<rparr>"
    using assms(2) by (auto simp: allocate_def result_simps any_key_iffs)
  moreover have "allocations_inv (vm_at s) (alloc_at s) \<Longrightarrow>
      allocations_inv (vm_at s) ((alloc_at s)(k \<mapsto> ?a))"
    using v by (auto simp: allocations_inv_def)
  ultimately show ?thesis
    using assms(1) unfolding inv_unfolds s'
    by (auto simp del: map_append simp: alloc.distinct_push alloc.lookup_push intro: inv_intros map_le_push)
qed

lemma map_op_inv:
  assumes "global_inv s" and "map_op s k off va n acc = Inr s'"
  shows "global_inv s'"
proof -
  let ?m = "\<lparr>map_key = k, map_allocation_offset = off, map_gpu_va = va, map_byte_len = n,
    map_access = acc, map_state = Live\<rparr>"
  obtain a where fresh: "map_at s k = None" "length (mappings s) < MAX_MAPPINGS"
    and a: "alloc_at s (mapping_allocation k) = Some a" "alloc_state a = Live" "in_bounds ?m a"
    and s': "s' = s\<lparr>mappings := mappings s @ [?m]\<rparr>"
    using assms(2) unfolding in_bounds_iff
    by (auto simp: map_op_def result_simps any_key_iffs)
  have free: "\<not> conflict ?m m'" if "map_at s k' = Some m'" for k' m'
    using assms(2) mapt.lookup_mem [OF that]
    by (auto simp: map_op_def result_simps list_ex_iff conflict_def)
  have "mappings_inv (alloc_at s) (map_at s) \<Longrightarrow>
      mappings_inv (alloc_at s) ((map_at s)(k \<mapsto> ?m))"
    using a by (auto simp: mappings_inv_def)
  then show ?thesis
    using assms(1) fresh unfolding inv_unfolds s'
    by (auto simp del: map_append simp: mapt.distinct_push mapt.lookup_push disjoint_inv_push free intro: inv_intros map_le_push)
qed

lemma load_code_inv:
  assumes "global_inv s" and "load_code s k p i e off = Inr s'"
  shows "global_inv s'"
proof -
  let ?c = "\<lparr>code_key = k, code_load_plan_id = p, code_artifact_id = i,
    code_executable_mapping = e, code_entry_offset = off, code_state = Live\<rparr>"
  obtain m where fresh: "code_at s k = None" "length (loaded_code s) < MAX_LOADED_CODE"
    and m: "map_at s e = Some m" "allocation_vm (mapping_allocation e) = code_vm k"
      "map_state m = Live" "map_access m = ReadExecute" "off < map_byte_len m"
    and s': "s' = s\<lparr>loaded_code := loaded_code s @ [?c]\<rparr>"
    using assms(2) by (auto simp: load_code_def result_simps any_key_iffs not_le)
  moreover have "codes_inv (map_at s) (code_at s) \<Longrightarrow> codes_inv (map_at s) ((code_at s)(k \<mapsto> ?c))"
    using m by (auto simp: codes_inv_def)
  ultimately show ?thesis
    using assms(1) unfolding inv_unfolds s'
    by (auto simp del: map_append simp: codet.distinct_push codet.lookup_push intro: inv_intros map_le_push)
qed

lemma dispatch_queue_exists:
  assumes "global_inv s" and "d \<in> set (dispatches s)"
  shows "\<exists>q. queue_at s (dispatch_queue (disp_key d)) = Some q"
proof -
  have "disp_at s (disp_key d) = Some d"
    using assms by (auto simp: inv_unfolds intro: disp.lookup_self)
  then show ?thesis
    using assms(1) unfolding global_inv_def dispatches_inv_def dispatch_ok_def by blast
qed

lemma create_queue_inv:
  assumes "global_inv s" and "create_queue s k p r cap = Inr s'"
  shows "global_inv s'"
proof -
  let ?q = "\<lparr>queue_key = k, queue_plan_id = p, queue_ring_mapping = r,
    queue_capacity = cap, queue_state = Queue_Ready\<rparr>"
  obtain m where fresh: "queue_at s k = None" "length (queues s) < MAX_QUEUES"
    and m: "map_at s r = Some m" "allocation_vm (mapping_allocation r) = queue_vm k"
      "map_state m = Live" "map_access m = ReadWrite" "valid_queue_capacity cap"
      "unat cap * 64 \<le> unat (map_byte_len m)"
    and s': "s' = s\<lparr>queues := queues s @ [?q]\<rparr>"
    using assms(2) by (auto simp: create_queue_def result_simps any_key_iffs not_less
        checked_ring_bytes)
  have "dispatch_queue (disp_key d) \<noteq> k" if "d \<in> set (dispatches s)" for d
    using dispatch_queue_exists [OF assms(1) that] fresh(1) by auto
  then have "active_dispatches s k = 0"
    by (auto simp: active_dispatches_def filter_empty_conv)
  then have "occupancy_inv s \<Longrightarrow> occupancy_inv s'"
    using fresh by (simp add: occupancy_inv_def s' active_dispatches_def que.lookup_push)
  moreover have "queues_inv (map_at s) (queue_at s) \<Longrightarrow> queues_inv (map_at s) ((queue_at s)(k \<mapsto> ?q))"
    using m by (auto simp: queues_inv_def)
  ultimately show ?thesis
    using assms(1) fresh unfolding inv_unfolds s'
    by (auto simp del: map_append simp: que.distinct_push que.lookup_push
        intro: inv_intros map_le_push)
qed

lemma check_dispatch_resource_Inr [result_simps]:
  "check_dispatch_resource s k r = Inr u \<longleftrightarrow>
     resource_ok (map_at s) (queue_vm (dispatch_queue k)) r"
  by (auto simp: check_dispatch_resource_def resource_ok_def result_simps)

lemma prepare_dispatch_inv:
  assumes "global_inv s" and "prepare_dispatch s k c t rs = Inr s'"
  shows "global_inv s'"
proof -
  let ?d = "\<lparr>disp_key = k, disp_code = c, disp_completion = t, disp_resources = rs,
    disp_state = Prepared\<rparr>"
  let ?t = "\<lparr>comp_key = t, comp_state = Completion_Armed\<rparr>"
  obtain q cr where fresh: "disp_at s k = None" "length (dispatches s) < MAX_DISPATCHES"
      "comp_at s t = None" "length (completions s) < MAX_COMPLETIONS"
    and t: "completion_dispatch t = k"
    and rs: "length rs \<le> MAX_DISPATCH_RESOURCES" "strictly_ascending rs"
      "\<forall>r\<in>set rs. resource_ok (map_at s) (queue_vm (dispatch_queue k)) r"
    and q: "queue_at s (dispatch_queue k) = Some q" "queue_state q = Queue_Ready"
      "active_dispatches s (dispatch_queue k) < unat (queue_capacity q)"
    and c: "code_at s c = Some cr" "code_vm c = queue_vm (dispatch_queue k)" "code_state cr = Live"
    and s': "s' = s\<lparr>dispatches := dispatches s @ [?d], completions := completions s @ [?t]\<rparr>"
    using assms(2)
    by (auto simp: prepare_dispatch_def result_simps any_key_iffs not_less not_le)
  have "dispatches_inv (map_at s) (code_at s) (queue_at s) (disp_at s) (comp_at s) \<Longrightarrow>
      dispatches_inv (map_at s) (code_at s) (queue_at s) ((disp_at s)(k \<mapsto> ?d)) ((comp_at s)(t \<mapsto> ?t))"
    using t rs q c fresh(3) unfolding dispatches_inv_def dispatch_ok_def by auto
  moreover have "completions_inv (disp_at s) (comp_at s) \<Longrightarrow>
      completions_inv ((disp_at s)(k \<mapsto> ?d)) ((comp_at s)(t \<mapsto> ?t))"
    using t fresh(1) unfolding completions_inv_def by auto
  moreover have "occupancy_inv s \<Longrightarrow> occupancy_inv s'"
    using q by (auto simp: occupancy_inv_def s' active_dispatches_def)
  ultimately show ?thesis
    using assms(1) fresh unfolding inv_unfolds s'
    by (auto simp del: map_append simp: disp.distinct_push disp.lookup_push comp.distinct_push
        comp.lookup_push)
qed

section \<open>Assigning a state\<close>

lemma in_bounds_state [simp]:
  "in_bounds m (a\<lparr>alloc_state := st\<rparr>) = in_bounds m a"
  "in_bounds (m\<lparr>map_state := st'\<rparr>) a = in_bounds m a"
  by (simp_all add: in_bounds_def)

text \<open>The bindings of a table after one record changed state, and what the change must respect.\<close>

lemma device_mut_inv:
  assumes "global_inv s" and "device_mut s k st = Inr s'"
    and d: "dev_at s k = Some d" "dev_state d \<noteq> Device_Released"
    and rel: "st = Device_Released \<Longrightarrow>
      \<not> list_ex (\<lambda>v. vm_device (vm_key v) = k \<and> vm_state v \<noteq> Vm_Released) (vms s)"
  shows "global_inv s'"
proof -
  have s': "s' = s\<lparr>devices := update_first (\<lambda>r. dev_key r = k) (\<lambda>r. r\<lparr>dev_state := st\<rparr>) (devices s)\<rparr>"
    using assms(2) by (auto simp: mut_defs result_simps)
  have rel': "vm_state v = Vm_Released"
    if "st = Device_Released" "vm_at s kv = Some v" "vm_device kv = k" for kv v
    using rel that by (auto simp: list_ex_iff dest!: vmt.lookup_Some)
  have "devices_inv (dev_at s) \<Longrightarrow> devices_inv ((dev_at s)(k \<mapsto> d\<lparr>dev_state := st\<rparr>))"
    using d unfolding devices_inv_def by (auto split: if_splits)
  moreover have "vms_inv (dev_at s) (vm_at s) \<Longrightarrow>
      vms_inv ((dev_at s)(k \<mapsto> d\<lparr>dev_state := st\<rparr>)) (vm_at s)"
    using d rel' unfolding vms_inv_def by auto
  ultimately show ?thesis
    using assms(1) unfolding inv_unfolds s'
    by (simp add: dev.lookup_assign [OF d(1)] dev.distinct_assign)
qed

lemma vm_mut_inv:
  assumes "global_inv s" and "vm_mut s k st = Inr s'"
    and v: "vm_at s k = Some v" "vm_state v \<noteq> Vm_Released"
    and rel: "st = Vm_Released \<Longrightarrow>
      \<not> list_ex (\<lambda>a. allocation_vm (alloc_key a) = k \<and> alloc_state a \<noteq> Released) (allocations s)"
  shows "global_inv s'"
proof -
  have s': "s' = s\<lparr>vms := update_first (\<lambda>r. vm_key r = k) (\<lambda>r. r\<lparr>vm_state := st\<rparr>) (vms s)\<rparr>"
    using assms(2) by (auto simp: mut_defs result_simps)
  have rel': "alloc_state a = Released"
    if "st = Vm_Released" "alloc_at s ka = Some a" "allocation_vm ka = k" for ka a
    using rel that by (auto simp: list_ex_iff dest!: alloc.lookup_Some)
  have "vms_inv (dev_at s) (vm_at s) \<Longrightarrow> vms_inv (dev_at s) ((vm_at s)(k \<mapsto> v\<lparr>vm_state := st\<rparr>))"
    using v unfolding vms_inv_def by auto
  moreover have "allocations_inv (vm_at s) (alloc_at s) \<Longrightarrow>
      allocations_inv ((vm_at s)(k \<mapsto> v\<lparr>vm_state := st\<rparr>)) (alloc_at s)"
    using v rel' unfolding allocations_inv_def by auto
  ultimately show ?thesis
    using assms(1) unfolding inv_unfolds s'
    by (simp add: vmt.lookup_assign [OF v(1)] vmt.distinct_assign)
qed

lemma allocation_mut_inv:
  assumes "global_inv s" and "allocation_mut s k Released = Inr s'"
    and a: "alloc_at s k = Some a"
    and rel: "\<not> list_ex (\<lambda>m. mapping_allocation (map_key m) = k \<and> map_state m = Live) (mappings s)"
  shows "global_inv s'"
proof -
  have s': "s' = s\<lparr>allocations :=
      update_first (\<lambda>r. alloc_key r = k) (\<lambda>r. r\<lparr>alloc_state := Released\<rparr>) (allocations s)\<rparr>"
    using assms(2) by (auto simp: mut_defs result_simps)
  have rel': "map_state m = Released" if "map_at s km = Some m" "mapping_allocation km = k" for km m
    using rel that by (cases "map_state m") (auto simp: list_ex_iff dest!: mapt.lookup_Some)
  have "allocations_inv (vm_at s) (alloc_at s) \<Longrightarrow>
      allocations_inv (vm_at s) ((alloc_at s)(k \<mapsto> a\<lparr>alloc_state := Released\<rparr>))"
    using a unfolding allocations_inv_def by auto
  moreover have "mappings_inv (alloc_at s) (map_at s) \<Longrightarrow>
      mappings_inv ((alloc_at s)(k \<mapsto> a\<lparr>alloc_state := Released\<rparr>)) (map_at s)"
    using a rel' unfolding mappings_inv_def by fastforce
  ultimately show ?thesis
    using assms(1) unfolding inv_unfolds s'
    by (simp add: alloc.lookup_assign [OF a] alloc.distinct_assign)
qed

lemma mapping_mut_inv:
  assumes "global_inv s" and "mapping_mut s k Released = Inr s'"
    and m: "map_at s k = Some m"
    and code: "\<And>kc c. code_at s kc = Some c \<Longrightarrow> code_executable_mapping c = k \<Longrightarrow> code_state c \<noteq> Live"
    and queue: "\<And>kq q. queue_at s kq = Some q \<Longrightarrow> queue_ring_mapping q = k \<Longrightarrow>
      queue_state q = Queue_Released"
    and disp: "\<And>kd d r. disp_at s kd = Some d \<Longrightarrow> retains_resources (disp_state d) \<Longrightarrow>
      r \<in> set (disp_resources d) \<Longrightarrow> res_mapping r \<noteq> k"
  shows "global_inv s'"
proof -
  let ?M = "(map_at s)(k \<mapsto> m\<lparr>map_state := Released\<rparr>)"
  have s': "s' = s\<lparr>mappings :=
      update_first (\<lambda>r. map_key r = k) (\<lambda>r. r\<lparr>map_state := Released\<rparr>) (mappings s)\<rparr>"
    using assms(2) by (auto simp: mut_defs result_simps)
  have "mappings_inv (alloc_at s) (map_at s) \<Longrightarrow> mappings_inv (alloc_at s) ?M"
    using m unfolding mappings_inv_def by auto
  moreover have "disjoint_inv (map_at s) \<Longrightarrow> disjoint_inv ?M"
    unfolding disjoint_inv_def by (auto simp: conflict_def)
  moreover have "codes_inv (map_at s) (code_at s) \<Longrightarrow> codes_inv ?M (code_at s)"
    using m code unfolding codes_inv_def by fastforce
  moreover have "queues_inv (map_at s) (queue_at s) \<Longrightarrow> queues_inv ?M (queue_at s)"
    using m queue unfolding queues_inv_def by fastforce
  moreover have "resource_ok (map_at s) v r \<Longrightarrow> res_mapping r \<noteq> k \<Longrightarrow> resource_ok ?M v r" for v r
    by (simp add: resource_ok_def)
  then have "dispatches_inv (map_at s) (code_at s) (queue_at s) (disp_at s) (comp_at s) \<Longrightarrow>
      dispatches_inv ?M (code_at s) (queue_at s) (disp_at s) (comp_at s)"
    using disp unfolding dispatches_inv_def dispatch_ok_def by meson
  ultimately show ?thesis
    using assms(1) unfolding inv_unfolds s'
    by (simp add: mapt.lookup_assign [OF m] mapt.distinct_assign)
qed

lemma code_mut_inv:
  assumes "global_inv s" and "code_mut s k Released = Inr s'"
    and c: "code_at s k = Some c"
    and disp: "\<And>kd d. disp_at s kd = Some d \<Longrightarrow> disp_code d = k \<Longrightarrow> \<not> retains_resources (disp_state d)"
  shows "global_inv s'"
proof -
  let ?C = "(code_at s)(k \<mapsto> c\<lparr>code_state := Released\<rparr>)"
  have s': "s' = s\<lparr>loaded_code :=
      update_first (\<lambda>r. code_key r = k) (\<lambda>r. r\<lparr>code_state := Released\<rparr>) (loaded_code s)\<rparr>"
    using assms(2) by (auto simp: mut_defs result_simps)
  have "codes_inv (map_at s) (code_at s) \<Longrightarrow> codes_inv (map_at s) ?C"
    using c unfolding codes_inv_def by auto
  moreover have "dispatches_inv (map_at s) (code_at s) (queue_at s) (disp_at s) (comp_at s) \<Longrightarrow>
      dispatches_inv (map_at s) ?C (queue_at s) (disp_at s) (comp_at s)"
    using c disp unfolding dispatches_inv_def dispatch_ok_def by fastforce
  ultimately show ?thesis
    using assms(1) unfolding inv_unfolds s'
    by (simp add: codet.lookup_assign [OF c] codet.distinct_assign)
qed

lemma queue_mut_inv:
  assumes "global_inv s" and "queue_mut s k st = Inr s'"
    and q: "queue_at s k = Some q" "queue_state q \<noteq> Queue_Released"
    and disp: "\<And>kd d. st = Queue_Released \<Longrightarrow> disp_at s kd = Some d \<Longrightarrow> dispatch_queue kd = k \<Longrightarrow>
      \<not> retains_resources (disp_state d)"
  shows "global_inv s'"
proof -
  let ?Q = "(queue_at s)(k \<mapsto> q\<lparr>queue_state := st\<rparr>)"
  have s': "s' = s\<lparr>queues :=
      update_first (\<lambda>r. queue_key r = k) (\<lambda>r. r\<lparr>queue_state := st\<rparr>) (queues s)\<rparr>"
    using assms(2) by (auto simp: mut_defs result_simps)
  have "queues_inv (map_at s) (queue_at s) \<Longrightarrow> queues_inv (map_at s) ?Q"
    using q unfolding queues_inv_def by auto
  moreover have "dispatches_inv (map_at s) (code_at s) (queue_at s) (disp_at s) (comp_at s) \<Longrightarrow>
      dispatches_inv (map_at s) (code_at s) ?Q (disp_at s) (comp_at s)"
    using q disp unfolding dispatches_inv_def dispatch_ok_def by fastforce
  moreover have "occupancy_inv s \<Longrightarrow> occupancy_inv s'"
    using q by (auto simp: occupancy_inv_def active_dispatches_def s' que.lookup_assign [OF q(1)])
  ultimately show ?thesis
    using assms(1) unfolding inv_unfolds s'
    by (simp add: que.lookup_assign [OF q(1)] que.distinct_assign)
qed

lemma require_dispatch_pair_Inr [result_simps]:
  "require_dispatch_pair s t st st' = Inr u \<longleftrightarrow> (\<exists>d c. disp_at s (completion_dispatch t) = Some d \<and>
     disp_completion d = t \<and> disp_state d = st \<and> comp_at s t = Some c \<and> comp_state c = st')"
  by (auto simp: require_dispatch_pair_def result_simps)

lemma dispatch_ok_assign:
  "\<lbrakk>dispatch_ok M C Q K k d; disp_completion d = t; completion_matches st (comp_state c);
    retains_resources st \<Longrightarrow> retains_resources (disp_state d)\<rbrakk> \<Longrightarrow>
   dispatch_ok M C Q (K(t \<mapsto> c)) k (d\<lparr>disp_state := st\<rparr>)"
  unfolding dispatch_ok_def by auto

lemma dispatch_ok_other:
  "\<lbrakk>dispatch_ok M C Q K k d; k \<noteq> completion_dispatch t\<rbrakk> \<Longrightarrow> dispatch_ok M C Q (K(t \<mapsto> c)) k d"
  unfolding dispatch_ok_def by auto

lemma completions_inv_assign:
  assumes "P (completion_dispatch t) = Some d" and "disp_completion d = t" and "completions_inv P K"
  shows "completions_inv (P(completion_dispatch t \<mapsto> d\<lparr>disp_state := st\<rparr>)) (K(t \<mapsto> c))"
  unfolding completions_inv_def
proof (intro allI impI)
  fix k t'
  assume "(K(t \<mapsto> c)) k = Some t'"
  then have "\<exists>d'. P (completion_dispatch k) = Some d' \<and> disp_completion d' = k"
    using assms by (cases "k = t") (auto simp: completions_inv_def)
  then show "\<exists>d'. (P(completion_dispatch t \<mapsto> d\<lparr>disp_state := st\<rparr>)) (completion_dispatch k) = Some d' \<and>
      disp_completion d' = k"
    using assms(1) by (cases "completion_dispatch k = completion_dispatch t") auto
qed

lemma dispatch_pair_inv:
  assumes inv: "global_inv s" and "dispatch_mut s (completion_dispatch t) st = Inr s1"
    and s': "s' = s1\<lparr>completions := ts\<rparr>"
    and d: "disp_at s (completion_dispatch t) = Some d" "disp_completion d = t"
      "retains_resources st \<Longrightarrow> retains_resources (disp_state d)"
    and ts: "length ts = length (completions s)" "distinct (map comp_key ts)"
      "lookup comp_key ts = (comp_at s)(t \<mapsto> c)" "completion_matches st (comp_state c)"
  shows "global_inv s'"
proof -
  let ?ds = "update_first (\<lambda>r. disp_key r = completion_dispatch t) (\<lambda>r. r\<lparr>disp_state := st\<rparr>) (dispatches s)"
  let ?P = "(disp_at s)(completion_dispatch t \<mapsto> d\<lparr>disp_state := st\<rparr>)"
  have s'': "s' = s\<lparr>dispatches := ?ds, completions := ts\<rparr>"
    using assms(2) s' by (auto simp: mut_defs result_simps)
  have le: "active_dispatches s' k \<le> active_dispatches s k" for k
    unfolding active_dispatches_def s''
    by simp (rule disp.count_assign_le [OF d(1)], simp add: d(3))
  have occ: "occupancy_inv s'"
    using inv le [THEN order_trans] by (simp add: global_inv_def occupancy_inv_def s'')
  have "dispatches_inv (map_at s) (code_at s) (queue_at s) (disp_at s) (comp_at s) \<Longrightarrow>
      dispatches_inv (map_at s) (code_at s) (queue_at s) ?P ((comp_at s)(t \<mapsto> c))"
    using d ts(4) unfolding dispatches_inv_def
    by (auto intro: dispatch_ok_assign dispatch_ok_other)
  moreover have "completions_inv (disp_at s) (comp_at s) \<Longrightarrow> completions_inv ?P ((comp_at s)(t \<mapsto> c))"
    using d(1,2) by (rule completions_inv_assign)
  ultimately show ?thesis
    using inv ts occ unfolding inv_unfolds s''
    by (simp add: disp.lookup_assign [OF d(1)] disp.distinct_assign)
qed

lemma completion_mut_pair:
  assumes "global_inv s" and "dispatch_mut s (completion_dispatch t) st = Inr s1"
    and "completion_mut s1 t st' = Inr s'"
    and "disp_at s (completion_dispatch t) = Some d" "disp_completion d = t"
      "retains_resources st \<Longrightarrow> retains_resources (disp_state d)"
    and c: "comp_at s t = Some c" and m: "completion_matches st st'"
  shows "global_inv s'"
proof (rule dispatch_pair_inv [OF assms(1,2)])
  let ?ts = "update_first (\<lambda>r. comp_key r = t) (\<lambda>r. r\<lparr>comp_state := st'\<rparr>) (completions s)"
  show "s' = s1\<lparr>completions := ?ts\<rparr>"
    using assms(2,3) by (auto simp: mut_defs result_simps)
  show "lookup comp_key ?ts = (comp_at s)(t \<mapsto> c\<lparr>comp_state := st'\<rparr>)"
    using c by (rule comp.lookup_assign)
  show "distinct (map comp_key ?ts)"
    using assms(1) by (simp add: comp.distinct_assign inv_unfolds)
qed (use assms in auto)

section \<open>Every transition\<close>

lemma transition_dispatch_inv:
  assumes "global_inv s" and "transition_dispatch s t st1 st2 c1 c2 = Inr s'"
    and "completion_matches st2 c2" and "retains_resources st2 \<Longrightarrow> retains_resources st1"
  shows "global_inv s'"
  using assms unfolding transition_dispatch_def
  by (auto simp: result_simps intro: completion_mut_pair)

lemma observe_completion_inv:
  "global_inv s \<Longrightarrow> observe_completion s t = Inr s' \<Longrightarrow> global_inv s'"
  unfolding observe_completion_def by (auto simp: result_simps intro: completion_mut_pair)

lemma settle_after_quiescence_inv:
  "global_inv s \<Longrightarrow> settle_after_quiescence s t = Inr s' \<Longrightarrow> global_inv s'"
  unfolding settle_after_quiescence_def by (auto simp: result_simps intro: completion_mut_pair)

lemma publish_dispatch_inv:
  assumes "global_inv s" and "publish_dispatch s t = Inr s'"
  shows "global_inv s'"
proof -
  obtain d c where d: "disp_at s (completion_dispatch t) = Some d" "disp_completion d = t"
      "disp_state d = Prepared"
    and c: "comp_at s t = Some c" "comp_state c = Completion_Armed"
    and mut: "dispatch_mut s (completion_dispatch t) Published = Inr s'"
    using assms(2) by (auto simp: publish_dispatch_def result_simps)
  show ?thesis
  proof (rule dispatch_pair_inv [OF assms(1) mut, where ts = "completions s"])
    show "s' = s'\<lparr>completions := completions s\<rparr>"
      using mut by (auto simp: mut_defs result_simps)
    show "comp_at s = (comp_at s)(t \<mapsto> c)"
      using c by auto
  qed (use assms(1) d c in \<open>auto simp: inv_unfolds\<close>)
qed

lemmas lookup_mems = codet.lookup_mem que.lookup_mem disp.lookup_mem

lemma unmap_inv:
  assumes "global_inv s" and "unmap s k = Inr s'"
  shows "global_inv s'"
proof -
  obtain m where "map_at s k = Some m" "mapping_mut s k Released = Inr s'"
    using assms(2) by (auto simp: unmap_def result_simps)
  then show ?thesis
    using assms
    by (auto simp: unmap_def result_simps list_ex_iff dest: lookup_mems elim!: mapping_mut_inv)
qed

lemma unload_code_inv:
  "global_inv s \<Longrightarrow> unload_code s k = Inr s' \<Longrightarrow> global_inv s'"
  unfolding unload_code_def
  by (auto simp: result_simps list_ex_iff dest: lookup_mems elim!: code_mut_inv)

lemma release_queue_inv:
  "global_inv s \<Longrightarrow> release_queue s k = Inr s' \<Longrightarrow> global_inv s'"
  unfolding release_queue_def
  by (auto simp: result_simps list_ex_iff dest: lookup_mems disp.lookup_key elim!: queue_mut_inv)

lemma apply_transition_inv:
  assumes "global_inv s" and "apply_transition s t = Inr s'"
  shows "global_inv s'"
  using assms
proof (cases t)
  case (BeginDeviceFailure k)
  with assms show ?thesis
    by (auto simp: begin_device_failure_def result_simps elim!: device_mut_inv)
next
  case (EstablishDeviceQuiescence k)
  with assms show ?thesis
    by (auto simp: establish_device_quiescence_def result_simps elim!: device_mut_inv)
next
  case (ReleaseDevice k)
  with assms show ?thesis
    by (auto simp: release_device_def result_simps elim!: device_mut_inv)
next
  case (BeginVmFailure k)
  with assms show ?thesis
    by (auto simp: begin_vm_failure_def result_simps elim!: vm_mut_inv)
next
  case (EstablishVmQuiescence k)
  with assms show ?thesis
    by (auto simp: establish_vm_quiescence_def result_simps elim!: vm_mut_inv)
next
  case (ReleaseVm k)
  with assms show ?thesis
    by (auto simp: release_vm_def result_simps elim!: vm_mut_inv)
next
  case (ReleaseAllocation k)
  with assms show ?thesis
    by (auto simp: release_allocation_def result_simps elim!: allocation_mut_inv)
next
  case (BeginQueueFailure k)
  with assms show ?thesis
    by (auto simp: begin_queue_failure_def result_simps elim!: queue_mut_inv)
next
  case (EstablishQueueQuiescence k)
  with assms show ?thesis
    by (auto simp: establish_queue_quiescence_def result_simps elim!: queue_mut_inv)
next
  case (AbortPrepared k)
  with assms show ?thesis
    by (auto elim!: transition_dispatch_inv)
next
  case (MarkDispatchAmbiguous k)
  with assms show ?thesis
    by (auto elim!: transition_dispatch_inv)
qed (auto intro: add_device_inv create_vm_inv allocate_inv map_op_inv unmap_inv load_code_inv
    unload_code_inv create_queue_inv release_queue_inv prepare_dispatch_inv publish_dispatch_inv
    observe_completion_inv settle_after_quiescence_inv)

end
