(* ===== verification/Runtime_Safety.thy ===== *)
theory Runtime_Safety
  imports Runtime_Preservation
begin

text \<open>
  States reachable from \<open>RuntimeStateV1::new()\<close>, what the global invariant says about one
  record of such a state, and the lifecycle every record follows under \<open>apply\<close>: no record
  is ever dropped, only its state field changes, and only along the edges given here.
\<close>

section \<open>Batches without the checks\<close>

fun apply_all :: "runtime_state \<Rightarrow> runtime_transition list \<Rightarrow> transition_error + runtime_state" where
  "apply_all s [] = Inr s"
| "apply_all s (t # ts) = and_then (apply_transition s t) (\<lambda>s'. apply_all s' ts)"

lemma global_inv_validate: "global_inv s \<Longrightarrow> validate_global_invariants s = Inr ()"
  by (simp add: validate_global_invariants_iff)

lemma next_loop_apply_all: "global_inv s \<Longrightarrow> next_loop s ts = apply_all s ts"
proof (induction ts arbitrary: s)
  case (Cons t ts)
  show ?case
  proof (cases "apply_transition s t")
    case (Inr s')
    then have "global_inv s'"
      using apply_transition_inv [OF Cons.prems] by simp
    then show ?thesis
      using Inr Cons.IH by (simp add: global_inv_validate)
  qed simp
qed simp

lemma next_state_apply: "global_inv s \<Longrightarrow> next_state s t = apply_transition s t"
  by (cases "apply_transition s t")
    (simp_all add: next_state_def next_all_def global_inv_validate next_loop_apply_all
      del: next_loop.simps)

lemma new_runtime_state_inv: "global_inv new_runtime_state"
  by (simp add: inv_unfolds new_runtime_state_def devices_inv_def vms_inv_def allocations_inv_def
      mappings_inv_def disjoint_inv_def codes_inv_def queues_inv_def dispatches_inv_def
      completions_inv_def occupancy_inv_def)

section \<open>Reachable states\<close>

inductive reachable :: "runtime_state \<Rightarrow> bool" where
  reachable_new: "reachable new_runtime_state"
| reachable_next: "reachable s \<Longrightarrow> next_state s t = Inr s' \<Longrightarrow> reachable s'"

lemma reachable_inv: "reachable s \<Longrightarrow> global_inv s"
proof (induction rule: reachable.induct)
  case (reachable_next s t s')
  then show ?case
    by (auto simp: next_state_apply dest: apply_transition_inv)
qed (rule new_runtime_state_inv)

lemma reachable_apply_all: "reachable s \<Longrightarrow> apply_all s ts = Inr s' \<Longrightarrow> reachable s'"
proof (induction ts arbitrary: s)
  case (Cons t ts)
  then obtain s1 where "apply_transition s t = Inr s1" "apply_all s1 ts = Inr s'"
    by (auto simp: and_then_Inr)
  then show ?case
    using Cons reachable_inv reachable_next next_state_apply by metis
qed simp

lemma reachable_induct [consumes 1, case_names new step]:
  assumes "reachable s" and "P new_runtime_state"
    and "\<And>s t s'. \<lbrakk>reachable s; global_inv s; P s; apply_transition s t = Inr s'\<rbrakk> \<Longrightarrow> P s'"
  shows "P s"
  using assms(1)
proof (induction rule: reachable.induct)
  case (reachable_next s t s')
  then show ?case
    using assms(3) reachable_inv by (simp add: next_state_apply)
qed (rule assms(2))

section \<open>What the invariant gives for one record\<close>

lemma inv_lookup_self:
  assumes "global_inv s"
  shows "d \<in> set (devices s) \<Longrightarrow> dev_at s (dev_key d) = Some d"
    "v \<in> set (vms s) \<Longrightarrow> vm_at s (vm_key v) = Some v"
    "a \<in> set (allocations s) \<Longrightarrow> alloc_at s (alloc_key a) = Some a"
    "m \<in> set (mappings s) \<Longrightarrow> map_at s (map_key m) = Some m"
    "c \<in> set (loaded_code s) \<Longrightarrow> code_at s (code_key c) = Some c"
    "q \<in> set (queues s) \<Longrightarrow> queue_at s (queue_key q) = Some q"
    "p \<in> set (dispatches s) \<Longrightarrow> disp_at s (disp_key p) = Some p"
    "t \<in> set (completions s) \<Longrightarrow> comp_at s (comp_key t) = Some t"
  using assms
  by (simp_all add: inv_unfolds dev.lookup_self vmt.lookup_self alloc.lookup_self mapt.lookup_self
      codet.lookup_self que.lookup_self disp.lookup_self comp.lookup_self)

lemma inv_vm: "global_inv s \<Longrightarrow> vm_at s k = Some v \<Longrightarrow>
  \<exists>d. dev_at s (vm_device k) = Some d \<and> (dev_state d = Device_Released \<longrightarrow> vm_state v = Vm_Released)"
  by (simp add: global_inv_def vms_inv_def)

lemma inv_allocation: "global_inv s \<Longrightarrow> alloc_at s k = Some a \<Longrightarrow>
  \<exists>v. vm_at s (allocation_vm k) = Some v \<and> (vm_state v = Vm_Released \<longrightarrow> alloc_state a = Released)"
  by (simp add: global_inv_def allocations_inv_def)

lemma inv_mapping: "global_inv s \<Longrightarrow> map_at s k = Some m \<Longrightarrow>
  \<exists>a. alloc_at s (mapping_allocation k) = Some a \<and> in_bounds m a \<and>
    (alloc_state a = Released \<longrightarrow> map_state m = Released)"
  by (simp add: global_inv_def mappings_inv_def)

lemma inv_dispatch: "global_inv s \<Longrightarrow> disp_at s k = Some d \<Longrightarrow>
  dispatch_ok (map_at s) (code_at s) (queue_at s) (comp_at s) k d"
  by (simp add: global_inv_def dispatches_inv_def)

lemma inv_queue: "global_inv s \<Longrightarrow> queue_at s k = Some q \<Longrightarrow>
  valid_queue_capacity (queue_capacity q) \<and>
  allocation_vm (mapping_allocation (queue_ring_mapping q)) = queue_vm k \<and>
  (\<exists>m. map_at s (queue_ring_mapping q) = Some m \<and>
    unat (queue_capacity q) * 64 \<le> unat (map_byte_len m) \<and>
    (queue_state q \<noteq> Queue_Released \<longrightarrow> map_state m = Live \<and> map_access m = ReadWrite))"
  by (simp add: global_inv_def queues_inv_def)

lemma inv_code: "global_inv s \<Longrightarrow> code_at s k = Some c \<Longrightarrow>
  allocation_vm (mapping_allocation (code_executable_mapping c)) = code_vm k \<and>
  (\<exists>m. map_at s (code_executable_mapping c) = Some m \<and> code_entry_offset c < map_byte_len m \<and>
    (code_state c = Live \<longrightarrow> map_state m = Live \<and> map_access m = ReadExecute))"
  by (simp add: global_inv_def codes_inv_def)

text \<open>A live mapping keeps its allocation, its address space and its device.\<close>

lemma live_mapping_parents:
  assumes "global_inv s" and "map_at s k = Some m" and "map_state m = Live"
  shows "\<exists>a v d. alloc_at s (mapping_allocation k) = Some a \<and> alloc_state a = Live \<and>
    vm_at s (allocation_vm (mapping_allocation k)) = Some v \<and> vm_state v \<noteq> Vm_Released \<and>
    dev_at s (vm_device (allocation_vm (mapping_allocation k))) = Some d \<and>
    dev_state d \<noteq> Device_Released"
proof -
  obtain a where a: "alloc_at s (mapping_allocation k) = Some a" "alloc_state a = Live"
    using inv_mapping [OF assms(1,2)] assms(3) by (metis resource_state.exhaust resource_state.distinct(1))
  then obtain v where v: "vm_at s (allocation_vm (mapping_allocation k)) = Some v" "vm_state v \<noteq> Vm_Released"
    using inv_allocation [OF assms(1) a(1)] by auto
  then show ?thesis
    using inv_vm [OF assms(1) v(1)] a by auto
qed

section \<open>Record lifecycles\<close>

text \<open>The state machines the transitions of \<open>apply\<close> drive, one edge relation per table.\<close>

fun device_leads :: "device_state \<Rightarrow> device_state \<Rightarrow> bool" where
  "device_leads Device_Ready Device_MayStillAccess = True"
| "device_leads Device_Ready Device_Released = True"
| "device_leads Device_MayStillAccess Device_Quiescent = True"
| "device_leads Device_Quiescent Device_Released = True"
| "device_leads _ _ = False"

fun vm_leads :: "vm_state \<Rightarrow> vm_state \<Rightarrow> bool" where
  "vm_leads Vm_Active Vm_MayStillAccess = True"
| "vm_leads Vm_Active Vm_Released = True"
| "vm_leads Vm_MayStillAccess Vm_Quiescent = True"
| "vm_leads Vm_Quiescent Vm_Released = True"
| "vm_leads _ _ = False"

fun resource_leads :: "resource_state \<Rightarrow> resource_state \<Rightarrow> bool" where
  "resource_leads Live Released = True"
| "resource_leads _ _ = False"

fun queue_leads :: "queue_state \<Rightarrow> queue_state \<Rightarrow> bool" where
  "queue_leads Queue_Ready Queue_MayStillAccess = True"
| "queue_leads Queue_MayStillAccess Queue_Quiescent = True"
| "queue_leads st Queue_Released = (st \<noteq> Queue_Released)"
| "queue_leads _ _ = False"

fun dispatch_leads :: "dispatch_state \<Rightarrow> dispatch_state \<Rightarrow> bool" where
  "dispatch_leads Prepared Published = True"
| "dispatch_leads Prepared AbortedBeforePublication = True"
| "dispatch_leads Published Ambiguous = True"
| "dispatch_leads Published Completed = True"
| "dispatch_leads Ambiguous FailedQuiescent = True"
| "dispatch_leads _ _ = False"

definition evolves :: "('r \<Rightarrow> 'r \<Rightarrow> bool) \<Rightarrow> ('k \<rightharpoonup> 'r) \<Rightarrow> ('k \<rightharpoonup> 'r) \<Rightarrow> bool" where
  "evolves step m m' \<longleftrightarrow> (\<forall>k r. m k = Some r \<longrightarrow> (\<exists>r'. m' k = Some r' \<and> (r' = r \<or> step r r')))"

lemma evolves_refl [simp, intro]: "evolves step m m"
  by (simp add: evolves_def)

lemma evolves_upd [simp]:
  "evolves step m (m(k \<mapsto> r')) \<longleftrightarrow> (\<forall>r. m k = Some r \<longrightarrow> r' = r \<or> step r r')"
  by (auto simp: evolves_def)

definition state_evolves :: "runtime_state \<Rightarrow> runtime_state \<Rightarrow> bool" where
  "state_evolves s s' \<longleftrightarrow>
     evolves (\<lambda>r r'. r' = r\<lparr>dev_state := dev_state r'\<rparr> \<and> device_leads (dev_state r) (dev_state r'))
       (dev_at s) (dev_at s') \<and>
     evolves (\<lambda>r r'. r' = r\<lparr>vm_state := vm_state r'\<rparr> \<and> vm_leads (vm_state r) (vm_state r'))
       (vm_at s) (vm_at s') \<and>
     evolves (\<lambda>r r'. r' = r\<lparr>alloc_state := alloc_state r'\<rparr> \<and>
         resource_leads (alloc_state r) (alloc_state r'))
       (alloc_at s) (alloc_at s') \<and>
     evolves (\<lambda>r r'. r' = r\<lparr>map_state := map_state r'\<rparr> \<and> resource_leads (map_state r) (map_state r'))
       (map_at s) (map_at s') \<and>
     evolves (\<lambda>r r'. r' = r\<lparr>code_state := code_state r'\<rparr> \<and>
         resource_leads (code_state r) (code_state r'))
       (code_at s) (code_at s') \<and>
     evolves (\<lambda>r r'. r' = r\<lparr>queue_state := queue_state r'\<rparr> \<and>
         queue_leads (queue_state r) (queue_state r'))
       (queue_at s) (queue_at s') \<and>
     evolves (\<lambda>r r'. r' = r\<lparr>disp_state := disp_state r'\<rparr> \<and>
         dispatch_leads (disp_state r) (disp_state r'))
       (disp_at s) (disp_at s')"

lemmas push_facts =
  dev.lookup_push vmt.lookup_push alloc.lookup_push mapt.lookup_push codet.lookup_push
  que.lookup_push disp.lookup_push comp.lookup_push

lemmas assign_facts =
  dev.lookup_assign vmt.lookup_assign alloc.lookup_assign mapt.lookup_assign codet.lookup_assign
  que.lookup_assign disp.lookup_assign comp.lookup_assign

lemmas op_defs =
  add_device_def begin_device_failure_def establish_device_quiescence_def release_device_def
  create_vm_def begin_vm_failure_def establish_vm_quiescence_def release_vm_def
  allocate_def release_allocation_def map_op_def unmap_def load_code_def unload_code_def
  create_queue_def begin_queue_failure_def establish_queue_quiescence_def release_queue_def
  prepare_dispatch_def publish_dispatch_def observe_completion_def settle_after_quiescence_def
  transition_dispatch_def

lemma queue_leads_Released: "st \<noteq> Queue_Released \<Longrightarrow> queue_leads st Queue_Released"
  by (cases st) auto

lemma apply_transition_evolves:
  assumes "apply_transition s t = Inr s'"
  shows "state_evolves s s'"
  using assms unfolding state_evolves_def
  by (cases t)
    (auto simp: op_defs mut_defs result_simps any_key_iffs push_facts assign_facts
      queue_leads_Released)

section \<open>Errors\<close>

text \<open>The two errors that wrap an invariant violation come from the validator only.\<close>

lemmas getter_defs =
  device_def vm_def allocation_def mapping_def code_def queue_def dispatch_def completion_def

definition plain_error :: "transition_error + 'a \<Rightarrow> bool" where
  "plain_error m \<longleftrightarrow> (\<forall>iv. m \<noteq> Inl (NextInvariant iv) \<and> m \<noteq> Inl (SourceInvariant iv))"

named_theorems plain_simps \<open>where the errors of a sequence of guarded steps come from\<close>

lemma plain_error_values [plain_simps]:
  "plain_error (Inr x)"
  "plain_error (Inl (CapacityExceeded rk n))" "plain_error (Inl (NotFound r))"
  "plain_error (Inl (AlreadyExists r))" "plain_error (Inl (IllegalState r))"
  "plain_error (Inl (BindingMismatch r))" "plain_error (Inl (GenerationNotMonotonic dk))"
  "plain_error (Inl (InvalidRange r))" "plain_error (Inl (InvalidAccess r))"
  "plain_error (Inl (AddressConflict mk))" "plain_error (Inl (NonCanonicalResources pk))"
  "plain_error (Inl (ResourceInUse r))" "plain_error (Inl (QueueFull qk))"
  "plain_error (Inl (CompletionMismatch pk))" "plain_error (Inl (NotQuiescent r))"
  by (simp_all add: plain_error_def)

lemma plain_error_and_then [plain_simps]:
  "plain_error (and_then m f) \<longleftrightarrow> plain_error m \<and> (\<forall>x. m = Inr x \<longrightarrow> plain_error (f x))"
  by (cases m) (auto simp: plain_error_def)

lemma plain_error_ok_or [plain_simps]:
  "plain_error (ok_or x e) \<longleftrightarrow> x \<noteq> None \<or> plain_error (Inl e :: transition_error + unit)"
  by (cases x) (auto simp: plain_error_def ok_or_def)

lemma plain_error_for_each: "(\<And>x. plain_error (f x)) \<Longrightarrow> plain_error (for_each f xs)"
  by (induction xs) (auto simp: plain_simps)

lemma plain_error_guards [plain_simps]:
  "plain_error (require_state b r)" "plain_error (ensure_room n m rk)"
  "plain_error (require b e) \<longleftrightarrow> b \<or> plain_error (Inl e :: transition_error + unit)"
  by (simp_all add: require_state_def ensure_room_def require_def plain_error_def)

lemma plain_error_getters [plain_simps]:
  "plain_error (device s dk)" "plain_error (vm s vk)" "plain_error (allocation s ak)"
  "plain_error (mapping s mk)" "plain_error (code s ck)" "plain_error (queue s qk)"
  "plain_error (dispatch s pk)" "plain_error (completion s tk)"
  by (simp_all add: getter_defs plain_simps)

lemma plain_error_mut [plain_simps]:
  "plain_error (device_mut s dk dst)" "plain_error (vm_mut s vk vst)"
  "plain_error (allocation_mut s ak rst)" "plain_error (mapping_mut s mk rst)"
  "plain_error (code_mut s ck rst)" "plain_error (queue_mut s qk qst)"
  "plain_error (dispatch_mut s pk pst)" "plain_error (completion_mut s tk tst)"
  by (simp_all add: mut_defs plain_simps)

lemma plain_error_shared_guards [plain_simps]:
  "plain_error (require_vm_active s vk)" "plain_error (queue_is_effectively_quiescent s qk)"
  "plain_error (check_dispatch_resource s pk r)"
  "plain_error (require_dispatch_pair s tk pst tst)" "plain_error (require_queue_ready s tk)"
  by (simp_all add: require_vm_active_def queue_is_effectively_quiescent_def
      check_dispatch_resource_def require_dispatch_pair_def require_queue_ready_def plain_simps)

lemma plain_error_apply_transition: "plain_error (apply_transition s t)"
  by (cases t) (simp_all add: op_defs plain_simps plain_error_for_each)

lemma plain_error_apply_all: "plain_error (apply_all s ts)"
  by (induction ts arbitrary: s) (auto simp: plain_simps plain_error_apply_transition)

end
