(* ===== verification/Runtime_Example.thy ===== *)
theory Runtime_Example
  imports Runtime_Safety
begin

text \<open>
  A concrete run of the runtime model, evaluated step by step, at which the properties of
  reachable states are instantiated.
\<close>

text \<open>A device, an address space, three mapped buffers (ring, code, data), one loaded kernel, a
  queue of capacity four and one published dispatch that writes the data buffer.\<close>

definition demo_device :: device_key where "demo_device = DeviceKeyV1 7 1"
definition demo_vm :: vm_key where "demo_vm = VmKeyV1 demo_device 1"
definition demo_buffer :: "u64 \<Rightarrow> mapping_key" where
  "demo_buffer i = MappingKeyV1 (AllocationKeyV1 demo_vm i) 1"
definition demo_code :: loaded_code_key where "demo_code = LoadedCodeKeyV1 demo_vm 1"
definition demo_queue :: queue_key where "demo_queue = QueueKeyV1 demo_vm 1 1"
definition demo_dispatch :: dispatch_key where "demo_dispatch = DispatchKeyV1 demo_queue 1"
definition demo_completion :: completion_key where "demo_completion = CompletionKeyV1 demo_dispatch 1"
definition demo_resources :: "dispatch_resource list" where
  "demo_resources = [\<lparr>res_mapping = demo_buffer 3, res_required_access = ReadWrite\<rparr>]"

lemmas demo_defs =
  demo_device_def demo_vm_def demo_buffer_def demo_code_def demo_queue_def demo_dispatch_def
  demo_completion_def demo_resources_def

definition demo_transitions :: "runtime_transition list" where
  "demo_transitions =
     [AddDevice demo_device, CreateVm demo_vm,
      Allocate (AllocationKeyV1 demo_vm 1) 4096,
      Allocate (AllocationKeyV1 demo_vm 2) 4096,
      Allocate (AllocationKeyV1 demo_vm 3) 8192,
      Map (demo_buffer 1) 0 0x1000 4096 ReadWrite,
      Map (demo_buffer 2) 0 0x2000 4096 ReadExecute,
      Map (demo_buffer 3) 4096 0x4000 4096 ReadWrite,
      LoadCode demo_code (fill32 1) (fill32 2) (demo_buffer 2) 256,
      CreateQueue demo_queue (fill32 3) (demo_buffer 1) 4,
      PrepareDispatch demo_dispatch demo_code demo_completion demo_resources,
      PublishDispatch demo_completion]"

definition demo_state :: runtime_state where
  "demo_state =
     \<lparr>devices = [\<lparr>dev_key = demo_device, dev_state = Device_Ready\<rparr>],
      vms = [\<lparr>vm_key = demo_vm, vm_state = Vm_Active\<rparr>],
      allocations =
        [\<lparr>alloc_key = AllocationKeyV1 demo_vm 1, alloc_byte_len = 4096, alloc_state = Live\<rparr>,
         \<lparr>alloc_key = AllocationKeyV1 demo_vm 2, alloc_byte_len = 4096, alloc_state = Live\<rparr>,
         \<lparr>alloc_key = AllocationKeyV1 demo_vm 3, alloc_byte_len = 8192, alloc_state = Live\<rparr>],
      mappings =
        [\<lparr>map_key = demo_buffer 1, map_allocation_offset = 0, map_gpu_va = 0x1000,
          map_byte_len = 4096, map_access = ReadWrite, map_state = Live\<rparr>,
         \<lparr>map_key = demo_buffer 2, map_allocation_offset = 0, map_gpu_va = 0x2000,
          map_byte_len = 4096, map_access = ReadExecute, map_state = Live\<rparr>,
         \<lparr>map_key = demo_buffer 3, map_allocation_offset = 4096, map_gpu_va = 0x4000,
          map_byte_len = 4096, map_access = ReadWrite, map_state = Live\<rparr>],
      loaded_code =
        [\<lparr>code_key = demo_code, code_load_plan_id = fill32 1, code_artifact_id = fill32 2,
          code_executable_mapping = demo_buffer 2, code_entry_offset = 256, code_state = Live\<rparr>],
      queues =
        [\<lparr>queue_key = demo_queue, queue_plan_id = fill32 3, queue_ring_mapping = demo_buffer 1,
          queue_capacity = 4, queue_state = Queue_Ready\<rparr>],
      dispatches =
        [\<lparr>disp_key = demo_dispatch, disp_code = demo_code, disp_completion = demo_completion,
          disp_resources = demo_resources, disp_state = Published\<rparr>],
      completions = [\<lparr>comp_key = demo_completion, comp_state = Completion_Armed\<rparr>]\<rparr>"

lemma power_of_two_4: "is_power_of_two (4 :: u32)"
  by (auto simp: is_power_of_two_iff intro!: exI [of _ 2])

lemma two_not_le_one: "\<not> (2 :: u64) \<le> 1"
  by (simp add: word_le_nat_alt)

lemmas demo_simps = two_not_le_one demo_defs op_defs mut_defs getter_defs capacity_defs ensure_room_def
  require_state_def ok_or_def require_vm_active_def require_dispatch_pair_def
  require_queue_ready_def range_exceeds_def checked_add_def checked_mul_def ranges_overlap_def
  valid_queue_capacity_def power_of_two_4 active_dispatches_def strictly_ascending_def
  check_dispatch_resource_def queue_is_effectively_quiescent_def

lemma demo_run: "apply_all new_runtime_state demo_transitions = Inr demo_state"
  by (simp add: demo_transitions_def demo_state_def new_runtime_state_def demo_simps)

lemma demo_reachable: "reachable demo_state"
  using reachable_apply_all [OF reachable_new demo_run] .

lemma demo_inv: "global_inv demo_state"
  by (rule reachable_inv [OF demo_reachable])

lemma next_all_demo: "global_inv s \<Longrightarrow> next_all s ts = apply_all s ts"
  by (simp add: next_all_def global_inv_validate next_loop_apply_all)

section \<open>Continuations of the run\<close>

lemma demo_ambiguous_step:
  "\<exists>s'. next_all demo_state [MarkDispatchAmbiguous demo_completion] = Inr s'"
  by (simp add: next_all_demo [OF demo_inv], simp add: demo_state_def demo_simps)

text \<open>The dispatch becomes ambiguous, its device fails and is found quiescent.\<close>

definition demo_quiescent :: runtime_state where
  "demo_quiescent = demo_state
     \<lparr>devices := [\<lparr>dev_key = demo_device, dev_state = Device_Quiescent\<rparr>],
      dispatches :=
        [\<lparr>disp_key = demo_dispatch, disp_code = demo_code, disp_completion = demo_completion,
          disp_resources = demo_resources, disp_state = Ambiguous\<rparr>],
      completions := [\<lparr>comp_key = demo_completion, comp_state = Completion_Ambiguous\<rparr>]\<rparr>"

lemma demo_quiescent_reachable: "reachable demo_quiescent"
proof (rule reachable_apply_all [OF demo_reachable])
  show "apply_all demo_state [MarkDispatchAmbiguous demo_completion, BeginDeviceFailure demo_device,
      EstablishDeviceQuiescence demo_device] = Inr demo_quiescent"
    by (simp add: demo_quiescent_def demo_state_def demo_simps)
qed

lemma demo_settle_step:
  "\<exists>s'. next_state demo_quiescent (SettleAfterQuiescence demo_completion) = Inr s' \<and>
     dispatches demo_quiescent ! 0 \<notin> set (dispatches s')"
  by (simp add: next_state_apply [OF reachable_inv [OF demo_quiescent_reachable]],
      simp add: demo_quiescent_def demo_state_def demo_simps)

text \<open>A released device that came back as a second incarnation.\<close>

definition demo_reset_device :: "u64 \<Rightarrow> device_record" where
  "demo_reset_device g = \<lparr>dev_key = DeviceKeyV1 7 g,
     dev_state = (if g = 1 then Device_Released else Device_Ready)\<rparr>"

definition demo_reset :: runtime_state where
  "demo_reset = new_runtime_state
     \<lparr>devices := [demo_reset_device 1, demo_reset_device 2],
      vms := [\<lparr>vm_key = VmKeyV1 (DeviceKeyV1 7 1) 1, vm_state = Vm_Released\<rparr>]\<rparr>"

lemma demo_reset_reachable: "reachable demo_reset"
proof (rule reachable_apply_all [OF reachable_new])
  show "apply_all new_runtime_state
      [AddDevice (DeviceKeyV1 7 1), CreateVm (VmKeyV1 (DeviceKeyV1 7 1) 1),
       ReleaseVm (VmKeyV1 (DeviceKeyV1 7 1) 1), ReleaseDevice (DeviceKeyV1 7 1),
       AddDevice (DeviceKeyV1 7 2)] = Inr demo_reset"
    by (simp add: demo_reset_def demo_reset_device_def new_runtime_state_def demo_simps)
qed

text \<open>The queue is drained, released and created again with the next generation.\<close>

definition demo_requeued :: runtime_state where
  "demo_requeued = demo_state
     \<lparr>queues :=
        [\<lparr>queue_key = demo_queue, queue_plan_id = fill32 3, queue_ring_mapping = demo_buffer 1,
          queue_capacity = 4, queue_state = Queue_Released\<rparr>,
         \<lparr>queue_key = QueueKeyV1 demo_vm 1 2, queue_plan_id = fill32 3,
          queue_ring_mapping = demo_buffer 1, queue_capacity = 4, queue_state = Queue_Ready\<rparr>],
      dispatches :=
        [\<lparr>disp_key = demo_dispatch, disp_code = demo_code, disp_completion = demo_completion,
          disp_resources = demo_resources, disp_state = Completed\<rparr>],
      completions := [\<lparr>comp_key = demo_completion, comp_state = Completion_Observed\<rparr>]\<rparr>"

lemma demo_requeued_reachable: "reachable demo_requeued"
proof (rule reachable_apply_all [OF demo_reachable])
  show "apply_all demo_state [ObserveCompletion demo_completion, ReleaseQueue demo_queue,
      CreateQueue (QueueKeyV1 demo_vm 1 2) (fill32 3) (demo_buffer 1) 4] = Inr demo_requeued"
    by (simp add: demo_requeued_def demo_state_def demo_simps)
qed

end
