(* ===== verification/Runtime_Theorems.thy ===== *)
theory Runtime_Theorems
  imports Runtime_Example
begin

text \<open>
  The properties of the runtime lifecycle model: the validator is redundant after the first
  check, and what holds in every state reachable through \<open>RuntimeStateV1::next\<close>.
\<close>

text \<open>A mapping of an address space that is live, permits an access and rests on a live
  allocation.\<close>

definition pinned :: "runtime_state \<Rightarrow> vm_key \<Rightarrow> mapping_key \<Rightarrow> memory_access \<Rightarrow> bool" where
  "pinned s v k access \<longleftrightarrow> allocation_vm (mapping_allocation k) = v \<and>
     (\<exists>m a. mapping s k = Inr m \<and> map_state m = Live \<and> permits (map_access m) access \<and>
       allocation s (mapping_allocation k) = Inr a \<and> alloc_state a = Live)"

text \<open>C1: A batch that starts in a state the validator accepts is never stopped by the validator
  again: the checked batch \<open>next_all\<close> has the result of applying its transitions one after
  the other, so the error \<open>NextInvariant\<close> never occurs.\<close>

theorem next_all_checks_redundant:
  assumes "validate_global_invariants s = Inr ()"
  shows "next_all s ts = apply_all s ts \<and> (\<forall>iv. next_all s ts \<noteq> Inl (NextInvariant iv))"
proof -
  have inv: "global_inv s"
    using assms by (simp add: validate_global_invariants_iff)
  have eq: "next_all s ts = apply_all s ts"
    by (simp add: assms next_all_def next_loop_apply_all [OF inv])
  have "apply_all s ts \<noteq> Inl (NextInvariant iv)" for iv
    using plain_error_apply_all [of s ts] by (simp add: plain_error_def)
  with eq show ?thesis by simp
qed

theorem next_all_checks_redundant_witness:
  "validate_global_invariants demo_state = Inr () \<and>
   next_all demo_state [MarkDispatchAmbiguous demo_completion] =
   apply_all demo_state [MarkDispatchAmbiguous demo_completion]"
  using next_all_checks_redundant [OF global_inv_validate [OF demo_inv]]
    global_inv_validate [OF demo_inv]
  by blast

text \<open>C4: In a reachable state, two different live mappings of one address space occupy disjoint
  ranges of GPU addresses, and no range wraps past the end of the 64-bit space.\<close>

theorem live_mappings_disjoint:
  assumes "reachable s" and "m \<in> set (mappings s)" and "m' \<in> set (mappings s)"
    and "map_key m \<noteq> map_key m'" and "map_state m = Live" and "map_state m' = Live"
    and "allocation_vm (mapping_allocation (map_key m)) = allocation_vm (mapping_allocation (map_key m'))"
  shows "{unat (map_gpu_va m) ..< unat (map_gpu_va m) + unat (map_byte_len m)} \<inter>
      {unat (map_gpu_va m') ..< unat (map_gpu_va m') + unat (map_byte_len m')} = {} \<and>
    unat (map_gpu_va m) + unat (map_byte_len m) < 2 ^ 64"
proof -
  have inv: "global_inv s"
    by (rule reachable_inv [OF assms(1)])
  note at = inv_lookup_self(4) [OF inv assms(2)] inv_lookup_self(4) [OF inv assms(3)]
  have "\<not> conflict m m'"
    using inv at assms(4) unfolding global_inv_def disjoint_inv_def by blast
  then have "\<not> ranges_overlap (map_gpu_va m) (map_byte_len m) (map_gpu_va m') (map_byte_len m')"
    using assms(5-7) by (simp add: conflict_def)
  then show ?thesis
    using inv_mapping [OF inv at(1)] inv_mapping [OF inv at(2)]
    by (auto simp: in_bounds_def ranges_overlap_sets)
qed

theorem live_mappings_disjoint_witness:
  "mappings demo_state ! 0 \<noteq> mappings demo_state ! 1 \<and>
   {4096 ..< 4096 + 4096} \<inter> {8192 ..< 8192 + 4096} = ({} :: nat set)"
  using live_mappings_disjoint [OF demo_reachable, of "mappings demo_state ! 0" "mappings demo_state ! 1"]
  by (simp add: demo_state_def demo_defs)

text \<open>C2: While a dispatch is prepared, published or ambiguous, everything it can touch is
  pinned: its queue is not released and its ring is mapped read-write; its code is live in an
  executable mapping that contains the entry point; every declared resource is mapped live in the
  same address space with an access that permits the declared one; the allocations behind
  these mappings are live, and neither the address space nor the device is released.\<close>

theorem in_flight_dispatch_pins_resources:
  assumes "reachable s" and "d \<in> set (dispatches s)" and "retains_resources (disp_state d)"
  shows "\<exists>q c v dev. queue s (dispatch_queue (disp_key d)) = Inr q \<and> queue_state q \<noteq> Queue_Released \<and>
    pinned s (queue_vm (queue_key q)) (queue_ring_mapping q) ReadWrite \<and>
    code s (disp_code d) = Inr c \<and> code_state c = Live \<and>
    pinned s (queue_vm (queue_key q)) (code_executable_mapping c) ReadExecute \<and>
    (\<forall>r\<in>set (disp_resources d).
       pinned s (queue_vm (queue_key q)) (res_mapping r) (res_required_access r)) \<and>
    vm s (queue_vm (queue_key q)) = Inr v \<and> vm_state v \<noteq> Vm_Released \<and>
    device s (vm_device (queue_vm (queue_key q))) = Inr dev \<and> dev_state dev \<noteq> Device_Released"
proof -
  have inv: "global_inv s"
    by (rule reachable_inv [OF assms(1)])
  have ok: "dispatch_ok (map_at s) (code_at s) (queue_at s) (comp_at s) (disp_key d) d"
    by (rule inv_dispatch [OF inv inv_lookup_self(7) [OF inv assms(2)]])
  let ?v = "queue_vm (dispatch_queue (disp_key d))"
  have pin: "pinned s ?v k access"
    if "map_at s k = Some m" "map_state m = Live" "permits (map_access m) access"
      "allocation_vm (mapping_allocation k) = ?v" for k m access
    using live_mapping_parents [OF inv that(1,2)] that by (auto simp: pinned_def result_simps)
  from ok assms(3) obtain q c where q: "queue_at s (dispatch_queue (disp_key d)) = Some q"
      "queue_state q \<noteq> Queue_Released"
    and c: "code_at s (disp_code d) = Some c" "code_state c = Live"
    and res: "\<forall>r\<in>set (disp_resources d). resource_ok (map_at s) ?v r"
    and cv: "code_vm (disp_code d) = ?v"
    unfolding dispatch_ok_def by blast
  have key: "queue_key q = dispatch_queue (disp_key d)"
    by (rule que.lookup_key [OF q(1)])
  obtain m where m: "map_at s (queue_ring_mapping q) = Some m" "map_state m = Live"
      "map_access m = ReadWrite" "allocation_vm (mapping_allocation (queue_ring_mapping q)) = ?v"
    using inv_queue [OF inv q(1)] q(2) by auto
  obtain x where x: "map_at s (code_executable_mapping c) = Some x" "map_state x = Live"
      "map_access x = ReadExecute"
      "allocation_vm (mapping_allocation (code_executable_mapping c)) = ?v"
    using inv_code [OF inv c(1)] c(2) cv by auto
  have "\<forall>r\<in>set (disp_resources d). pinned s ?v (res_mapping r) (res_required_access r)"
    using res pin by (auto simp: resource_ok_def)
  moreover have "pinned s ?v (queue_ring_mapping q) ReadWrite"
      "pinned s ?v (code_executable_mapping c) ReadExecute"
    using pin m x by auto
  ultimately show ?thesis
    using live_mapping_parents [OF inv m(1,2)] m(4) q c key by (auto simp: result_simps)
qed

theorem in_flight_dispatch_pins_resources_witness:
  "retains_resources (disp_state (dispatches demo_state ! 0)) \<and>
   pinned demo_state demo_vm (demo_buffer 3) ReadWrite"
  using in_flight_dispatch_pins_resources [OF demo_reachable, of "dispatches demo_state ! 0"]
  by (auto simp: demo_state_def demo_defs getter_defs ok_or_def)

text \<open>C7: In a reachable state a queue never holds more in-flight dispatches than its capacity, the
  capacity is a power of two of at most 16384 packets, and its ring mapping has 64 bytes per
  packet.\<close>

theorem queue_occupancy_bounded:
  assumes "reachable s" and "q \<in> set (queues s)"
  shows "active_dispatches s (queue_key q) \<le> unat (queue_capacity q) \<and>
    (\<exists>k\<le>14. unat (queue_capacity q) = 2 ^ k) \<and>
    (\<exists>m. mapping s (queue_ring_mapping q) = Inr m \<and>
       unat (queue_capacity q) * 64 \<le> unat (map_byte_len m))"
proof -
  have inv: "global_inv s"
    by (rule reachable_inv [OF assms(1)])
  have q: "queue_at s (queue_key q) = Some q"
    by (rule inv_lookup_self(6) [OF inv assms(2)])
  have "valid_queue_capacity (queue_capacity q)"
    using inv_queue [OF inv q] by simp
  then obtain k where k: "unat (queue_capacity q) = 2 ^ k" and "unat (queue_capacity q) \<le> 2 ^ 14"
    by (auto simp: valid_queue_capacity_def is_power_of_two_iff not_less capacity_defs word_le_nat_alt)
  then have "(2 :: nat) ^ k \<le> 2 ^ 14"
    by simp
  then have "k \<le> 14"
    by (rule power_le_imp_le_exp [rotated]) simp
  with k have "\<exists>k\<le>14. unat (queue_capacity q) = 2 ^ k"
    by blast
  moreover have "active_dispatches s (queue_key q) \<le> unat (queue_capacity q)"
    using inv q by (simp add: global_inv_def occupancy_inv_def)
  ultimately show ?thesis
    using inv_queue [OF inv q] by (auto simp: result_simps)
qed

theorem queue_occupancy_bounded_witness:
  "active_dispatches demo_state demo_queue = 1 \<and>
   active_dispatches demo_state (queue_key (queues demo_state ! 0)) \<le>
     unat (queue_capacity (queues demo_state ! 0))"
  using queue_occupancy_bounded [OF demo_reachable, of "queues demo_state ! 0"]
  by (simp add: demo_state_def demo_defs active_dispatches_def)

text \<open>C8: In a reachable state dispatches and completions correspond one to one, and the states of
  the two records of a pair agree.\<close>

theorem completion_lockstep:
  assumes "reachable s"
  shows "bij_betw disp_completion (set (dispatches s)) (comp_key ` set (completions s)) \<and>
    (\<forall>d\<in>set (dispatches s). \<exists>c. completion s (disp_completion d) = Inr c \<and>
       completion_matches (disp_state d) (comp_state c) \<and>
       completion_dispatch (comp_key c) = disp_key d)"
proof -
  have inv: "global_inv s"
    by (rule reachable_inv [OF assms])
  have ok: "completion_dispatch (disp_completion d) = disp_key d \<and>
      (\<exists>c. comp_at s (disp_completion d) = Some c \<and> completion_matches (disp_state d) (comp_state c))"
    if "d \<in> set (dispatches s)" for d
    using inv_dispatch [OF inv inv_lookup_self(7) [OF inv that]] by (simp add: dispatch_ok_def)
  have "inj_on disp_completion (set (dispatches s))"
    using ok inv_lookup_self(7) [OF inv] by (metis inj_onI option.inject)
  moreover have "disp_completion ` set (dispatches s) \<subseteq> comp_key ` set (completions s)"
    using ok by (force dest: comp.lookup_Some)
  moreover have "comp_key c \<in> disp_completion ` set (dispatches s)" if c: "c \<in> set (completions s)" for c
  proof -
    obtain d where "disp_at s (completion_dispatch (comp_key c)) = Some d" "disp_completion d = comp_key c"
      using inv inv_lookup_self(8) [OF inv c] unfolding global_inv_def completions_inv_def by blast
    then show ?thesis
      using disp.lookup_mem by force
  qed
  then have "comp_key ` set (completions s) \<subseteq> disp_completion ` set (dispatches s)"
    by blast
  ultimately show ?thesis
    using ok by (fastforce simp: bij_betw_def result_simps dest: comp.lookup_key)
qed

theorem completion_lockstep_witness:
  "bij_betw disp_completion (set (dispatches demo_state)) (comp_key ` set (completions demo_state)) \<and>
   dispatches demo_state \<noteq> []"
  using completion_lockstep [OF demo_reachable] by (simp add: demo_state_def)

lemma disp_state_trans:
  "d1 = d\<lparr>disp_state := st1\<rparr> \<Longrightarrow> d2 = d1\<lparr>disp_state := st2\<rparr> \<Longrightarrow> d2 = d\<lparr>disp_state := st2\<rparr>"
  by simp

lemma disp_state_same: "d' = d\<lparr>disp_state := disp_state d'\<rparr> \<Longrightarrow> disp_state d' = disp_state d \<Longrightarrow> d' = d"
  by simp

lemma apply_all_evolves_dispatch:
  "\<lbrakk>apply_all s ts = Inr s'; disp_at s k = Some d\<rbrakk> \<Longrightarrow>
   \<exists>d'. disp_at s' k = Some d' \<and> d' = d\<lparr>disp_state := disp_state d'\<rparr> \<and>
     dispatch_leads\<^sup>*\<^sup>* (disp_state d) (disp_state d')"
proof (induction ts arbitrary: s d)
  case (Cons t ts)
  then obtain s1 where s1: "apply_transition s t = Inr s1" "apply_all s1 ts = Inr s'"
    by (auto simp: and_then_Inr)
  have "evolves (\<lambda>r r'. r' = r\<lparr>disp_state := disp_state r'\<rparr> \<and>
      dispatch_leads (disp_state r) (disp_state r')) (disp_at s) (disp_at s1)"
    using apply_transition_evolves [OF s1(1)] by (simp add: state_evolves_def)
  then obtain d1 where d1: "disp_at s1 k = Some d1"
    and "d1 = d \<or> d1 = d\<lparr>disp_state := disp_state d1\<rparr> \<and> dispatch_leads (disp_state d) (disp_state d1)"
    using Cons.prems(2) by (auto simp: evolves_def)
  then have step: "d1 = d\<lparr>disp_state := disp_state d1\<rparr>"
      "dispatch_leads\<^sup>*\<^sup>* (disp_state d) (disp_state d1)"
    by auto
  obtain d' where d': "disp_at s' k = Some d'" "d' = d1\<lparr>disp_state := disp_state d'\<rparr>"
      "dispatch_leads\<^sup>*\<^sup>* (disp_state d1) (disp_state d')"
    using Cons.IH [OF s1(2) d1] by blast
  have "d' = d\<lparr>disp_state := disp_state d'\<rparr>"
    by (rule disp_state_trans [OF step(1) d'(2)])
  then show ?case
    using d'(1) rtranclp_trans [OF step(2) d'(3)] by blast
qed simp

lemma dispatch_leads_terminal: "dispatch_leads st st' \<Longrightarrow> retains_resources st"
  by (cases st; cases st') auto

lemma dispatch_leads_star_terminal:
  "dispatch_leads\<^sup>*\<^sup>* st st' \<Longrightarrow> \<not> retains_resources st \<Longrightarrow> st' = st"
  by (erule converse_rtranclpE) (auto dest: dispatch_leads_terminal)

text \<open>C9: No batch of transitions drops or rewrites a dispatch: its record stays, only its state
  moves, along the edges of the dispatch lifecycle, and a dispatch that no longer retains
  resources never changes again.\<close>

theorem dispatch_lifecycle:
  assumes "next_all s ts = Inr s'" and "d \<in> set (dispatches s)"
  shows "\<exists>d'\<in>set (dispatches s'). d' = d\<lparr>disp_state := disp_state d'\<rparr> \<and>
    dispatch_leads\<^sup>*\<^sup>* (disp_state d) (disp_state d') \<and>
    (\<not> retains_resources (disp_state d) \<longrightarrow> d' = d)"
proof -
  have inv: "global_inv s"
    using assms(1) by (auto simp: next_all_def and_then_Inr map_err_Inr validate_global_invariants_iff)
  have "apply_all s ts = Inr s'"
    using assms(1) next_loop_apply_all [OF inv] by (auto simp: next_all_def and_then_Inr)
  from apply_all_evolves_dispatch [OF this inv_lookup_self(7) [OF inv assms(2)]]
  obtain d' where d': "disp_at s' (disp_key d) = Some d'"
      "d' = d\<lparr>disp_state := disp_state d'\<rparr>" "dispatch_leads\<^sup>*\<^sup>* (disp_state d) (disp_state d')"
    by blast
  have "\<not> retains_resources (disp_state d) \<longrightarrow> d' = d"
    using disp_state_same [OF d'(2)] dispatch_leads_star_terminal [OF d'(3)] by blast
  with d'(2,3) disp.lookup_mem [OF d'(1)] show ?thesis
    by blast
qed

theorem dispatch_lifecycle_witness:
  "\<exists>s'. next_all demo_state [MarkDispatchAmbiguous demo_completion] = Inr s' \<and>
     (\<exists>d'\<in>set (dispatches s'). dispatch_leads\<^sup>*\<^sup>* Published (disp_state d'))"
proof -
  obtain s' where s': "next_all demo_state [MarkDispatchAmbiguous demo_completion] = Inr s'"
    using demo_ambiguous_step by blast
  show ?thesis
    using dispatch_lifecycle [OF s', of "dispatches demo_state ! 0"] s'
    by (auto simp: demo_state_def)
qed

lemma update_first_keeps:
  assumes "distinct (map k xs)" and "x \<in> set xs" and "d \<in> set xs" and "d \<noteq> x"
  shows "d \<in> set (update_first (\<lambda>r. k r = k x) f xs)"
  using set_update_first [OF assms(1,2)] assms(3,4) by simp

lemma dispatch_mut_keeps:
  assumes "global_inv s" and "dispatch_mut s k st = Inr s'" and "disp_at s k = Some x"
    and "d \<in> set (dispatches s)" and "disp_state d \<noteq> disp_state x"
  shows "d \<in> set (dispatches s')"
proof -
  have x: "x \<in> set (dispatches s)" "disp_key x = k"
    using disp.lookup_Some [OF assms(3)] by auto
  have "distinct (map disp_key (dispatches s))"
    using assms(1) by (simp add: inv_unfolds)
  then have "d \<in> set (update_first (\<lambda>r. disp_key r = disp_key x) (\<lambda>r. r\<lparr>disp_state := st\<rparr>) (dispatches s))"
    using x(1) assms(4,5) by (intro update_first_keeps) auto
  then show ?thesis
    using assms(2) x(2) by (auto simp: mut_defs result_simps)
qed

lemma completion_mut_dispatches: "completion_mut s k st = Inr s' \<Longrightarrow> dispatches s' = dispatches s"
  by (auto simp: mut_defs result_simps)

lemma transition_dispatch_keeps:
  assumes "global_inv s" and "transition_dispatch s t st1 st2 c1 c2 = Inr s'"
    and "d \<in> set (dispatches s)" and "disp_state d \<noteq> st1"
  shows "d \<in> set (dispatches s')"
  using assms
  by (auto simp: transition_dispatch_def result_simps completion_mut_dispatches
      intro: dispatch_mut_keeps)

lemma observe_completion_transition:
  "observe_completion s t = Inr s' \<Longrightarrow>
   transition_dispatch s t Published Completed Completion_Armed Completion_Observed = Inr s'"
  by (auto simp: observe_completion_def transition_dispatch_def and_then_Inr)

lemma apply_keeps_other_dispatches:
  assumes "global_inv s" and "apply_transition s t = Inr s'" and "d \<in> set (dispatches s)"
    and "disp_state d = Ambiguous" and "\<And>c. t \<noteq> SettleAfterQuiescence c"
  shows "d \<in> set (dispatches s')"
proof (cases t)
  case (AbortPrepared c)
  then show ?thesis using assms by (auto intro: transition_dispatch_keeps)
next
  case (MarkDispatchAmbiguous c)
  then show ?thesis using assms by (auto intro: transition_dispatch_keeps)
next
  case (PublishDispatch c)
  then show ?thesis using assms
    by (auto simp: publish_dispatch_def result_simps intro: dispatch_mut_keeps)
next
  case (ObserveCompletion c)
  then show ?thesis using assms
    by (auto dest!: observe_completion_transition intro: transition_dispatch_keeps)
qed (use assms in \<open>auto simp: op_defs mut_defs result_simps\<close>)

text \<open>C5: A dispatch whose outcome is ambiguous leaves that state only by
  \<open>SettleAfterQuiescence\<close> on its own completion, only when its queue, its address space or its
  device is quiescent, and then as a failure.\<close>

theorem ambiguous_settles_only_after_quiescence:
  assumes "next_state s t = Inr s'" and "d \<in> set (dispatches s)" and "disp_state d = Ambiguous"
    and "d \<notin> set (dispatches s')"
  shows "t = SettleAfterQuiescence (disp_completion d) \<and>
    queue_is_effectively_quiescent s (dispatch_queue (disp_key d)) = Inr True \<and>
    d\<lparr>disp_state := FailedQuiescent\<rparr> \<in> set (dispatches s')"
proof -
  have inv: "global_inv s"
    using assms(1) by (auto simp: next_state_def next_all_def and_then_Inr map_err_Inr
        validate_global_invariants_iff)
  have app: "apply_transition s t = Inr s'"
    using assms(1) next_state_apply [OF inv] by simp
  obtain c where t: "t = SettleAfterQuiescence c"
    using apply_keeps_other_dispatches [OF inv app assms(2,3)] assms(4) by blast
  obtain x s1 where x: "disp_at s (completion_dispatch c) = Some x" "disp_completion x = c"
      "queue_is_effectively_quiescent s (dispatch_queue (completion_dispatch c)) = Inr True"
    and mut: "dispatch_mut s (completion_dispatch c) FailedQuiescent = Inr s1"
      "completion_mut s1 c Completion_QuiescedFailure = Inr s'"
    using app by (auto simp: t settle_after_quiescence_def result_simps)
  have mem: "x \<in> set (dispatches s)" and key: "disp_key x = completion_dispatch c"
    using disp.lookup_Some [OF x(1)] by auto
  have dist: "distinct (map disp_key (dispatches s))"
    using inv by (simp add: inv_unfolds)
  have s': "set (dispatches s') = insert (x\<lparr>disp_state := FailedQuiescent\<rparr>) (set (dispatches s) - {x})"
    using set_update_first [OF dist mem] key mut by (auto simp: mut_defs result_simps)
  then have "d = x"
    using assms(2,4) by auto
  then show ?thesis
    using t x s' key by simp
qed

theorem ambiguous_settles_only_after_quiescence_witness:
  "\<exists>s s'. next_state s (SettleAfterQuiescence demo_completion) = Inr s' \<and>
     queue_is_effectively_quiescent s demo_queue = Inr True"
proof -
  let ?s = "demo_quiescent" and ?d = "dispatches demo_quiescent ! 0"
  obtain s' where s': "next_state ?s (SettleAfterQuiescence demo_completion) = Inr s'"
    and gone: "?d \<notin> set (dispatches s')"
    using demo_settle_step by blast
  then show ?thesis
    using ambiguous_settles_only_after_quiescence [OF s', of ?d] by (auto simp: demo_quiescent_def demo_state_def demo_defs)
qed

text \<open>Of all incarnations of one physical device at most one is not released, and it is the
  one with the greatest generation.\<close>

theorem device_incarnations_monotone:
  assumes "reachable s" and "d \<in> set (devices s)" and "dev_state d \<noteq> Device_Released"
    and "d' \<in> set (devices s)" and "physical (dev_key d') = physical (dev_key d)" and "d' \<noteq> d"
  shows "generation (dev_key d') < generation (dev_key d) \<and> dev_state d' = Device_Released"
proof -
  have inv: "global_inv s"
    by (rule reachable_inv [OF assms(1)])
  note at = inv_lookup_self(1) [OF inv assms(2)] inv_lookup_self(1) [OF inv assms(4)]
  have "dev_key d' \<noteq> dev_key d"
    using at assms(6) by auto
  then have "generation (dev_key d') \<noteq> generation (dev_key d)"
    using assms(5) by (metis device_key.expand)
  moreover have rel: "generation (dev_key a) < generation (dev_key b) \<longrightarrow> dev_state a = Device_Released"
    if "dev_at s (dev_key a) = Some a" "dev_at s (dev_key b) = Some b"
      "physical (dev_key a) = physical (dev_key b)" for a b
    using inv that unfolding global_inv_def devices_inv_def by blast
  ultimately show ?thesis
    using rel [OF at(1) at(2)] rel [OF at(2) at(1)] assms(3,5) by auto
qed

theorem device_incarnations_monotone_witness:
  "generation (DeviceKeyV1 7 1) < generation (DeviceKeyV1 7 2) \<and> demo_reset_device 1 \<noteq> demo_reset_device 2"
  using device_incarnations_monotone [OF demo_reset_reachable, of "demo_reset_device 2" "demo_reset_device 1"]
  by (simp add: demo_reset_def demo_reset_device_def)

section \<open>Queue generations\<close>

definition queue_generations :: "(queue_key \<rightharpoonup> queue_record) \<Rightarrow> bool" where
  "queue_generations Q \<longleftrightarrow> (\<forall>k q k' q'. Q k = Some q \<longrightarrow> Q k' = Some q' \<longrightarrow> queue_vm k' = queue_vm k \<longrightarrow>
     queue_id k' = queue_id k \<longrightarrow> queue_generation k' < queue_generation k \<longrightarrow>
     queue_state q' = Queue_Released)"

lemma queue_generations_push:
  "\<lbrakk>queue_generations Q; \<And>k' q'. Q k' = Some q' \<Longrightarrow> queue_vm k' = queue_vm k \<Longrightarrow>
      queue_id k' = queue_id k \<Longrightarrow> queue_state q' = Queue_Released \<and>
      queue_generation k' < queue_generation k\<rbrakk> \<Longrightarrow> queue_generations (Q(k \<mapsto> q))"
  unfolding queue_generations_def by (smt (verit) fun_upd_apply option.inject order.asym)

lemma queue_generations_assign:
  "\<lbrakk>queue_generations Q; Q k = Some q; queue_state q \<noteq> Queue_Released\<rbrakk> \<Longrightarrow>
   queue_generations (Q(k \<mapsto> q\<lparr>queue_state := st\<rparr>))"
  unfolding queue_generations_def by (auto split: if_splits)

lemma queue_mut_generations:
  "\<lbrakk>queue_generations (queue_at s); queue_mut s k st = Inr s'; queue_at s k = Some q;
    queue_state q \<noteq> Queue_Released\<rbrakk> \<Longrightarrow> queue_generations (queue_at s')"
  by (auto simp: mut_defs result_simps que.lookup_assign queue_generations_assign)

lemma create_queue_generations:
  assumes "queue_generations (queue_at s)" and "create_queue s k p r cap = Inr s'"
  shows "queue_generations (queue_at s')"
proof -
  have older: "queue_state q' = Queue_Released \<and> queue_generation k' < queue_generation k"
    if "queue_at s k' = Some q'" "queue_vm k' = queue_vm k" "queue_id k' = queue_id k" for k' q'
    using assms(2) que.lookup_Some [OF that(1)] that(2,3)
    by (auto simp: create_queue_def result_simps not_le)
  show ?thesis
    using assms older
    by (auto simp: create_queue_def result_simps any_key_iffs que.lookup_push
        intro!: queue_generations_push)
qed

lemma apply_queue_generations:
  assumes "queue_generations (queue_at s)" and "apply_transition s t = Inr s'"
  shows "queue_generations (queue_at s')"
proof (cases t)
  case (CreateQueue k p r cap)
  then show ?thesis using assms create_queue_generations by simp
next
  case (BeginQueueFailure k)
  then show ?thesis using assms
    by (auto simp: begin_queue_failure_def result_simps intro: queue_mut_generations)
next
  case (EstablishQueueQuiescence k)
  then show ?thesis using assms
    by (auto simp: establish_queue_quiescence_def result_simps intro: queue_mut_generations)
next
  case (ReleaseQueue k)
  then show ?thesis using assms
    by (auto simp: release_queue_def result_simps intro: queue_mut_generations)
qed (use assms in \<open>auto simp: op_defs mut_defs result_simps\<close>)

lemma reachable_queue_generations: "reachable s \<Longrightarrow> queue_generations (queue_at s)"
proof (induction rule: reachable_induct)
  case new
  show ?case by (simp add: queue_generations_def new_runtime_state_def)
next
  case (step s t s')
  then show ?case by (blast intro: apply_queue_generations)
qed

text \<open>At most one incarnation of a queue identity is not released, and every other one has a
  smaller generation and is released. The validator does not check this; it holds in every
  reachable state because \<open>create_queue\<close> does.\<close>

theorem queue_incarnations_monotone:
  assumes "reachable s" and "q \<in> set (queues s)" and "queue_state q \<noteq> Queue_Released"
    and "q' \<in> set (queues s)" and "queue_vm (queue_key q') = queue_vm (queue_key q)"
    and "queue_id (queue_key q') = queue_id (queue_key q)" and "q' \<noteq> q"
  shows "queue_generation (queue_key q') < queue_generation (queue_key q) \<and>
    queue_state q' = Queue_Released"
proof -
  have gen: "queue_generations (queue_at s)"
    by (rule reachable_queue_generations [OF assms(1)])
  have inv: "global_inv s"
    by (rule reachable_inv [OF assms(1)])
  note at = inv_lookup_self(6) [OF inv assms(2)] inv_lookup_self(6) [OF inv assms(4)]
  have "queue_key q' \<noteq> queue_key q"
    using at assms(7) by auto
  then have "queue_generation (queue_key q') \<noteq> queue_generation (queue_key q)"
    using assms(5,6) by (metis queue_key.expand)
  moreover have rel: "queue_generation (queue_key a) < queue_generation (queue_key b) \<longrightarrow>
      queue_state a = Queue_Released"
    if "queue_at s (queue_key a) = Some a" "queue_at s (queue_key b) = Some b"
      "queue_vm (queue_key a) = queue_vm (queue_key b)"
      "queue_id (queue_key a) = queue_id (queue_key b)" for a b
    using gen that unfolding queue_generations_def by blast
  ultimately show ?thesis
    using rel [OF at(1) at(2)] rel [OF at(2) at(1)] assms(3,5,6) by auto
qed

theorem queue_incarnations_monotone_witness:
  "\<exists>q q'. q \<in> set (queues demo_requeued) \<and> q' \<in> set (queues demo_requeued) \<and>
     queue_generation (queue_key q') < queue_generation (queue_key q) \<and>
     queue_state q' = Queue_Released"
  using queue_incarnations_monotone [OF demo_requeued_reachable,
      of "queues demo_requeued ! 1" "queues demo_requeued ! 0"]
  by (intro exI [of _ "queues demo_requeued ! 1"] exI [of _ "queues demo_requeued ! 0"])
    (simp add: demo_requeued_def demo_state_def demo_defs)

text \<open>C6: Once a device incarnation is released, nothing beneath it is alive: every address space,
  allocation, mapping, code object and queue rooted in it is released and no dispatch of its
  queues retains resources.\<close>

theorem released_device_owns_nothing:
  assumes "reachable s" and "d \<in> set (devices s)" and "dev_state d = Device_Released"
  shows "(\<forall>v\<in>set (vms s). vm_device (vm_key v) = dev_key d \<longrightarrow> vm_state v = Vm_Released) \<and>
    (\<forall>a\<in>set (allocations s). vm_device (allocation_vm (alloc_key a)) = dev_key d \<longrightarrow>
       alloc_state a = Released) \<and>
    (\<forall>m\<in>set (mappings s). vm_device (allocation_vm (mapping_allocation (map_key m))) = dev_key d \<longrightarrow>
       map_state m = Released) \<and>
    (\<forall>c\<in>set (loaded_code s). vm_device (code_vm (code_key c)) = dev_key d \<longrightarrow>
       code_state c = Released) \<and>
    (\<forall>q\<in>set (queues s). vm_device (queue_vm (queue_key q)) = dev_key d \<longrightarrow>
       queue_state q = Queue_Released) \<and>
    (\<forall>p\<in>set (dispatches s). vm_device (queue_vm (dispatch_queue (disp_key p))) = dev_key d \<longrightarrow>
       \<not> retains_resources (disp_state p))"
proof -
  have inv: "global_inv s"
    by (rule reachable_inv [OF assms(1)])
  have dev: "dev_at s (dev_key d) = Some d"
    by (rule inv_lookup_self(1) [OF inv assms(2)])
  have vm: "vm_state v = Vm_Released" if "vm_at s k = Some v" "vm_device k = dev_key d" for k v
    using inv_vm [OF inv that(1)] that(2) dev assms(3) by auto
  have alloc: "alloc_state a = Released"
    if "alloc_at s k = Some a" "vm_device (allocation_vm k) = dev_key d" for k a
    using inv_allocation [OF inv that(1)] vm that(2) by blast
  have map: "map_state m = Released"
    if "map_at s k = Some m" "vm_device (allocation_vm (mapping_allocation k)) = dev_key d" for k m
    using inv_mapping [OF inv that(1)] alloc that(2) by blast
  have code: "code_state c = Released"
    if "code_at s k = Some c" "vm_device (code_vm k) = dev_key d" for k c
    using inv_code [OF inv that(1)] map that(2)
    by (metis resource_state.distinct(1) resource_state.exhaust)
  have queue: "queue_state q = Queue_Released"
    if "queue_at s k = Some q" "vm_device (queue_vm k) = dev_key d" for k q
    using inv_queue [OF inv that(1)] map that(2) by (metis resource_state.distinct(1))
  have disp: "\<not> retains_resources (disp_state p)"
    if "disp_at s k = Some p" "vm_device (queue_vm (dispatch_queue k)) = dev_key d" for k p
    using inv_dispatch [OF inv that(1)] queue that(2) unfolding dispatch_ok_def by blast
  show ?thesis
    by (intro conjI ballI impI)
      (blast intro: vm alloc map code queue dest: disp inv_lookup_self [OF inv])+
qed

theorem released_device_owns_nothing_witness:
  "dev_state (demo_reset_device 1) = Device_Released \<and> vms demo_reset \<noteq> [] \<and>
   vm_state (vms demo_reset ! 0) = Vm_Released"
  using released_device_owns_nothing [OF demo_reset_reachable, of "demo_reset_device 1"]
  by (simp add: demo_reset_def demo_reset_device_def)

end
