(* ===== verification/Runtime_Teardown.thy ===== *)
theory Runtime_Teardown
  imports Runtime_Example
begin

text \<open>
  Teardown of the runtime state: a measure of outstanding work that every transition which adds no
  record strictly decreases, and the proof that in a valid state with work left some such
  transition is accepted. Together they show that every reachable state can be drained.
\<close>

section \<open>Outstanding work\<close>

fun device_work :: "device_state \<Rightarrow> nat" where
  "device_work Device_Ready = 3"
| "device_work Device_MayStillAccess = 2"
| "device_work Device_Quiescent = 1"
| "device_work Device_Released = 0"

fun vm_work :: "vm_state \<Rightarrow> nat" where
  "vm_work Vm_Active = 3"
| "vm_work Vm_MayStillAccess = 2"
| "vm_work Vm_Quiescent = 1"
| "vm_work Vm_Released = 0"

fun resource_work :: "resource_state \<Rightarrow> nat" where
  "resource_work Live = 1"
| "resource_work Released = 0"

fun queue_work :: "queue_state \<Rightarrow> nat" where
  "queue_work Queue_Ready = 3"
| "queue_work Queue_MayStillAccess = 2"
| "queue_work Queue_Quiescent = 1"
| "queue_work Queue_Released = 0"

fun dispatch_work :: "dispatch_state \<Rightarrow> nat" where
  "dispatch_work Prepared = 3"
| "dispatch_work Published = 2"
| "dispatch_work Ambiguous = 1"
| "dispatch_work _ = 0"

definition teardown_work :: "runtime_state \<Rightarrow> nat" where
  "teardown_work s =
     sum_list (map (\<lambda>r. device_work (dev_state r)) (devices s)) +
     sum_list (map (\<lambda>r. vm_work (vm_state r)) (vms s)) +
     sum_list (map (\<lambda>r. resource_work (alloc_state r)) (allocations s)) +
     sum_list (map (\<lambda>r. resource_work (map_state r)) (mappings s)) +
     sum_list (map (\<lambda>r. resource_work (code_state r)) (loaded_code s)) +
     sum_list (map (\<lambda>r. queue_work (queue_state r)) (queues s)) +
     sum_list (map (\<lambda>r. dispatch_work (disp_state r)) (dispatches s))"

definition drained :: "runtime_state \<Rightarrow> bool" where
  "drained s \<longleftrightarrow>
     list_all (\<lambda>r. dev_state r = Device_Released) (devices s) \<and>
     list_all (\<lambda>r. vm_state r = Vm_Released) (vms s) \<and>
     list_all (\<lambda>r. alloc_state r = Released) (allocations s) \<and>
     list_all (\<lambda>r. map_state r = Released) (mappings s) \<and>
     list_all (\<lambda>r. code_state r = Released) (loaded_code s) \<and>
     list_all (\<lambda>r. queue_state r = Queue_Released) (queues s) \<and>
     list_all (\<lambda>r. \<not> retains_resources (disp_state r)) (dispatches s)"

text \<open>The transitions that add a record.\<close>

fun creates :: "runtime_transition \<Rightarrow> bool" where
  "creates (AddDevice _) = True"
| "creates (CreateVm _) = True"
| "creates (Allocate _ _) = True"
| "creates (Map _ _ _ _ _) = True"
| "creates (LoadCode _ _ _ _ _) = True"
| "creates (CreateQueue _ _ _ _) = True"
| "creates (PrepareDispatch _ _ _ _) = True"
| "creates _ = False"

lemma mut_work:
  "\<lbrakk>dev_at s dk = Some d; device_mut s dk dst = Inr s'\<rbrakk> \<Longrightarrow>
     teardown_work s' + device_work (dev_state d) = teardown_work s + device_work dst"
  "\<lbrakk>vm_at s vk = Some v; vm_mut s vk vst = Inr s'\<rbrakk> \<Longrightarrow>
     teardown_work s' + vm_work (vm_state v) = teardown_work s + vm_work vst"
  "\<lbrakk>alloc_at s ak = Some a; allocation_mut s ak rst = Inr s'\<rbrakk> \<Longrightarrow>
     teardown_work s' + resource_work (alloc_state a) = teardown_work s + resource_work rst"
  "\<lbrakk>map_at s mk = Some m; mapping_mut s mk rst = Inr s'\<rbrakk> \<Longrightarrow>
     teardown_work s' + resource_work (map_state m) = teardown_work s + resource_work rst"
  "\<lbrakk>code_at s ck = Some c; code_mut s ck rst = Inr s'\<rbrakk> \<Longrightarrow>
     teardown_work s' + resource_work (code_state c) = teardown_work s + resource_work rst"
  "\<lbrakk>queue_at s qk = Some q; queue_mut s qk qst = Inr s'\<rbrakk> \<Longrightarrow>
     teardown_work s' + queue_work (queue_state q) = teardown_work s + queue_work qst"
  "\<lbrakk>disp_at s pk = Some p; dispatch_mut s pk pst = Inr s'\<rbrakk> \<Longrightarrow>
     teardown_work s' + dispatch_work (disp_state p) = teardown_work s + dispatch_work pst"
  "completion_mut s tk tst = Inr s' \<Longrightarrow> teardown_work s' = teardown_work s"
  using dev.weight_assign [of "devices s" dk d "\<lambda>r. device_work (dev_state r)" dst]
    vmt.weight_assign [of "vms s" vk v "\<lambda>r. vm_work (vm_state r)" vst]
    alloc.weight_assign [of "allocations s" ak a "\<lambda>r. resource_work (alloc_state r)" rst]
    mapt.weight_assign [of "mappings s" mk m "\<lambda>r. resource_work (map_state r)" rst]
    codet.weight_assign [of "loaded_code s" ck c "\<lambda>r. resource_work (code_state r)" rst]
    que.weight_assign [of "queues s" qk q "\<lambda>r. queue_work (queue_state r)" qst]
    disp.weight_assign [of "dispatches s" pk p "\<lambda>r. dispatch_work (disp_state r)" pst]
  by (auto simp: teardown_work_def mut_defs result_simps)

lemma queue_work_pos: "st \<noteq> Queue_Released \<Longrightarrow> 0 < queue_work st"
  by (cases st) auto

lemma transition_work_decreases:
  assumes "apply_transition s t = Inr s'" and "\<not> creates t"
  shows "teardown_work s' < teardown_work s"
  using assms
  by (cases t) (auto simp: op_defs result_simps dest!: mut_work queue_work_pos)

section \<open>Progress\<close>

text \<open>In a valid state with work left, some transition that adds no record succeeds: dispatches
  first, then queues, code, mappings, allocations, address spaces and devices.\<close>

abbreviation can_step :: "runtime_state \<Rightarrow> bool" where
  "can_step s \<equiv> \<exists>t s'. \<not> creates t \<and> apply_transition s t = Inr s'"

lemma mut_Inr:
  "dev_at s dk = Some d \<Longrightarrow> \<exists>s'. device_mut s dk dst = Inr s'"
  "vm_at s vk = Some v \<Longrightarrow> \<exists>s'. vm_mut s vk vst = Inr s'"
  "alloc_at s ak = Some a \<Longrightarrow> \<exists>s'. allocation_mut s ak rst = Inr s'"
  "map_at s mk = Some m \<Longrightarrow> \<exists>s'. mapping_mut s mk rst = Inr s'"
  "code_at s ck = Some c \<Longrightarrow> \<exists>s'. code_mut s ck rst = Inr s'"
  "queue_at s qk = Some q \<Longrightarrow> \<exists>s'. queue_mut s qk qst = Inr s'"
  "disp_at s pk = Some p \<Longrightarrow> \<exists>s'. dispatch_mut s pk pst = Inr s'"
  "comp_at s tk = Some t \<Longrightarrow> \<exists>s'. completion_mut s tk tst = Inr s'"
  by (auto simp: mut_defs result_simps)

lemma dispatch_pair_mut:
  assumes "disp_at s (completion_dispatch t) = Some d" and "comp_at s t = Some c"
  shows "\<exists>s1 s'. dispatch_mut s (completion_dispatch t) st = Inr s1 \<and> completion_mut s1 t st' = Inr s'"
  using assms by (auto simp: mut_defs result_simps)

lemma transition_dispatch_progress:
  assumes "disp_at s (completion_dispatch t) = Some d" and "disp_completion d = t"
    and "disp_state d = st1" and "comp_at s t = Some c" and "comp_state c = c1"
  shows "\<exists>s'. transition_dispatch s t st1 st2 c1 c2 = Inr s'"
proof -
  obtain s1 s' where "dispatch_mut s (completion_dispatch t) st2 = Inr s1"
      "completion_mut s1 t c2 = Inr s'"
    using dispatch_pair_mut [OF assms(1,4)] by blast
  then show ?thesis
    using assms by (auto simp: transition_dispatch_def result_simps)
qed

lemma device_progress:
  assumes "dev_at s k = Some d"
  shows "dev_state d = Device_Ready \<Longrightarrow> can_step s"
    and "dev_state d = Device_MayStillAccess \<Longrightarrow> can_step s"
proof -
  show "can_step s" if "dev_state d = Device_Ready"
    using mut_Inr(1) [OF assms] assms that
    by (intro exI [of _ "BeginDeviceFailure k"])
      (auto simp: begin_device_failure_def result_simps)
  show "can_step s" if "dev_state d = Device_MayStillAccess"
    using mut_Inr(1) [OF assms] assms that
    by (intro exI [of _ "EstablishDeviceQuiescence k"])
      (auto simp: establish_device_quiescence_def result_simps)
qed

lemma dispatch_progress:
  assumes inv: "global_inv s" and d: "disp_at s k = Some d" and r: "retains_resources (disp_state d)"
  shows "can_step s"
proof -
  note ok = inv_dispatch [OF inv d, unfolded dispatch_ok_def]
  then obtain c q where t: "completion_dispatch (disp_completion d) = k"
    and c: "comp_at s (disp_completion d) = Some c" "completion_matches (disp_state d) (comp_state c)"
    and q: "queue_at s (dispatch_queue k) = Some q" "queue_state q \<noteq> Queue_Released"
    using r by blast
  note pair = transition_dispatch_progress [OF d [folded t] refl refl c(1) refl]
  show ?thesis
  proof (cases "disp_state d")
    case Prepared
    then have "comp_state c = Completion_Armed"
      using c(2) by (cases "comp_state c") auto
    then show ?thesis
      using pair Prepared by (intro exI [of _ "AbortPrepared (disp_completion d)"]) auto
  next
    case Published
    then have "comp_state c = Completion_Armed"
      using c(2) by (cases "comp_state c") auto
    then show ?thesis
      using pair Published by (intro exI [of _ "MarkDispatchAmbiguous (disp_completion d)"]) auto
  next
    case Ambiguous
    then have cs: "comp_state c = Completion_Ambiguous"
      using c(2) by (cases "comp_state c") auto
    obtain m where m: "map_at s (queue_ring_mapping q) = Some m" "map_state m = Live"
        "allocation_vm (mapping_allocation (queue_ring_mapping q)) = queue_vm (dispatch_queue k)"
      using inv_queue [OF inv q(1)] q(2) by auto
    obtain v dev where v: "vm_at s (queue_vm (dispatch_queue k)) = Some v"
      and dev: "dev_at s (vm_device (queue_vm (dispatch_queue k))) = Some dev"
        "dev_state dev \<noteq> Device_Released"
      using live_mapping_parents [OF inv m(1,2)] m(3) by auto
    show ?thesis
    proof (cases "dev_state dev")
      case Device_Quiescent
      then have quiet: "queue_is_effectively_quiescent s (dispatch_queue k) = Inr True"
        using q v dev by (auto simp: queue_is_effectively_quiescent_def result_simps)
      obtain s1 s' where "dispatch_mut s k FailedQuiescent = Inr s1"
          "completion_mut s1 (disp_completion d) Completion_QuiescedFailure = Inr s'"
        using dispatch_pair_mut [OF d [folded t] c(1)] unfolding t by blast
      then have "\<exists>s'. settle_after_quiescence s (disp_completion d) = Inr s'"
        using d t c cs Ambiguous quiet by (auto simp: settle_after_quiescence_def result_simps)
      then show ?thesis
        by (intro exI [of _ "SettleAfterQuiescence (disp_completion d)"]) auto
    qed (use device_progress [OF dev(1)] dev in auto)
  qed (use r in auto)
qed

lemma queue_progress:
  assumes q: "queue_at s k = Some q" and "queue_state q \<noteq> Queue_Released"
    and "\<And>p. p \<in> set (dispatches s) \<Longrightarrow> \<not> retains_resources (disp_state p)"
  shows "can_step s"
proof (cases "queue_state q = Queue_MayStillAccess")
  case True
  then show ?thesis
    using mut_Inr(6) [OF q] q
    by (intro exI [of _ "EstablishQueueQuiescence k"])
      (auto simp: establish_queue_quiescence_def result_simps)
next
  case False
  then show ?thesis
    using mut_Inr(6) [OF q] assms
    by (intro exI [of _ "ReleaseQueue k"])
      (auto simp: release_queue_def result_simps list_ex_iff)
qed

lemma resource_Live: "st \<noteq> Released \<longleftrightarrow> st = Live"
  by (cases st) auto

lemma code_progress:
  assumes c: "code_at s k = Some c" and "code_state c = Live"
    and "\<And>p. p \<in> set (dispatches s) \<Longrightarrow> \<not> retains_resources (disp_state p)"
  shows "can_step s"
  using mut_Inr(5) [OF c] assms
  by (intro exI [of _ "UnloadCode k"]) (auto simp: unload_code_def result_simps list_ex_iff)

lemma mapping_progress:
  assumes m: "map_at s k = Some m" and "map_state m = Live"
    and "\<And>p. p \<in> set (dispatches s) \<Longrightarrow> \<not> retains_resources (disp_state p)"
    and "\<And>q. q \<in> set (queues s) \<Longrightarrow> queue_state q = Queue_Released"
    and "\<And>c. c \<in> set (loaded_code s) \<Longrightarrow> code_state c = Released"
  shows "can_step s"
  using mut_Inr(4) [OF m] assms
  by (intro exI [of _ "Unmap k"]) (auto simp: unmap_def result_simps list_ex_iff)

lemma allocation_progress:
  assumes a: "alloc_at s k = Some a" and "alloc_state a = Live"
    and "\<And>m. m \<in> set (mappings s) \<Longrightarrow> map_state m = Released"
  shows "can_step s"
  using mut_Inr(3) [OF a] assms
  by (intro exI [of _ "ReleaseAllocation k"])
    (auto simp: release_allocation_def result_simps list_ex_iff)

lemma vm_progress:
  assumes v: "vm_at s k = Some v" and "vm_state v \<noteq> Vm_Released"
    and "\<And>a. a \<in> set (allocations s) \<Longrightarrow> alloc_state a = Released"
    and "\<And>c. c \<in> set (loaded_code s) \<Longrightarrow> code_state c = Released"
    and "\<And>q. q \<in> set (queues s) \<Longrightarrow> queue_state q = Queue_Released"
  shows "can_step s"
proof (cases "vm_state v = Vm_MayStillAccess")
  case True
  then show ?thesis
    using mut_Inr(2) [OF v] v
    by (intro exI [of _ "EstablishVmQuiescence k"])
      (auto simp: establish_vm_quiescence_def result_simps)
next
  case False
  then have "vm_state v = Vm_Active \<or> vm_state v = Vm_Quiescent"
    using assms(2) by (cases "vm_state v") auto
  then show ?thesis
    using mut_Inr(2) [OF v] assms
    by (intro exI [of _ "ReleaseVm k"]) (auto simp: release_vm_def result_simps list_ex_iff)
qed

lemma device_release_progress:
  assumes d: "dev_at s k = Some d" and "dev_state d \<noteq> Device_Released"
    and "\<And>v. v \<in> set (vms s) \<Longrightarrow> vm_state v = Vm_Released"
  shows "can_step s"
proof (cases "dev_state d = Device_Quiescent")
  case True
  then show ?thesis
    using mut_Inr(1) [OF d] assms
    by (intro exI [of _ "ReleaseDevice k"]) (auto simp: release_device_def result_simps list_ex_iff)
next
  case False
  then show ?thesis
    using device_progress [OF d] assms(2) by (cases "dev_state d") auto
qed

lemma not_drained_can_step:
  assumes inv: "global_inv s" and "\<not> drained s"
  shows "can_step s"
proof (rule ccontr)
  assume no: "\<not> can_step s"
  note at = inv_lookup_self [OF inv]
  have d: "\<not> retains_resources (disp_state p)" if "p \<in> set (dispatches s)" for p
    using no dispatch_progress [OF inv at(7) [OF that]] by blast
  have q: "queue_state q = Queue_Released" if "q \<in> set (queues s)" for q
    using no queue_progress [OF at(6) [OF that]] d by blast
  have c: "code_state c = Released" if "c \<in> set (loaded_code s)" for c
    using no code_progress [OF at(5) [OF that]] d resource_Live by blast
  have m: "map_state m = Released" if "m \<in> set (mappings s)" for m
    using no mapping_progress [OF at(4) [OF that]] d q c resource_Live by blast
  have a: "alloc_state a = Released" if "a \<in> set (allocations s)" for a
    using no allocation_progress [OF at(3) [OF that]] m resource_Live by blast
  have v: "vm_state v = Vm_Released" if "v \<in> set (vms s)" for v
    using no vm_progress [OF at(2) [OF that]] a c q by blast
  have "dev_state r = Device_Released" if "r \<in> set (devices s)" for r
    using no device_release_progress [OF at(1) [OF that]] v by blast
  with d q c m a v assms(2) show False
    by (simp add: drained_def list_all_iff)
qed

lemma apply_all_drain:
  "global_inv s \<Longrightarrow> \<exists>ts s'. apply_all s ts = Inr s' \<and> drained s' \<and> length ts \<le> teardown_work s \<and>
     list_all (\<lambda>t. \<not> creates t) ts"
proof (induction "teardown_work s" arbitrary: s rule: less_induct)
  case less
  show ?case
  proof (cases "drained s")
    case True
    then have "apply_all s [] = Inr s \<and> drained s \<and> length [] \<le> teardown_work s \<and>
        list_all (\<lambda>t. \<not> creates t) []"
      by simp
    then show ?thesis by blast
  next
    case False
    then obtain t s1 where t: "\<not> creates t" "apply_transition s t = Inr s1"
      using not_drained_can_step [OF less.prems] by blast
    then have "teardown_work s1 < teardown_work s" "global_inv s1"
      using transition_work_decreases apply_transition_inv [OF less.prems] by auto
    with less.hyps obtain ts s' where "apply_all s1 ts = Inr s'" "drained s'"
        "length ts \<le> teardown_work s1" "list_all (\<lambda>t. \<not> creates t) ts"
      by blast
    with t \<open>teardown_work s1 < teardown_work s\<close> show ?thesis
      by (intro exI [of _ "t # ts"] exI [of _ s']) simp
  qed
qed

text \<open>C3: Teardown never gets stuck: from every reachable state some batch of at most
  \<open>teardown_work s\<close> transitions that add no record is accepted and ends with every device, address
  space, allocation, mapping, code object and queue released and every dispatch settled.\<close>

theorem teardown_always_possible:
  assumes "reachable s"
  shows "\<exists>ts s'. next_all s ts = Inr s' \<and> drained s' \<and> length ts \<le> teardown_work s \<and>
    list_all (\<lambda>t. \<not> creates t) ts"
proof -
  have "next_all s ts = apply_all s ts" for ts
    using reachable_inv [OF assms]
    by (simp add: next_all_def global_inv_validate next_loop_apply_all)
  then show ?thesis
    using apply_all_drain [OF reachable_inv [OF assms]] by simp
qed

theorem teardown_always_possible_witness:
  "\<exists>ts s'. next_all demo_state ts = Inr s' \<and> drained s' \<and> length ts \<le> teardown_work demo_state"
  using teardown_always_possible [OF demo_reachable] by blast

text \<open>C10: Every accepted transition that adds no record strictly reduces the outstanding teardown
  work, so no record can cycle through its states and a teardown ends.\<close>

theorem teardown_terminates:
  assumes "next_state s t = Inr s'" and "\<not> creates t"
  shows "teardown_work s' < teardown_work s"
  using assms transition_work_decreases
  by (auto simp: next_state_def next_all_def and_then_Inr)

theorem teardown_terminates_witness:
  "\<exists>s'. next_state demo_state (MarkDispatchAmbiguous demo_completion) = Inr s' \<and>
     teardown_work s' < teardown_work demo_state"
proof -
  obtain s' where "next_state demo_state (MarkDispatchAmbiguous demo_completion) = Inr s'"
    using demo_ambiguous_step unfolding next_state_def by blast
  then show ?thesis
    using teardown_terminates [of demo_state "MarkDispatchAmbiguous demo_completion" s'] by simp
qed

end
