(* ===== verification/Memory_Pool.thy ===== *)
theory Memory_Pool
  imports Runtime_Identity Byte_Arrays
begin

unbundle bit_operations_syntax

text \<open>
  The bounded reusable allocation pool, \<open>crates/fe2o3-runtime-model/src/memory_pool.rs\<close>. An
  operation returns its result paired with the new pool, because a failing operation may change
  the pool as well. A failed transition hands the lease back inside the failure. The memory kind
  of a pool is carried and never read.
\<close>

section \<open>Records\<close>

definition MAX_MEMORY_POOL_BLOCKS :: nat where
  "MAX_MEMORY_POOL_BLOCKS = 65536"

datatype memory_pool_block_phase = Free | Leased | InFlight | CompletionObserved | Quarantined

fun reusable :: "memory_pool_block_phase \<Rightarrow> bool" where
  "reusable Free = True"
| "reusable _ = False"

definition blocks_reuse :: "memory_pool_block_phase \<Rightarrow> bool" where
  "blocks_reuse phase \<longleftrightarrow> phase \<noteq> Free"

datatype memory_kind =
    HostVisibleCoherent
  | DeviceLocal
  | QueueStorage
  | Kernarg
  | Executable
  | ScratchContextSave

record lease_identity =
  lease_pool :: bytes32
  lease_device :: device_key
  lease_block_id :: u64
  lease_generation :: u64

record memory_pool_lease =
  lease_id :: lease_identity
  requested_bytes :: u64
  lease_alignment :: u64

record memory_pool_block =
  block_id :: u64
  block_generation :: u64
  block_byte_len :: u64
  block_alignment :: u64
  block_phase :: memory_pool_block_phase

datatype memory_pool_error =
    InvalidIdentity
  | InvalidCapacity
  | InvalidRequest
  | CapacityExceeded
  | IdentityExhausted
  | UnknownLease
  | StaleLease
  | IllegalTransition
  | InvariantViolation

record memory_pool_transition_failure =
  failure_error :: memory_pool_error
  failure_lease :: memory_pool_lease

record memory_pool =
  pool_identity :: bytes32
  pool_device :: device_key
  pool_kind :: memory_kind
  byte_capacity :: u64
  block_capacity :: nat
  committed_bytes :: u64
  next_block_id :: u64
  pool_blocks :: "memory_pool_block list"

definition new_pool :: "bytes32 \<Rightarrow> device_key \<Rightarrow> memory_kind \<Rightarrow> u64 \<Rightarrow> nat \<Rightarrow>
    memory_pool_error + memory_pool" where
  "new_pool identity device kind bytes blocks =
     (if identity = fill32 0 \<or> physical device = 0 \<or> generation device = 0 then Inl InvalidIdentity
      else if bytes = 0 \<or> blocks = 0 \<or> MAX_MEMORY_POOL_BLOCKS < blocks then Inl InvalidCapacity
      else Inr \<lparr>pool_identity = identity, pool_device = device, pool_kind = kind,
        byte_capacity = bytes, block_capacity = blocks, committed_bytes = 0, next_block_id = 1,
        pool_blocks = []\<rparr>)"

definition non_reusable_block_count :: "memory_pool \<Rightarrow> nat" where
  "non_reusable_block_count p = length (filter (\<lambda>b. blocks_reuse (block_phase b)) (pool_blocks p))"

section \<open>Leases\<close>

text \<open>\<open>iter().enumerate().filter(p).min_by_key(k)\<close>: the first index of the least key.\<close>

fun min_index :: "('a \<Rightarrow> bool) \<Rightarrow> ('a \<Rightarrow> 'k::linorder) \<Rightarrow> nat \<Rightarrow> 'a list \<Rightarrow> (nat \<times> 'k) option" where
  "min_index p k i [] = None"
| "min_index p k i (x # xs) =
     (let rest = min_index p k (Suc i) xs
      in if p x
         then (case rest of
             None \<Rightarrow> Some (i, k x)
           | Some (j, key) \<Rightarrow> if k x \<le> key then Some (i, k x) else rest)
         else rest)"

definition reusable_index :: "memory_pool \<Rightarrow> u64 \<Rightarrow> u64 \<Rightarrow> nat option" where
  "reusable_index p requested alignment =
     map_option fst (min_index
       (\<lambda>b. block_phase b = Free \<and> requested \<le> block_byte_len b \<and> alignment \<le> block_alignment b)
       (\<lambda>b. (block_byte_len b, block_alignment b, block_id b)) 0 (pool_blocks p))"

definition round_up :: "u64 \<Rightarrow> u64 \<Rightarrow> u64 option" where
  "round_up requested alignment =
     map_option (\<lambda>bytes. bytes AND NOT (alignment - 1)) (checked_add requested (alignment - 1))"

text \<open>The branch that commits a new block; it returns the index of the block.\<close>

definition grow :: "memory_pool \<Rightarrow> u64 \<Rightarrow> u64 \<Rightarrow> memory_pool_error + nat \<times> memory_pool" where
  "grow p requested alignment =
     (if block_capacity p \<le> length (pool_blocks p) then Inl CapacityExceeded else
      and_then (ok_or (round_up requested alignment) InvalidRequest) (\<lambda>rounded.
      and_then (ok_or (case checked_add (committed_bytes p) rounded of
            None \<Rightarrow> None
          | Some bytes \<Rightarrow> if bytes \<le> byte_capacity p then Some bytes else None) CapacityExceeded) (\<lambda>committed.
      and_then (ok_or (checked_add (next_block_id p) 1) IdentityExhausted) (\<lambda>next_id.
      Inr (length (pool_blocks p), p\<lparr>next_block_id := next_id, committed_bytes := committed,
        pool_blocks := pool_blocks p @
          [\<lparr>block_id = next_block_id p, block_generation = 1, block_byte_len = rounded,
            block_alignment = alignment, block_phase = Free\<rparr>]\<rparr>)))))"

definition set_phase :: "memory_pool \<Rightarrow> nat \<Rightarrow> memory_pool_block_phase \<Rightarrow> memory_pool" where
  "set_phase p i phase =
     p\<lparr>pool_blocks := (pool_blocks p)[i := (pool_blocks p ! i)\<lparr>block_phase := phase\<rparr>]\<rparr>"

definition lease_of :: "memory_pool \<Rightarrow> nat \<Rightarrow> u64 \<Rightarrow> u64 \<Rightarrow> memory_pool_lease" where
  "lease_of p i requested alignment =
     \<lparr>lease_id = \<lparr>lease_pool = pool_identity p, lease_device = pool_device p,
        lease_block_id = block_id (pool_blocks p ! i),
        lease_generation = block_generation (pool_blocks p ! i)\<rparr>,
      requested_bytes = requested, lease_alignment = alignment\<rparr>"

definition lease_model_only :: "memory_pool \<Rightarrow> u64 \<Rightarrow> u64 \<Rightarrow>
    memory_pool_error + memory_pool_lease \<times> memory_pool" where
  "lease_model_only p requested alignment =
     (if requested = 0 \<or> alignment = 0 \<or> \<not> is_power_of_two alignment then Inl InvalidRequest
      else and_then (case reusable_index p requested alignment of
            Some index \<Rightarrow> Inr (index, p)
          | None \<Rightarrow> grow p requested alignment) (\<lambda>(index, p).
        Inr (lease_of p index requested alignment, set_phase p index Leased)))"

definition position :: "('a \<Rightarrow> bool) \<Rightarrow> 'a list \<Rightarrow> nat option" where
  "position q xs = find (\<lambda>i. q (xs ! i)) [0..<length xs]"

definition lease_index :: "memory_pool \<Rightarrow> memory_pool_lease \<Rightarrow> memory_pool_error + nat" where
  "lease_index p lease =
     (if lease_pool (lease_id lease) \<noteq> pool_identity p \<or> lease_device (lease_id lease) \<noteq> pool_device p
      then Inl UnknownLease
      else and_then (ok_or (position (\<lambda>b. block_id b = lease_block_id (lease_id lease)) (pool_blocks p))
          UnknownLease) (\<lambda>index.
        if block_generation (pool_blocks p ! index) \<noteq> lease_generation (lease_id lease)
        then Inl StaleLease else Inr index))"

section \<open>Transitions\<close>

definition transition_failure :: "memory_pool_error \<Rightarrow> memory_pool_lease \<Rightarrow> memory_pool_transition_failure" where
  "transition_failure error lease = \<lparr>failure_error = error, failure_lease = lease\<rparr>"

definition pool_transition :: "memory_pool \<Rightarrow> memory_pool_lease \<Rightarrow> memory_pool_block_phase \<Rightarrow>
    memory_pool_block_phase \<Rightarrow> (memory_pool_transition_failure + memory_pool_lease) \<times> memory_pool" where
  "pool_transition p lease expected next =
     (case lease_index p lease of
        Inl error \<Rightarrow> (Inl (transition_failure error lease), p)
      | Inr index \<Rightarrow>
          if block_phase (pool_blocks p ! index) \<noteq> expected
          then (Inl (transition_failure IllegalTransition lease), p)
          else (Inr lease, set_phase p index next))"

definition mark_in_flight_model_only :: "memory_pool \<Rightarrow> memory_pool_lease \<Rightarrow>
    (memory_pool_transition_failure + memory_pool_lease) \<times> memory_pool" where
  "mark_in_flight_model_only p lease = pool_transition p lease Leased InFlight"

definition observe_completion_model_only :: "memory_pool \<Rightarrow> memory_pool_lease \<Rightarrow>
    (memory_pool_transition_failure + memory_pool_lease) \<times> memory_pool" where
  "observe_completion_model_only p lease = pool_transition p lease InFlight CompletionObserved"

definition release_model_only :: "memory_pool \<Rightarrow> memory_pool_lease \<Rightarrow>
    (memory_pool_transition_failure + unit) \<times> memory_pool" where
  "release_model_only p lease =
     (case lease_index p lease of
        Inl error \<Rightarrow> (Inl (transition_failure error lease), p)
      | Inr index \<Rightarrow>
          let block = pool_blocks p ! index
          in if \<not> (block_phase block = Leased \<or> block_phase block = CompletionObserved)
             then (Inl (transition_failure IllegalTransition lease), p)
             else (case checked_add (block_generation block) 1 of
                 None \<Rightarrow> (Inl (transition_failure IdentityExhausted lease), set_phase p index Quarantined)
               | Some next_generation \<Rightarrow>
                   (Inr (), p\<lparr>pool_blocks := (pool_blocks p)[index :=
                      block\<lparr>block_generation := next_generation, block_phase := Free\<rparr>]\<rparr>)))"

definition quarantine_model_only :: "memory_pool \<Rightarrow> memory_pool_lease \<Rightarrow>
    (memory_pool_transition_failure + unit) \<times> memory_pool" where
  "quarantine_model_only p lease =
     (case lease_index p lease of
        Inl error \<Rightarrow> (Inl (transition_failure error lease), p)
      | Inr index \<Rightarrow>
          if block_phase (pool_blocks p ! index) = Free
          then (Inl (transition_failure IllegalTransition lease), p)
          else (Inr (), set_phase p index Quarantined))"

text \<open>\<open>try_fold(0, checked_add)\<close> over the byte lengths.\<close>

fun checked_sum :: "u64 \<Rightarrow> u64 list \<Rightarrow> u64 option" where
  "checked_sum acc [] = Some acc"
| "checked_sum acc (x # xs) =
     (case checked_add acc x of None \<Rightarrow> None | Some acc' \<Rightarrow> checked_sum acc' xs)"

definition trim_model_only :: "memory_pool \<Rightarrow> (memory_pool_error + u64) \<times> memory_pool" where
  "trim_model_only p =
     (case checked_sum 0 (map block_byte_len (filter (\<lambda>b. block_phase b = Free) (pool_blocks p))) of
        None \<Rightarrow> (Inl InvariantViolation, p)
      | Some released \<Rightarrow>
          let p = p\<lparr>pool_blocks := filter (\<lambda>b. block_phase b \<noteq> Free) (pool_blocks p)\<rparr>
          in (case checked_sub (committed_bytes p) released of
                None \<Rightarrow> (Inl InvariantViolation, p)
              | Some committed \<Rightarrow> (Inr released, p\<lparr>committed_bytes := committed\<rparr>)))"

section \<open>Validator\<close>

definition block_invalid :: "memory_pool_block list \<Rightarrow> memory_pool_block \<Rightarrow> bool" where
  "block_invalid prior b \<longleftrightarrow> block_id b = 0 \<or> block_generation b = 0 \<or> block_byte_len b = 0 \<or>
     block_alignment b = 0 \<or> \<not> is_power_of_two (block_alignment b) \<or>
     list_ex (\<lambda>b'. block_id b' = block_id b) prior"

definition validate_pool :: "memory_pool \<Rightarrow> memory_pool_error + unit" where
  "validate_pool p =
     (if pool_identity p = fill32 0 \<or> physical (pool_device p) = 0 \<or> generation (pool_device p) = 0 \<or>
         block_capacity p < length (pool_blocks p) \<or> MAX_MEMORY_POOL_BLOCKS < block_capacity p \<or>
         next_block_id p = 0 \<or>
         list_ex (\<lambda>i. block_invalid (take i (pool_blocks p)) (pool_blocks p ! i)) [0..<length (pool_blocks p)]
      then Inl InvariantViolation
      else and_then (ok_or (checked_sum 0 (map block_byte_len (pool_blocks p))) InvariantViolation)
        (\<lambda>committed.
          if committed \<noteq> committed_bytes p \<or> byte_capacity p < committed
          then Inl InvariantViolation else Inr ()))"

end
