(* ===== verification/Memory_Pool_Invariant.thy ===== *)
theory Memory_Pool_Invariant
  imports Memory_Pool
begin

text \<open>
  The memory pool keeps its validator satisfied.  \<open>round_up\<close> is rounding to a multiple of a power of two,
  \<open>reusable_index\<close> is the best fit, and \<open>pool_inv\<close> is what every operation preserves: what
  \<open>validate_pool\<close> checks, and that every block id is below the next one to be issued.
\<close>

unbundle bit_operations_syntax

section \<open>Arithmetic\<close>

lemma checked_sum_Some:
  "checked_sum acc xs = Some s \<longleftrightarrow> unat s = unat acc + sum_list (map unat xs)"
proof (induction xs arbitrary: acc)
  case Nil
  then show ?case
    by (auto simp: word_unat_eq_iff)
next
  case (Cons x xs)
  show ?case
  proof (cases "unat acc + unat x < 2 ^ 64")
    case True
    then have "checked_add acc x = Some (acc + x)" "unat (acc + x) = unat acc + unat x"
      by (simp_all add: checked_add_def unat_plus_no_overflow)
    then show ?thesis
      using Cons [of "acc + x"] by (simp add: add.assoc)
  next
    case False
    moreover have "unat s < 2 ^ 64"
      using unat_less_2p [of s] by simp
    ultimately show ?thesis
      by (simp add: checked_add_def)
  qed
qed

lemma and_not_mask:
  assumes "unat (m :: 'a::len word) = 2 ^ k" and "k < LENGTH('a)"
  shows "unat (w AND NOT (m - 1)) = unat w - unat w mod 2 ^ k"
proof -
  have "m = of_nat (unat m)"
    by simp
  then have "m = 2 ^ k"
    by (simp add: assms(1))
  then have "m - 1 = mask k"
    by (simp add: mask_eq_exp_minus_1)
  then have "w AND NOT (m - 1) = push_bit k (drop_bit k w)"
    by (auto intro!: bit_eqI simp: bit_simps)
  then have "unat (w AND NOT (m - 1)) = take_bit LENGTH('a) (push_bit k (drop_bit k (unat w)))"
    by (simp only: unsigned_push_bit_eq unat_drop_bit_eq)
  also have "\<dots> = (unat w div 2 ^ k * 2 ^ k) mod 2 ^ LENGTH('a)"
    by (simp only: take_bit_eq_mod push_bit_eq_mult drop_bit_eq_div)
  also have "\<dots> = unat w div 2 ^ k * 2 ^ k"
    using unat_less_2p [of w] by (simp add: le_less_trans [OF div_times_less_eq_dividend])
  finally show ?thesis
    by (simp add: minus_mod_eq_div_mult)
qed

lemma round_up_nat:
  fixes n r :: nat
  assumes "0 < n"
  defines "x \<equiv> (r + (n - 1)) - (r + (n - 1)) mod n"
  shows "r \<le> x" "x < r + n" "n dvd x"
proof -
  have "(r + (n - 1)) mod n \<le> n - 1"
    using mod_less_divisor [OF assms(1), of "r + (n - 1)"] by linarith
  then show "r \<le> x" "x < r + n"
    using assms(1) unfolding x_def by linarith+
  show "n dvd x"
    unfolding x_def by (rule dvd_minus_mod)
qed

lemma round_up_spec:
  assumes "is_power_of_two alignment" and "round_up requested alignment = Some rounded"
  shows "unat requested \<le> unat rounded" "unat rounded < unat requested + unat alignment"
    "unat alignment dvd unat rounded"
proof -
  obtain k where k: "unat alignment = 2 ^ k" "k < 64"
    using assms(1) by (auto simp: is_power_of_two_iff)
  have "unat (alignment - 1) = unat alignment - 1"
    using k by (simp add: unat_minus_one is_power_of_two_nonzero [OF assms(1)])
  moreover have sum: "unat requested + unat (alignment - 1) < 2 ^ 64"
    "rounded = (requested + (alignment - 1)) AND NOT (alignment - 1)"
    using assms(2) by (auto simp: round_up_def checked_add_Some)
  ultimately have "unat rounded = (unat requested + (2 ^ k - 1)) - (unat requested + (2 ^ k - 1)) mod 2 ^ k"
    using and_not_mask [OF k(1), of "requested + (alignment - 1)"] k
    by (simp add: unat_plus_no_overflow)
  then show "unat requested \<le> unat rounded" "unat rounded < unat requested + unat alignment"
    "unat alignment dvd unat rounded"
    using round_up_nat [of "2 ^ k" "unat requested"] by (simp_all only: k(1)) simp_all
qed

section \<open>Best fit\<close>

lemma min_index_None: "min_index q k i xs = None \<longleftrightarrow> (\<forall>x\<in>set xs. \<not> q x)"
  by (induction xs arbitrary: i) (auto simp: Let_def split: option.splits)

lemma min_index_Some:
  "min_index q k i xs = Some (j, key) \<Longrightarrow> i \<le> j \<and> j < i + length xs \<and> q (xs ! (j - i)) \<and>
     key = k (xs ! (j - i)) \<and> (\<forall>x\<in>set xs. q x \<longrightarrow> key \<le> k x)"
proof (induction xs arbitrary: i j key)
  case (Cons x xs)
  show ?case
  proof (cases "min_index q k (Suc i) xs")
    case None
    then show ?thesis
      using Cons.prems min_index_None [of q k "Suc i" xs] by (auto simp: Let_def split: if_splits)
  next
    case (Some r)
    obtain j' key' where r: "r = (j', key')"
      by (cases r)
    note IH = Cons.IH [OF Some [unfolded r]]
    have "xs ! (j' - Suc i) = (x # xs) ! (j' - i)"
      using IH by (simp add: nth_Cons')
    then show ?thesis
      using Cons.prems Some r IH by (auto simp: Let_def not_le split: if_splits intro: order_trans less_imp_le)
  qed
qed simp

abbreviation fits :: "u64 \<Rightarrow> u64 \<Rightarrow> memory_pool_block \<Rightarrow> bool" where
  "fits requested alignment b \<equiv>
     block_phase b = Free \<and> requested \<le> block_byte_len b \<and> alignment \<le> block_alignment b"

abbreviation fit_key :: "memory_pool_block \<Rightarrow> u64 \<times> u64 \<times> u64" where
  "fit_key b \<equiv> (block_byte_len b, block_alignment b, block_id b)"

lemma reusable_index_Some:
  "reusable_index p requested alignment = Some i \<Longrightarrow> i < length (pool_blocks p) \<and>
     fits requested alignment (pool_blocks p ! i) \<and>
     (\<forall>b\<in>set (pool_blocks p). fits requested alignment b \<longrightarrow> fit_key (pool_blocks p ! i) \<le> fit_key b)"
  unfolding reusable_index_def by (auto dest!: min_index_Some)

lemma reusable_index_None:
  "reusable_index p requested alignment = None \<longleftrightarrow> (\<forall>b\<in>set (pool_blocks p). \<not> fits requested alignment b)"
  unfolding reusable_index_def by (simp add: min_index_None)

section \<open>Invariant\<close>

definition block_ok :: "memory_pool_block \<Rightarrow> bool" where
  "block_ok b \<longleftrightarrow> block_id b \<noteq> 0 \<and> block_generation b \<noteq> 0 \<and> block_byte_len b \<noteq> 0 \<and>
     is_power_of_two (block_alignment b)"

definition pool_header_ok :: "memory_pool \<Rightarrow> bool" where
  "pool_header_ok p \<longleftrightarrow> pool_identity p \<noteq> fill32 0 \<and> physical (pool_device p) \<noteq> 0 \<and>
     generation (pool_device p) \<noteq> 0 \<and> block_capacity p \<le> MAX_MEMORY_POOL_BLOCKS"

definition committed_ok :: "memory_pool \<Rightarrow> bool" where
  "committed_ok p \<longleftrightarrow> sum_list (map (unat \<circ> block_byte_len) (pool_blocks p)) = unat (committed_bytes p) \<and>
     committed_bytes p \<le> byte_capacity p"

definition pool_inv :: "memory_pool \<Rightarrow> bool" where
  "pool_inv p \<longleftrightarrow> pool_header_ok p \<and> length (pool_blocks p) \<le> block_capacity p \<and> committed_ok p \<and>
     next_block_id p \<noteq> 0 \<and> distinct (map block_id (pool_blocks p)) \<and>
     (\<forall>b\<in>set (pool_blocks p). block_ok b \<and> block_id b < next_block_id p)"

lemma block_invalid_iff:
  "list_ex (\<lambda>i. block_invalid (take i bs) (bs ! i)) [0..<length bs] \<longleftrightarrow>
     \<not> (distinct (map block_id bs) \<and> (\<forall>b\<in>set bs. block_ok b))"
proof -
  have ids: "distinct (map block_id bs) \<longleftrightarrow>
      (\<forall>i<length bs. \<not> list_ex (\<lambda>b'. block_id b' = block_id (bs ! i)) (take i bs))"
  proof -
    have "list_ex (\<lambda>b'. block_id b' = key) (take i bs) \<longleftrightarrow> (\<exists>j<i. block_id (bs ! j) = key)"
      if "i < length bs" for i key
      using that by (auto simp: list_ex_iff nth_image [symmetric])
    then show ?thesis
      by (auto simp: distinct_conv_nth) (metis linorder_neqE_nat)
  qed
  have oks: "(\<forall>b\<in>set bs. block_ok b) \<longleftrightarrow> (\<forall>i<length bs. block_ok (bs ! i))"
    by (metis in_set_conv_nth)
  have inv: "block_invalid prior b \<longleftrightarrow> \<not> block_ok b \<or> list_ex (\<lambda>b'. block_id b' = block_id b) prior" for prior b
    by (auto simp: block_invalid_def block_ok_def dest: is_power_of_two_nonzero)
  have ex: "list_ex P [0..<length bs] \<longleftrightarrow> (\<exists>i<length bs. P i)" for P
    by (auto simp: list_ex_iff)
  show ?thesis
    unfolding ex inv ids oks by blast
qed

lemma validate_pool_iff:
  "validate_pool p = Inr () \<longleftrightarrow> pool_header_ok p \<and> length (pool_blocks p) \<le> block_capacity p \<and>
     committed_ok p \<and> next_block_id p \<noteq> 0 \<and> distinct (map block_id (pool_blocks p)) \<and>
     (\<forall>b\<in>set (pool_blocks p). block_ok b)"
  unfolding validate_pool_def block_invalid_iff
  by (auto simp: result_simps checked_sum_Some pool_header_ok_def committed_ok_def o_def not_less)

section \<open>Preservation\<close>

lemma map_update_same: "f x = f (xs ! i) \<Longrightarrow> map f (xs[i := x]) = map f xs"
  by (metis list_update_beyond list_update_id map_update not_less nth_map)

lemma pool_inv_update:
  assumes inv: "pool_inv p" and i: "i < length (pool_blocks p)"
    and same: "block_id b = block_id (pool_blocks p ! i)" "block_byte_len b = block_byte_len (pool_blocks p ! i)"
      "block_alignment b = block_alignment (pool_blocks p ! i)" and "block_generation b \<noteq> 0"
  shows "pool_inv (p\<lparr>pool_blocks := (pool_blocks p)[i := b]\<rparr>)"
proof -
  have old: "block_ok (pool_blocks p ! i)" "block_id (pool_blocks p ! i) < next_block_id p"
    using inv i nth_mem by (auto simp: pool_inv_def)
  have "block_ok b' \<and> block_id b' < next_block_id p" if "b' \<in> set ((pool_blocks p)[i := b])" for b'
    using set_update_subset_insert [of "pool_blocks p" i b] that inv old same assms(6)
    by (auto simp: pool_inv_def block_ok_def)
  then show ?thesis
    using inv same
    by (simp add: pool_inv_def pool_header_ok_def committed_ok_def map_update_same [of block_id]
        map_update_same [of "unat \<circ> block_byte_len"])
qed

lemma set_phase_inv:
  assumes "pool_inv p" and "i < length (pool_blocks p)"
  shows "pool_inv (set_phase p i phase)"
proof -
  have "block_generation (pool_blocks p ! i) \<noteq> 0"
    using assms nth_mem by (fastforce simp: pool_inv_def block_ok_def)
  then show ?thesis
    unfolding set_phase_def using assms by (intro pool_inv_update) auto
qed

lemma position_Some:
  "position q xs = Some i \<Longrightarrow> i < length xs \<and> q (xs ! i)"
  by (auto simp: position_def find_Some_iff)

lemma lease_index_Inr:
  "lease_index p lease = Inr i \<Longrightarrow> i < length (pool_blocks p) \<and>
     lease_id lease = \<lparr>lease_pool = pool_identity p, lease_device = pool_device p,
       lease_block_id = block_id (pool_blocks p ! i), lease_generation = block_generation (pool_blocks p ! i)\<rparr>"
  by (cases "lease_id lease") (auto simp: lease_index_def result_simps dest!: position_Some)

lemma grow_Inr:
  assumes "grow p requested alignment = Inr (i, p')"
  obtains rounded next_id where "round_up requested alignment = Some rounded"
    "i = length (pool_blocks p)" "length (pool_blocks p) < block_capacity p"
    "unat (committed_bytes p') = unat (committed_bytes p) + unat rounded" "committed_bytes p' \<le> byte_capacity p"
    "unat next_id = Suc (unat (next_block_id p))"
    "p' = p\<lparr>next_block_id := next_id, committed_bytes := committed_bytes p',
      pool_blocks := pool_blocks p @
        [\<lparr>block_id = next_block_id p, block_generation = 1, block_byte_len = rounded,
          block_alignment = alignment, block_phase = Free\<rparr>]\<rparr>"
proof -
  obtain rounded where r: "round_up requested alignment = Some rounded" "length (pool_blocks p) < block_capacity p"
    and c: "unat (committed_bytes p) + unat rounded < 2 ^ 64" "committed_bytes p + rounded \<le> byte_capacity p"
    and n: "unat (next_block_id p) + unat (1 :: u64) < 2 ^ 64"
    and p': "i = length (pool_blocks p)" "p' = p\<lparr>next_block_id := next_block_id p + 1,
      committed_bytes := committed_bytes p + rounded, pool_blocks := pool_blocks p @
        [\<lparr>block_id = next_block_id p, block_generation = 1, block_byte_len = rounded,
          block_alignment = alignment, block_phase = Free\<rparr>]\<rparr>"
    using assms by (auto simp: grow_def result_simps checked_add_Some split: option.splits if_splits)
  show thesis
    using that [OF r(1) p'(1) r(2), of "next_block_id p + 1"] c
      unat_plus_no_overflow [of "committed_bytes p" rounded] unat_plus_no_overflow [of "next_block_id p" 1] n
    by (simp add: p'(2))
qed

lemma grow_inv:
  assumes inv: "pool_inv p" and ok: "requested \<noteq> 0" "is_power_of_two alignment"
    and grow: "grow p requested alignment = Inr (i, p')"
  shows "pool_inv p'"
  using grow
proof (rule grow_Inr)
  fix rounded next_id
  assume r: "round_up requested alignment = Some rounded" and "length (pool_blocks p) < block_capacity p"
    and c: "unat (committed_bytes p') = unat (committed_bytes p) + unat rounded" "committed_bytes p' \<le> byte_capacity p"
    and n: "unat next_id = Suc (unat (next_block_id p))"
    and p': "p' = p\<lparr>next_block_id := next_id, committed_bytes := committed_bytes p',
      pool_blocks := pool_blocks p @
        [\<lparr>block_id = next_block_id p, block_generation = 1, block_byte_len = rounded,
          block_alignment = alignment, block_phase = Free\<rparr>]\<rparr>"
  have "rounded \<noteq> 0"
    using round_up_spec(1) [OF ok(2) r] ok(1) by (auto simp: unat_eq_0)
  moreover have lt: "next_block_id p < next_id" "next_id \<noteq> 0"
    using n by (auto simp: word_less_nat_alt)
  moreover have "next_block_id p \<notin> block_id ` set (pool_blocks p)"
    using inv by (auto simp: pool_inv_def)
  moreover have "b \<in> set (pool_blocks p) \<Longrightarrow> block_id b < next_id" for b
    using inv lt(1) by (auto simp: pool_inv_def intro: less_trans)
  ultimately have "pool_inv (p\<lparr>next_block_id := next_id, committed_bytes := committed_bytes p',
      pool_blocks := pool_blocks p @
        [\<lparr>block_id = next_block_id p, block_generation = 1, block_byte_len = rounded,
          block_alignment = alignment, block_phase = Free\<rparr>]\<rparr>)"
    using inv c ok(2) \<open>length (pool_blocks p) < block_capacity p\<close>
    by (auto simp: pool_inv_def pool_header_ok_def committed_ok_def block_ok_def)
  then show ?thesis
    using p' by simp
qed

lemma lease_cases:
  assumes "lease_model_only p requested alignment = Inr (lease, p')"
  obtains (reuse) i where "requested \<noteq> 0" "is_power_of_two alignment"
      "reusable_index p requested alignment = Some i"
      "lease = lease_of p i requested alignment" "p' = set_phase p i Leased"
  | (fresh) i q where "requested \<noteq> 0" "is_power_of_two alignment"
      "reusable_index p requested alignment = None" "grow p requested alignment = Inr (i, q)"
      "lease = lease_of q i requested alignment" "p' = set_phase q i Leased"
  using assms that
  by (auto simp: lease_model_only_def result_simps split: if_splits option.splits)

lemma grow_index:
  "grow p requested alignment = Inr (i, q) \<Longrightarrow> i = length (pool_blocks p) \<and>
     length (pool_blocks q) = Suc (length (pool_blocks p))"
  by (auto simp: grow_def result_simps)

lemma lease_inv:
  assumes inv: "pool_inv p" and lease: "lease_model_only p requested alignment = Inr (lease, p')"
  shows "pool_inv p'"
  using lease
proof (cases rule: lease_cases)
  case (reuse i)
  then show ?thesis
    using reusable_index_Some set_phase_inv [OF inv] by blast
next
  case (fresh i q)
  have "i < length (pool_blocks q)"
    using grow_index [OF fresh(4)] by simp
  then show ?thesis
    using grow_inv [OF inv fresh(1,2,4)] set_phase_inv fresh(6) by blast
qed

lemma pool_transition_cases:
  "pool_transition p lease expected next = (r, p') \<Longrightarrow>
     (p' = p \<and> (\<exists>f. r = Inl f)) \<or>
     (\<exists>i. lease_index p lease = Inr i \<and> block_phase (pool_blocks p ! i) = expected \<and> r = Inr lease \<and>
        p' = set_phase p i next)"
  by (auto simp: pool_transition_def split: sum.splits if_splits)

lemma pool_transition_inv: "\<lbrakk>pool_inv p; pool_transition p lease expected next = (r, p')\<rbrakk> \<Longrightarrow> pool_inv p'"
  using pool_transition_cases lease_index_Inr set_phase_inv by metis

lemma release_cases:
  "release_model_only p lease = (r, p') \<Longrightarrow>
     (p' = p \<and> (\<exists>f. r = Inl f)) \<or>
     (\<exists>i. lease_index p lease = Inr i \<and> block_phase (pool_blocks p ! i) \<in> {Leased, CompletionObserved} \<and>
        ((\<exists>f. r = Inl f) \<and> p' = set_phase p i Quarantined \<or>
         r = Inr () \<and> unat (block_generation (pool_blocks p ! i)) + 1 < 2 ^ 64 \<and>
         p' = p\<lparr>pool_blocks := (pool_blocks p)[i := (pool_blocks p ! i)
           \<lparr>block_generation := block_generation (pool_blocks p ! i) + 1, block_phase := Free\<rparr>]\<rparr>))"
  by (auto simp: release_model_only_def Let_def checked_add_def split: sum.splits if_splits)

lemma unat_Suc: "unat (g :: u64) + 1 < 2 ^ 64 \<Longrightarrow> unat (g + 1) = Suc (unat g)"
  using unat_plus_no_overflow [of g 1] by simp

lemma release_inv: "\<lbrakk>pool_inv p; release_model_only p lease = (r, p')\<rbrakk> \<Longrightarrow> pool_inv p'"
proof (drule release_cases, elim disjE exE conjE)
  fix i
  assume inv: "pool_inv p" and i: "lease_index p lease = Inr i"
    and g: "unat (block_generation (pool_blocks p ! i)) + 1 < 2 ^ 64"
    and p': "p' = p\<lparr>pool_blocks := (pool_blocks p)[i := (pool_blocks p ! i)
      \<lparr>block_generation := block_generation (pool_blocks p ! i) + 1, block_phase := Free\<rparr>]\<rparr>"
  have "block_generation (pool_blocks p ! i) + 1 \<noteq> 0"
    using unat_Suc [OF g] by (metis nat.distinct(1) unat_0)
  then show "pool_inv p'"
    unfolding p' using lease_index_Inr [OF i] by (intro pool_inv_update [OF inv]) simp_all
next
  fix i
  assume "pool_inv p" "lease_index p lease = Inr i" "p' = set_phase p i Quarantined"
  then show "pool_inv p'"
    using lease_index_Inr set_phase_inv by blast
qed simp

lemma quarantine_cases:
  "quarantine_model_only p lease = (r, p') \<Longrightarrow>
     (p' = p \<and> (\<exists>f. r = Inl f)) \<or>
     (\<exists>i. lease_index p lease = Inr i \<and> block_phase (pool_blocks p ! i) \<noteq> Free \<and> r = Inr () \<and>
        p' = set_phase p i Quarantined)"
  by (auto simp: quarantine_model_only_def split: sum.splits if_splits)

lemma quarantine_inv: "\<lbrakk>pool_inv p; quarantine_model_only p lease = (r, p')\<rbrakk> \<Longrightarrow> pool_inv p'"
  using quarantine_cases lease_index_Inr set_phase_inv by metis

lemma sum_list_partition:
  "sum_list (map f xs) = sum_list (map f (filter q xs)) + (sum_list (map f (filter (\<lambda>x. \<not> q x) xs)) :: nat)"
  by (induction xs) auto

lemma checked_sum_exists:
  "unat acc + sum_list (map unat xs) < 2 ^ 64 \<Longrightarrow> \<exists>s. checked_sum acc xs = Some s"
  by (rule exI [of _ "of_nat (unat acc + sum_list (map unat xs))"])
    (simp add: checked_sum_Some unat_of_nat del: of_nat_add)

definition trimmed :: "memory_pool \<Rightarrow> u64 \<Rightarrow> memory_pool" where
  "trimmed p released = p\<lparr>pool_blocks := filter (\<lambda>b. block_phase b \<noteq> Free) (pool_blocks p),
     committed_bytes := committed_bytes p - released\<rparr>"

lemma trim_spec:
  assumes inv: "pool_inv p"
  obtains released where "trim_model_only p = (Inr released, trimmed p released)" "pool_inv (trimmed p released)"
proof -
  let ?free = "filter (\<lambda>b. block_phase b = Free) (pool_blocks p)"
  let ?kept = "filter (\<lambda>b. block_phase b \<noteq> Free) (pool_blocks p)"
  let ?sum = "\<lambda>bs. sum_list (map (unat \<circ> block_byte_len) bs)"
  have total: "?sum ?free + ?sum ?kept = unat (committed_bytes p)"
    using inv sum_list_partition [of "unat \<circ> block_byte_len" "pool_blocks p" "\<lambda>b. block_phase b = Free"]
    by (simp add: pool_inv_def committed_ok_def)
  then have "?sum ?free < 2 ^ 64"
    using unat_less_2p [of "committed_bytes p"] by simp
  then obtain released where rel: "checked_sum 0 (map block_byte_len ?free) = Some released"
    using checked_sum_exists [of 0 "map block_byte_len ?free"] by auto
  then have sum: "unat released = ?sum ?free"
    by (simp add: checked_sum_Some)
  then have le: "released \<le> committed_bytes p"
    using total by (simp add: word_le_nat_alt)
  then have sub: "unat (committed_bytes p - released) = ?sum ?kept"
    using total sum by (simp add: unat_sub)
  have "committed_bytes p - released \<le> byte_capacity p"
    using inv sub total by (auto simp: pool_inv_def committed_ok_def word_le_nat_alt)
  then have "pool_inv (trimmed p released)"
    using inv sub by (auto simp: trimmed_def pool_inv_def pool_header_ok_def committed_ok_def
        distinct_map_filter intro: le_trans [OF length_filter_le])
  moreover have "trim_model_only p = (Inr released, trimmed p released)"
    using le by (simp add: trim_model_only_def rel checked_sub_def trimmed_def word_le_nat_alt)
  ultimately show thesis
    using that by blast
qed

end
