(* ===== verification/Simulation.thy ===== *)
theory Simulation
  imports Fe2o3_Prelude
begin

text \<open>
  Runs of an executable component, runs of an abstract specification given as a step relation, and the
  interface between them: a \<open>forward_simulation\<close> relates the states so that each step of the
  component is a step of the specification with the same output, and then so is each run.
\<close>

section \<open>Runs of a deterministic component\<close>

fun run_ops :: "('op \<Rightarrow> 's \<Rightarrow> 'out \<times> 's) \<Rightarrow> 'op list \<Rightarrow> 's \<Rightarrow> 'out list \<times> 's" where
  "run_ops step [] s = ([], s)"
| "run_ops step (op # ops) s =
     (let (out, s') = step op s; (outs, s'') = run_ops step ops s' in (out # outs, s''))"

inductive spec_run :: "('a \<Rightarrow> 'op \<Rightarrow> 'out \<Rightarrow> 'a \<Rightarrow> bool) \<Rightarrow> 'a \<Rightarrow> 'op list \<Rightarrow> 'out list \<Rightarrow> 'a \<Rightarrow> bool"
  for spec where
  spec_run_Nil: "spec_run spec a [] [] a"
| spec_run_Cons: "\<lbrakk>spec a op out a'; spec_run spec a' ops outs a''\<rbrakk> \<Longrightarrow> spec_run spec a (op # ops) (out # outs) a''"

inductive_cases spec_run_NilE: "spec_run spec a [] outs b"
inductive_cases spec_run_ConsE: "spec_run spec a (op # ops) outs b"

lemma run_ops_Cons:
  "run_ops step (op # ops) s = (outs, s') \<Longrightarrow>
     \<exists>out outs' t. outs = out # outs' \<and> step op s = (out, t) \<and> run_ops step ops t = (outs', s')"
  by (auto simp: Let_def split: prod.splits)

lemma run_ops_invariant:
  assumes "run_ops step ops s = (outs, s')" and "good s"
    and "\<And>op s out s'. \<lbrakk>good s; op \<in> set ops; step op s = (out, s')\<rbrakk> \<Longrightarrow> good s'"
  shows "good s'"
  using assms
proof (induction ops arbitrary: s outs)
  case (Cons op ops)
  obtain out outs' t where "step op s = (out, t)" "run_ops step ops t = (outs', s')"
    using run_ops_Cons [OF Cons.prems(1)] by blast
  then show ?case
    using Cons.IH [of t outs'] Cons.prems(2,3) by (meson list.set_intros)
qed simp

lemma spec_run_invariant:
  assumes "spec_run spec a ops outs b" and "good a"
    and "\<And>a op out b. \<lbrakk>good a; op \<in> set ops; spec a op out b\<rbrakk> \<Longrightarrow> good b"
  shows "good b"
  using assms
proof (induction rule: spec_run.induct)
  case (spec_run_Cons a op out a' ops outs a'')
  then show ?case
    by (meson list.set_intros)
qed simp

section \<open>Forward simulation\<close>

locale forward_simulation =
  fixes step :: "'op \<Rightarrow> 's \<Rightarrow> 'out \<times> 's"
    and spec :: "'a \<Rightarrow> 'op \<Rightarrow> 'out \<Rightarrow> 'a \<Rightarrow> bool"
    and related :: "'s \<Rightarrow> 'a \<Rightarrow> bool"
  assumes simulates: "\<lbrakk>related s a; step op s = (out, s')\<rbrakk> \<Longrightarrow> \<exists>b. spec a op out b \<and> related s' b"
begin

lemma run_simulates:
  "\<lbrakk>run_ops step ops s = (outs, s'); related s a\<rbrakk> \<Longrightarrow> \<exists>b. spec_run spec a ops outs b \<and> related s' b"
proof (induction ops arbitrary: s a outs)
  case (Cons op ops)
  obtain out outs' t where outs: "outs = out # outs'"
    and step: "step op s = (out, t)" "run_ops step ops t = (outs', s')"
    using run_ops_Cons [OF Cons.prems(1)] by blast
  obtain b where "spec a op out b" "related t b"
    using simulates [OF Cons.prems(2) step(1)] by blast
  then show ?case
    using Cons.IH [OF step(2)] spec_run_Cons outs by metis
qed (auto intro: spec_run_Nil)

end

end
