(* ===== verification/Memory_Pool_Ownership.thy ===== *)
theory Memory_Pool_Ownership
  imports Memory_Pool_Invariant Simulation
begin

text \<open>
  What a client of the memory pool relies on, as a ledger: which lease identities have been issued and in which
  phase each outstanding one is.  \<open>ledger_step\<close> is the contract of every operation over ledgers alone,
  without blocks, sizes or generations; \<open>ownership\<close> reads the ledger's map off a pool, and the pool's
  operations simulate the contract.
\<close>

section \<open>Ownership\<close>

definition identity_of :: "memory_pool \<Rightarrow> memory_pool_block \<Rightarrow> lease_identity" where
  "identity_of p b = \<lparr>lease_pool = pool_identity p, lease_device = pool_device p,
     lease_block_id = block_id b, lease_generation = block_generation b\<rparr>"

definition ownership :: "memory_pool \<Rightarrow> lease_identity \<rightharpoonup> memory_pool_block_phase" where
  "ownership p = map_of (map (\<lambda>b. (identity_of p b, block_phase b))
     (filter (\<lambda>b. block_phase b \<noteq> Free) (pool_blocks p)))"

definition owned_by :: "memory_pool_block \<Rightarrow> memory_pool \<Rightarrow> lease_identity \<Rightarrow> memory_pool_block_phase option" where
  "owned_by b p k = (if k = identity_of p b \<and> block_phase b \<noteq> Free then Some (block_phase b) else None)"

lemma identity_of_set_phase [simp]: "identity_of (set_phase p i phase) = identity_of p"
  by (simp add: fun_eq_iff identity_of_def set_phase_def)

lemma ownership_None:
  "(\<And>b. b \<in> set (pool_blocks p) \<Longrightarrow> block_id b \<noteq> lease_block_id k) \<Longrightarrow> ownership p k = None"
  unfolding ownership_def by (auto simp: map_of_eq_None_iff identity_of_def) blast

lemma ownership_member:
  assumes "distinct (map block_id (pool_blocks p))" and "b \<in> set (pool_blocks p)"
    and "lease_block_id k = block_id b"
  shows "ownership p k = owned_by b p k"
proof -
  let ?bs = "filter (\<lambda>b. block_phase b \<noteq> Free) (pool_blocks p)"
  let ?as = "map (\<lambda>b. (identity_of p b, block_phase b)) ?bs"
  have uniq: "b' = b" if "b' \<in> set (pool_blocks p)" "block_id b' = block_id b" for b'
    using assms(1,2) that by (auto simp: distinct_map dest: inj_onD)
  have "distinct (map block_id ?bs)"
    using assms(1) by (simp add: distinct_map_filter)
  then have dist: "distinct (map fst ?as)"
    by (auto simp: distinct_map o_def identity_of_def inj_on_def)
  show ?thesis
  proof (cases "k = identity_of p b \<and> block_phase b \<noteq> Free")
    case True
    then have "(k, block_phase b) \<in> set ?as"
      using assms(2) by auto
    then show ?thesis
      unfolding ownership_def using map_of_is_SomeI [OF dist] True by (simp add: owned_by_def)
  next
    case False
    then have "k \<notin> fst ` set ?as"
      using uniq assms(3) by (auto simp: identity_of_def) blast+
    then have "ownership p k = None"
      unfolding ownership_def by (simp only: map_of_eq_None_iff simp_thms)
    then show ?thesis
      using False by (simp add: owned_by_def)
  qed
qed

lemma ownership_cong:
  assumes "distinct (map block_id (pool_blocks p))" "distinct (map block_id (pool_blocks p'))"
    and "pool_identity p' = pool_identity p" "pool_device p' = pool_device p"
    and "\<And>b. block_id b = lease_block_id k \<Longrightarrow> block_phase b \<noteq> Free \<Longrightarrow>
      b \<in> set (pool_blocks p') \<longleftrightarrow> b \<in> set (pool_blocks p)"
  shows "ownership p' k = ownership p k"
proof -
  have ident: "identity_of p' = identity_of p"
    using assms(3,4) by (simp add: fun_eq_iff identity_of_def)
  have "ownership q k = Some ph \<longleftrightarrow> ph \<noteq> Free \<and>
      (\<exists>b\<in>set (pool_blocks q). identity_of q b = k \<and> block_phase b = ph)"
    if "distinct (map block_id (pool_blocks q))" for q ph
  proof
    assume "ownership q k = Some ph"
    then show "ph \<noteq> Free \<and> (\<exists>b\<in>set (pool_blocks q). identity_of q b = k \<and> block_phase b = ph)"
      by (auto simp: ownership_def dest!: map_of_SomeD)
  next
    assume "ph \<noteq> Free \<and> (\<exists>b\<in>set (pool_blocks q). identity_of q b = k \<and> block_phase b = ph)"
    then show "ownership q k = Some ph"
      using ownership_member [OF that, of _ k] by (auto simp: owned_by_def identity_of_def)
  qed
  note iff = this [OF assms(1)] this [OF assms(2)]
  have "ownership p' k = Some ph \<longleftrightarrow> ownership p k = Some ph" for ph
    unfolding iff ident using assms(5) by (auto simp: identity_of_def)
  then show ?thesis
    by (cases "ownership p k"; cases "ownership p' k") auto
qed

lemma ownership_update:
  assumes inv: "pool_inv p" and i: "i < length (pool_blocks p)"
    and same: "block_id b = block_id (pool_blocks p ! i)"
    and p': "p' = p\<lparr>pool_blocks := (pool_blocks p)[i := b]\<rparr>"
  shows "ownership p' k =
    (if lease_block_id k = block_id b then owned_by b p k else ownership p k)"
proof -
  have dist: "distinct (map block_id (pool_blocks p))" "distinct (map block_id (pool_blocks p'))"
    using inv same by (simp_all add: pool_inv_def p' map_update_same)
  have b: "b \<in> set (pool_blocks p')"
    using i by (simp add: p' set_update_memI)
  show ?thesis
  proof (cases "lease_block_id k = block_id b")
    case True
    then show ?thesis
      using ownership_member [OF dist(2) b] by (simp add: owned_by_def identity_of_def p')
  next
    case False
    then have "b' \<in> set (pool_blocks p') \<longleftrightarrow> b' \<in> set (pool_blocks p)" if "block_id b' = lease_block_id k" for b'
      using that same i
      by (auto simp: p' in_set_conv_nth nth_list_update) (metis nth_list_update_neq)
    then show ?thesis
      using False ownership_cong [OF dist] by (simp add: p')
  qed
qed

lemma owned_by_same_block:
  assumes inv: "pool_inv p" and i: "i < length (pool_blocks p)"
    and "lease_block_id k = block_id (pool_blocks p ! i)"
  shows "ownership p k = owned_by (pool_blocks p ! i) p k"
  using ownership_member [of p "pool_blocks p ! i" k] inv i assms(3) by (simp add: pool_inv_def)

lemma ownership_set_phase:
  assumes "pool_inv p" and "i < length (pool_blocks p)" and "phase \<noteq> Free"
  shows "ownership (set_phase p i phase) = (ownership p)(identity_of p (pool_blocks p ! i) \<mapsto> phase)"
proof
  fix k
  show "ownership (set_phase p i phase) k = ((ownership p)(identity_of p (pool_blocks p ! i) \<mapsto> phase)) k"
    using ownership_update [OF assms(1,2) _ set_phase_def, of phase k] assms(3)
      owned_by_same_block [OF assms(1,2), of k]
    by (auto simp: owned_by_def identity_of_def)
qed

lemma ownership_release:
  assumes "pool_inv p" and "i < length (pool_blocks p)"
    and "p' = p\<lparr>pool_blocks := (pool_blocks p)[i := (pool_blocks p ! i)
      \<lparr>block_generation := g, block_phase := Free\<rparr>]\<rparr>"
  shows "ownership p' = (ownership p)(identity_of p (pool_blocks p ! i) := None)"
proof
  fix k
  show "ownership p' k = ((ownership p)(identity_of p (pool_blocks p ! i) := None)) k"
    using ownership_update [OF assms(1,2) _ assms(3), of k] owned_by_same_block [OF assms(1,2), of k]
    by (auto simp: owned_by_def identity_of_def)
qed

lemma ownership_grow:
  assumes inv: "pool_inv p" and ok: "requested \<noteq> 0" "is_power_of_two alignment"
    and grow: "grow p requested alignment = Inr (i, q)"
  shows "ownership q = ownership p"
proof
  fix k
  have "pool_inv q"
    using grow_inv [OF inv ok grow] .
  then have dist: "distinct (map block_id (pool_blocks p))" "distinct (map block_id (pool_blocks q))"
    using inv by (simp_all add: pool_inv_def)
  have "pool_identity q = pool_identity p" "pool_device q = pool_device p"
    "\<exists>b. pool_blocks q = pool_blocks p @ [b] \<and> block_phase b = Free"
    using grow by (auto simp: grow_def result_simps)
  then show "ownership q k = ownership p k"
    by (intro ownership_cong [OF dist]) auto
qed

lemma ownership_trimmed:
  assumes "pool_inv p"
  shows "ownership (trimmed p released) = ownership p"
proof
  fix k
  show "ownership (trimmed p released) k = ownership p k"
    using ownership_cong [of p "trimmed p released" k] assms
    by (simp add: trimmed_def pool_inv_def distinct_map_filter)
qed

lemma lease_index_ownership:
  assumes "pool_inv p" and "lease_index p lease = Inr i"
  shows "i < length (pool_blocks p)" "lease_id lease = identity_of p (pool_blocks p ! i)"
    "ownership p (lease_id lease) =
      (if block_phase (pool_blocks p ! i) = Free then None else Some (block_phase (pool_blocks p ! i)))"
proof -
  show i: "i < length (pool_blocks p)" and k: "lease_id lease = identity_of p (pool_blocks p ! i)"
    using lease_index_Inr [OF assms(2)] by (simp_all add: identity_of_def)
  show "ownership p (lease_id lease) =
      (if block_phase (pool_blocks p ! i) = Free then None else Some (block_phase (pool_blocks p ! i)))"
    using owned_by_same_block [OF assms(1) i, of "lease_id lease"] k
    by (simp add: owned_by_def identity_of_def)
qed

lemma position_None: "position q xs = None \<longleftrightarrow> (\<forall>x\<in>set xs. \<not> q x)"
  by (force simp: position_def find_None_iff in_set_conv_nth)

lemma lease_index_unowned:
  assumes inv: "pool_inv p" and "lease_index p lease = Inl e"
  shows "ownership p (lease_id lease) = None"
proof (cases "lease_pool (lease_id lease) = pool_identity p \<and> lease_device (lease_id lease) = pool_device p")
  case False
  then show ?thesis
    by (auto simp: ownership_def map_of_eq_None_iff identity_of_def)
next
  case True
  let ?at = "position (\<lambda>b. block_id b = lease_block_id (lease_id lease)) (pool_blocks p)"
  show ?thesis
  proof (cases ?at)
    case None
    then show ?thesis
      using ownership_None [of p "lease_id lease"] by (simp add: position_None)
  next
    case (Some i)
    then have "i < length (pool_blocks p)" "block_id (pool_blocks p ! i) = lease_block_id (lease_id lease)"
      "block_generation (pool_blocks p ! i) \<noteq> lease_generation (lease_id lease)"
      using position_Some [OF Some] assms(2) True by (auto simp: lease_index_def ok_or_def split: if_splits)
    moreover from this have "lease_id lease \<noteq> identity_of p (pool_blocks p ! i)"
      by (metis identity_of_def lease_identity.select_convs(4))
    ultimately show ?thesis
      using owned_by_same_block [OF inv, of i "lease_id lease"] by (simp add: owned_by_def)
  qed
qed

section \<open>The ledger of leases\<close>

datatype pool_op =
    Lease_Op u64 u64
  | Start_Op memory_pool_lease
  | Observe_Op memory_pool_lease
  | Release_Op memory_pool_lease
  | Quarantine_Op memory_pool_lease
  | Trim_Op

datatype pool_out = Issued memory_pool_lease | Done | Refused

definition outcome :: "('e + 'a) \<times> memory_pool \<Rightarrow> pool_out \<times> memory_pool" where
  "outcome r = ((case fst r of Inl _ \<Rightarrow> Refused | Inr _ \<Rightarrow> Done), snd r)"

fun pool_step :: "pool_op \<Rightarrow> memory_pool \<Rightarrow> pool_out \<times> memory_pool" where
  "pool_step (Lease_Op requested alignment) p =
     (case lease_model_only p requested alignment of
        Inl _ \<Rightarrow> (Refused, p)
      | Inr (lease, p') \<Rightarrow> (Issued lease, p'))"
| "pool_step (Start_Op lease) p = outcome (mark_in_flight_model_only p lease)"
| "pool_step (Observe_Op lease) p = outcome (observe_completion_model_only p lease)"
| "pool_step (Release_Op lease) p = outcome (release_model_only p lease)"
| "pool_step (Quarantine_Op lease) p = outcome (quarantine_model_only p lease)"
| "pool_step Trim_Op p = outcome (trim_model_only p)"

record ledger =
  owned :: "lease_identity \<rightharpoonup> memory_pool_block_phase"
  issued :: "lease_identity list"

abbreviation set_owned :: "ledger \<Rightarrow> lease_identity \<Rightarrow> memory_pool_block_phase option \<Rightarrow> ledger" where
  "set_owned L k phase \<equiv> L\<lparr>owned := (owned L)(k := phase)\<rparr>"

definition returnable :: "memory_pool_block_phase option \<Rightarrow> bool" where
  "returnable phase \<longleftrightarrow> phase = Some Leased \<or> phase = Some CompletionObserved"

inductive ledger_step :: "ledger \<Rightarrow> pool_op \<Rightarrow> pool_out \<Rightarrow> ledger \<Rightarrow> bool" where
  ledger_lease: "\<lbrakk>lease_id l \<notin> set (issued L); requested_bytes l = n; lease_alignment l = a\<rbrakk> \<Longrightarrow>
    ledger_step L (Lease_Op n a) (Issued l)
      ((set_owned L (lease_id l) (Some Leased))\<lparr>issued := issued L @ [lease_id l]\<rparr>)"
| ledger_lease_refused: "ledger_step L (Lease_Op n a) Refused L"
| ledger_start: "owned L (lease_id l) = Some Leased \<Longrightarrow>
    ledger_step L (Start_Op l) Done (set_owned L (lease_id l) (Some InFlight))"
| ledger_start_refused: "owned L (lease_id l) \<noteq> Some Leased \<Longrightarrow> ledger_step L (Start_Op l) Refused L"
| ledger_observe: "owned L (lease_id l) = Some InFlight \<Longrightarrow>
    ledger_step L (Observe_Op l) Done (set_owned L (lease_id l) (Some CompletionObserved))"
| ledger_observe_refused: "owned L (lease_id l) \<noteq> Some InFlight \<Longrightarrow> ledger_step L (Observe_Op l) Refused L"
| ledger_release: "\<lbrakk>returnable (owned L (lease_id l)); lease_generation (lease_id l) \<noteq> - 1\<rbrakk> \<Longrightarrow>
    ledger_step L (Release_Op l) Done (set_owned L (lease_id l) None)"
| ledger_retire: "\<lbrakk>returnable (owned L (lease_id l)); lease_generation (lease_id l) = - 1\<rbrakk> \<Longrightarrow>
    ledger_step L (Release_Op l) Refused (set_owned L (lease_id l) (Some Quarantined))"
| ledger_release_refused: "\<not> returnable (owned L (lease_id l)) \<Longrightarrow> ledger_step L (Release_Op l) Refused L"
| ledger_quarantine: "owned L (lease_id l) \<noteq> None \<Longrightarrow>
    ledger_step L (Quarantine_Op l) Done (set_owned L (lease_id l) (Some Quarantined))"
| ledger_quarantine_refused: "owned L (lease_id l) = None \<Longrightarrow> ledger_step L (Quarantine_Op l) Refused L"
| ledger_trim: "ledger_step L Trim_Op Done L"

definition log_ok :: "memory_pool \<Rightarrow> lease_identity list \<Rightarrow> bool" where
  "log_ok p ks \<longleftrightarrow> (\<forall>k\<in>set ks. lease_block_id k < next_block_id p \<and>
     (\<forall>b\<in>set (pool_blocks p). block_id b = lease_block_id k \<longrightarrow>
        unat (lease_generation k) < unat (block_generation b) + (if block_phase b = Free then 0 else 1)))"

definition pool_ledger :: "memory_pool \<Rightarrow> ledger \<Rightarrow> bool" where
  "pool_ledger p L \<longleftrightarrow> pool_inv p \<and> owned L = ownership p \<and> log_ok p (issued L)"

lemma log_ok_update:
  assumes "log_ok p ks" and "pool_inv p" and i: "i < length (pool_blocks p)"
    and same: "block_id b = block_id (pool_blocks p ! i)"
    and gen: "unat (block_generation (pool_blocks p ! i)) + (if block_phase (pool_blocks p ! i) = Free then 0 else 1)
      \<le> unat (block_generation b) + (if block_phase b = Free then 0 else 1)"
  shows "log_ok (p\<lparr>pool_blocks := (pool_blocks p)[i := b]\<rparr>) ks"
proof -
  have "unat (lease_generation k) < unat (block_generation b') + (if block_phase b' = Free then 0 else 1)"
    if k: "k \<in> set ks" and b': "b' \<in> set ((pool_blocks p)[i := b])" "block_id b' = lease_block_id k" for k b'
  proof (cases "b' = b")
    case True
    then have "unat (lease_generation k) < unat (block_generation (pool_blocks p ! i)) +
        (if block_phase (pool_blocks p ! i) = Free then 0 else 1)"
      using assms(1) k b'(2) same nth_mem [OF i] by (simp add: log_ok_def)
    then show ?thesis
      unfolding True using gen by (rule less_le_trans)
  next
    case False
    then have "b' \<in> set (pool_blocks p)"
      using b'(1) set_update_subset_insert [of "pool_blocks p" i b] by blast
    then show ?thesis
      using assms(1) k b'(2) by (simp add: log_ok_def)
  qed
  then show ?thesis
    using assms(1) by (simp add: log_ok_def)
qed

lemma log_ok_set_phase:
  "\<lbrakk>log_ok p ks; pool_inv p; i < length (pool_blocks p); phase \<noteq> Free\<rbrakk> \<Longrightarrow> log_ok (set_phase p i phase) ks"
  unfolding set_phase_def by (rule log_ok_update) auto

lemma log_ok_trimmed:
  assumes "log_ok p ks"
  shows "log_ok (trimmed p released) ks"
proof -
  have "set (pool_blocks (trimmed p released)) \<subseteq> set (pool_blocks p)"
    "next_block_id (trimmed p released) = next_block_id p"
    by (auto simp: trimmed_def)
  then show ?thesis
    using assms unfolding log_ok_def by (simp only:) blast
qed

lemma log_ok_grow:
  assumes "log_ok p ks" and "grow p requested alignment = Inr (i, q)"
  shows "log_ok q ks"
  using assms(2)
proof (rule grow_Inr)
  fix rounded next_id
  assume n: "unat next_id = Suc (unat (next_block_id p))"
    and q: "q = p\<lparr>next_block_id := next_id, committed_bytes := committed_bytes q,
      pool_blocks := pool_blocks p @
        [\<lparr>block_id = next_block_id p, block_generation = 1, block_byte_len = rounded,
          block_alignment = alignment, block_phase = Free\<rparr>]\<rparr>"
  have blocks: "pool_blocks q = pool_blocks p @ [\<lparr>block_id = next_block_id p, block_generation = 1,
      block_byte_len = rounded, block_alignment = alignment, block_phase = Free\<rparr>]" "next_block_id q = next_id"
    by (subst q, simp)+
  have "next_block_id p < next_id"
    using n by (simp add: word_less_nat_alt)
  then show "log_ok q ks"
    using assms(1) unfolding log_ok_def blocks by (auto dest: less_trans)
qed

lemma log_ok_self:
  assumes inv: "pool_inv q" and i: "i < length (pool_blocks q)" and phase: "phase \<noteq> Free"
  shows "log_ok (set_phase q i phase) [identity_of q (pool_blocks q ! i)]"
proof -
  let ?b = "(pool_blocks q ! i)\<lparr>block_phase := phase\<rparr>"
  have b: "?b \<in> set (pool_blocks (set_phase q i phase))"
    using i by (simp add: set_phase_def set_update_memI)
  have dist: "distinct (map block_id (pool_blocks (set_phase q i phase)))"
    using set_phase_inv [OF inv i] by (simp add: pool_inv_def)
  have eq: "b' = ?b" if "b' \<in> set (pool_blocks (set_phase q i phase))" "block_id b' = block_id (pool_blocks q ! i)" for b'
    using inj_onD [OF _ _ that(1) b, of block_id] dist that(2) by (simp add: distinct_map)
  have "unat (block_generation (pool_blocks q ! i)) <
      unat (block_generation b') + (if block_phase b' = Free then 0 else 1)"
    if "b' \<in> set (pool_blocks (set_phase q i phase))" "block_id b' = block_id (pool_blocks q ! i)" for b'
    unfolding eq [OF that] using phase by simp
  moreover have "block_id (pool_blocks q ! i) < next_block_id (set_phase q i phase)"
    using inv i by (simp add: pool_inv_def set_phase_def)
  ultimately show ?thesis
    unfolding log_ok_def identity_of_def by simp
qed

lemma lease_simulates:
  assumes R: "pool_ledger p L" and lease: "lease_model_only p n a = Inr (l, p')"
  shows "lease_id l \<notin> set (issued L)" "requested_bytes l = n" "lease_alignment l = a"
    "pool_ledger p' ((set_owned L (lease_id l) (Some Leased))\<lparr>issued := issued L @ [lease_id l]\<rparr>)"
proof -
  have inv: "pool_inv p" "owned L = ownership p" "log_ok p (issued L)"
    using R by (simp_all add: pool_ledger_def)
  obtain q i where q: "pool_inv q" "ownership q = ownership p" "log_ok q (issued L)"
    and i: "i < length (pool_blocks q)" "block_phase (pool_blocks q ! i) = Free"
    and l: "l = lease_of q i n a" and p': "p' = set_phase q i Leased"
    using lease
  proof (cases rule: lease_cases)
    case (reuse i)
    then show thesis
      using that [of p i] inv reusable_index_Some [OF reuse(3)] by simp
  next
    case (fresh i q)
    have "i < length (pool_blocks q)" "block_phase (pool_blocks q ! i) = Free"
      using fresh(4) by (auto simp: grow_def result_simps)
    then show thesis
      using that [of q i] fresh grow_inv [OF inv(1) fresh(1,2,4)] ownership_grow [OF inv(1) fresh(1,2,4)]
        log_ok_grow [OF inv(3) fresh(4)] by simp
  qed
  have k: "lease_id l = identity_of q (pool_blocks q ! i)"
    by (simp add: l lease_of_def identity_of_def)
  show "requested_bytes l = n" "lease_alignment l = a"
    by (simp_all add: l lease_of_def)
  show "lease_id l \<notin> set (issued L)"
    using q(3) i nth_mem [OF i(1)] by (force simp: log_ok_def k identity_of_def)
  have "log_ok p' [lease_id l]"
    unfolding p' k using q(1) i(1) by (intro log_ok_self) simp_all
  moreover have "log_ok p' (issued L)"
    unfolding p' using q i by (intro log_ok_set_phase) simp_all
  ultimately have "log_ok p' (issued L @ [lease_id l])"
    by (auto simp: log_ok_def)
  then show "pool_ledger p' ((set_owned L (lease_id l) (Some Leased))\<lparr>issued := issued L @ [lease_id l]\<rparr>)"
    using ownership_set_phase [OF q(1) i(1), of Leased] set_phase_inv [OF q(1) i(1)] q(2) inv(2)
    by (simp add: pool_ledger_def p' k)
qed

lemma pool_ledger_set_phase:
  assumes "pool_ledger p L" and "lease_index p l = Inr i" and "phase \<noteq> Free"
  shows "pool_ledger (set_phase p i phase) (set_owned L (lease_id l) (Some phase))"
  using assms ownership_set_phase [of p i phase] set_phase_inv [of p i] log_ok_set_phase [of p "issued L" i phase]
    lease_index_ownership(1,2) [of p l i]
  by (simp add: pool_ledger_def)

lemma transition_simulates:
  assumes R: "pool_ledger p L" and "expected \<noteq> Free" "next \<noteq> Free"
    and step: "outcome (pool_transition p l expected next) = (out, p')"
  shows "if owned L (lease_id l) = Some expected
    then out = Done \<and> pool_ledger p' (set_owned L (lease_id l) (Some next))
    else out = Refused \<and> p' = p"
proof -
  have inv: "pool_inv p" and own: "owned L = ownership p"
    using R by (simp_all add: pool_ledger_def)
  show ?thesis
  proof (cases "lease_index p l")
    case (Inl e)
    then show ?thesis
      using lease_index_unowned [OF inv Inl] step by (simp add: own pool_transition_def outcome_def)
  next
    case (Inr i)
    then show ?thesis
      using lease_index_ownership(3) [OF inv Inr] step assms(2) pool_ledger_set_phase [OF R Inr assms(3)]
      by (auto simp: own pool_transition_def outcome_def split: if_splits)
  qed
qed

lemma checked_add_one: "checked_add (g :: u64) 1 = (if g = - 1 then None else Some (g + 1))"
proof -
  have "unat (- 1 :: u64) = 2 ^ 64 - 1"
    by (simp add: unsigned_minus_1_eq_mask mask_eq_exp_minus_1)
  then show ?thesis
    using unat_less_2p [of g] by (auto simp: checked_add_def word_unat_eq_iff)
qed

lemma pool_ledger_released:
  assumes R: "pool_ledger p L" and i: "lease_index p l = Inr i"
    and g: "lease_generation (lease_id l) \<noteq> - 1" and busy: "block_phase (pool_blocks p ! i) \<noteq> Free"
  shows "pool_ledger (p\<lparr>pool_blocks := (pool_blocks p)[i := (pool_blocks p ! i)
      \<lparr>block_generation := block_generation (pool_blocks p ! i) + 1, block_phase := Free\<rparr>]\<rparr>)
    (set_owned L (lease_id l) None)" (is "pool_ledger ?p' _")
proof -
  let ?b = "pool_blocks p ! i"
  have inv: "pool_inv p" "owned L = ownership p" "log_ok p (issued L)"
    using R by (simp_all add: pool_ledger_def)
  note at = lease_index_ownership(1,2) [OF inv(1) i]
  have "block_generation ?b \<noteq> - 1"
    using g at(2) by (simp add: identity_of_def)
  then have "unat (block_generation ?b) + 1 < 2 ^ 64"
    using checked_add_one [of "block_generation ?b"] by (auto simp: checked_add_def split: if_splits)
  note suc = unat_Suc [OF this]
  then have "block_generation ?b + 1 \<noteq> 0"
    by (metis nat.distinct(1) unat_0)
  then have "pool_inv ?p'"
    using at(1) by (intro pool_inv_update [OF inv(1)]) simp_all
  moreover have "log_ok ?p' (issued L)"
    using inv at(1) busy suc by (intro log_ok_update) simp_all
  ultimately show ?thesis
    using ownership_release [OF inv(1) at(1) refl] inv(2) at(2) by (simp add: pool_ledger_def)
qed

lemma release_simulates:
  assumes R: "pool_ledger p L" and step: "outcome (release_model_only p l) = (out, p')"
  shows "\<exists>L'. ledger_step L (Release_Op l) out L' \<and> pool_ledger p' L'"
proof -
  have inv: "pool_inv p" and own: "owned L = ownership p"
    using R by (simp_all add: pool_ledger_def)
  show ?thesis
  proof (cases "lease_index p l")
    case (Inl e)
    then have "\<not> returnable (owned L (lease_id l))" "out = Refused" "p' = p"
      using lease_index_unowned [OF inv Inl] step
      by (simp_all add: own returnable_def release_model_only_def outcome_def)
    then show ?thesis
      using ledger_release_refused R by blast
  next
    case (Inr i)
    let ?b = "pool_blocks p ! i"
    note at = lease_index_ownership [OF inv Inr]
    have gen: "lease_generation (lease_id l) = block_generation ?b"
      using at(2) by (simp add: identity_of_def)
    show ?thesis
    proof (cases "block_phase ?b = Leased \<or> block_phase ?b = CompletionObserved")
      case False
      then have "\<not> returnable (owned L (lease_id l))" "out = Refused" "p' = p"
        using Inr at(3) step by (simp_all add: own returnable_def release_model_only_def outcome_def Let_def)
      then show ?thesis
        using ledger_release_refused R by blast
    next
      case True
      then have ret: "returnable (owned L (lease_id l))" and busy: "block_phase ?b \<noteq> Free"
        using at(3) by (auto simp: own returnable_def)
      show ?thesis
      proof (cases "lease_generation (lease_id l) = - 1")
        case exhausted: True
        then have "out = Refused" "p' = set_phase p i Quarantined"
          using Inr True gen step by (auto simp: release_model_only_def outcome_def Let_def checked_add_one)
        then show ?thesis
          using ledger_retire [OF ret exhausted] pool_ledger_set_phase [OF R Inr, of Quarantined] by auto
      next
        case fresh: False
        then have "out = Done" "p' = p\<lparr>pool_blocks := (pool_blocks p)[i := ?b
            \<lparr>block_generation := block_generation ?b + 1, block_phase := Free\<rparr>]\<rparr>"
          using Inr True gen step by (auto simp: release_model_only_def outcome_def Let_def checked_add_one)
        then show ?thesis
          using ledger_release [OF ret fresh] pool_ledger_released [OF R Inr fresh busy] by auto
      qed
    qed
  qed
qed

lemma quarantine_simulates:
  assumes R: "pool_ledger p L" and step: "outcome (quarantine_model_only p l) = (out, p')"
  shows "\<exists>L'. ledger_step L (Quarantine_Op l) out L' \<and> pool_ledger p' L'"
proof -
  have inv: "pool_inv p" and own: "owned L = ownership p"
    using R by (simp_all add: pool_ledger_def)
  show ?thesis
  proof (cases "owned L (lease_id l)")
    case None
    then have "out = Refused \<and> p' = p"
      using lease_index_ownership(3) [OF inv, of l] step
      by (auto simp: own quarantine_model_only_def outcome_def split: sum.splits if_splits)
    then show ?thesis
      using ledger_quarantine_refused [OF None] R by blast
  next
    case (Some phase)
    then obtain i where i: "lease_index p l = Inr i"
      using lease_index_unowned [OF inv] by (cases "lease_index p l") (auto simp: own)
    then have "out = Done" "p' = set_phase p i Quarantined"
      using Some lease_index_ownership(3) [OF inv i] step
      by (auto simp: own quarantine_model_only_def outcome_def split: if_splits)
    then show ?thesis
      using ledger_quarantine [of L l] Some pool_ledger_set_phase [OF R i, of Quarantined] by auto
  qed
qed

lemma trim_simulates:
  assumes R: "pool_ledger p L" and step: "outcome (trim_model_only p) = (out, p')"
  shows "ledger_step L Trim_Op out L \<and> pool_ledger p' L"
proof -
  have inv: "pool_inv p"
    using R by (simp add: pool_ledger_def)
  show ?thesis
    by (rule trim_spec [OF inv])
      (use R step ownership_trimmed [OF inv] log_ok_trimmed in
        \<open>auto simp: outcome_def pool_ledger_def intro: ledger_trim\<close>)
qed

lemma pool_step_simulates:
  assumes R: "pool_ledger p L" and step: "pool_step op p = (out, p')"
  shows "\<exists>L'. ledger_step L op out L' \<and> pool_ledger p' L'"
proof (cases op)
  case (Lease_Op n a)
  show ?thesis
  proof (cases "lease_model_only p n a")
    case (Inl e)
    then show ?thesis
      using R step Lease_Op ledger_lease_refused by auto
  next
    case (Inr r)
    obtain l q where r: "r = (l, q)"
      by (cases r)
    note sim = lease_simulates [OF R Inr [unfolded r]]
    have "out = Issued l" "p' = q"
      using step Inr by (simp_all add: Lease_Op r)
    then show ?thesis
      unfolding Lease_Op using ledger_lease [OF sim(1-3)] sim(4) by blast
  qed
next
  case (Start_Op l)
  have "outcome (pool_transition p l Leased InFlight) = (out, p')"
    using step by (simp add: Start_Op mark_in_flight_model_only_def)
  note sim = transition_simulates [OF R _ _ this]
  show ?thesis
    unfolding Start_Op using sim R ledger_start [of L l] ledger_start_refused [of L l]
    by (cases "owned L (lease_id l) = Some Leased") auto
next
  case (Observe_Op l)
  have "outcome (pool_transition p l InFlight CompletionObserved) = (out, p')"
    using step by (simp add: Observe_Op observe_completion_model_only_def)
  note sim = transition_simulates [OF R _ _ this]
  show ?thesis
    unfolding Observe_Op using sim R ledger_observe [of L l] ledger_observe_refused [of L l]
    by (cases "owned L (lease_id l) = Some InFlight") auto
next
  case (Release_Op l)
  show ?thesis
    using release_simulates [OF R] step unfolding Release_Op by simp
next
  case (Quarantine_Op l)
  show ?thesis
    using quarantine_simulates [OF R] step unfolding Quarantine_Op by simp
next
  case Trim_Op
  have "outcome (trim_model_only p) = (out, p')"
    using step by (simp add: Trim_Op)
  then show ?thesis
    unfolding Trim_Op using trim_simulates [OF R] by blast
qed

interpretation pool_sim: forward_simulation pool_step ledger_step pool_ledger
  by unfold_locales (rule pool_step_simulates)

end
