(* ===== verification/Memory_Pool_Theorems.thy ===== *)
theory Memory_Pool_Theorems
  imports Memory_Pool_Ownership
begin

text \<open>
  The properties of the memory pool over whole runs: \<open>run_ops pool_step\<close> applies any sequence of the
  pool's operations, with any leases, to a new pool.  The ledger's own invariants are proved on the abstract side and
  carried to the pool by the simulation.
\<close>

section \<open>The ledger over runs\<close>

definition lease_ids :: "pool_out list \<Rightarrow> lease_identity list" where
  "lease_ids outs = concat (map (\<lambda>out. case out of Issued l \<Rightarrow> [lease_id l] | _ \<Rightarrow> []) outs)"

lemma lease_ids_simps [simp]:
  "lease_ids [] = []" "lease_ids (Issued l # outs) = lease_id l # lease_ids outs"
  "lease_ids (Done # outs) = lease_ids outs" "lease_ids (Refused # outs) = lease_ids outs"
  by (simp_all add: lease_ids_def)

definition empty_ledger :: ledger where
  "empty_ledger = \<lparr>owned = Map.empty, issued = []\<rparr>"

definition ledger_ok :: "ledger \<Rightarrow> bool" where
  "ledger_ok L \<longleftrightarrow> distinct (issued L) \<and> dom (owned L) \<subseteq> set (issued L)"

lemma ledger_step_issued: "ledger_step L op out L' \<Longrightarrow> issued L' = issued L @ lease_ids [out]"
  by (cases rule: ledger_step.cases) auto

lemma ledger_step_ok: "\<lbrakk>ledger_ok L; ledger_step L op out L'\<rbrakk> \<Longrightarrow> ledger_ok L'"
  by (erule ledger_step.cases) (auto simp: ledger_ok_def returnable_def)

lemma ledger_run_issued: "spec_run ledger_step L ops outs L' \<Longrightarrow> issued L' = issued L @ lease_ids outs"
proof (induction rule: spec_run.induct)
  case (spec_run_Cons L op out L' ops outs L'')
  then show ?case
    using ledger_step_issued [of L op out L'] by (cases out) simp_all
qed simp

definition settles :: "lease_identity \<Rightarrow> pool_op \<Rightarrow> bool" where
  "settles k op \<longleftrightarrow> (case op of
     Observe_Op l \<Rightarrow> lease_id l = k | Quarantine_Op l \<Rightarrow> lease_id l = k | _ \<Rightarrow> False)"

lemma ledger_in_flight_kept:
  "\<lbrakk>ledger_ok L; owned L k = Some InFlight; ledger_step L op out L'; \<not> settles k op\<rbrakk> \<Longrightarrow>
     owned L' k = Some InFlight"
  by (erule ledger_step.cases) (auto simp: ledger_ok_def settles_def returnable_def)

lemma new_pool_ledger:
  "new_pool identity device kind bytes blocks = Inr p \<Longrightarrow> pool_ledger p empty_ledger"
  by (auto simp: new_pool_def pool_ledger_def empty_ledger_def pool_inv_def pool_header_ok_def committed_ok_def
      log_ok_def ownership_def not_less split: if_splits)

lemma pool_run_ledger:
  assumes "new_pool identity device kind bytes blocks = Inr p" and "run_ops pool_step ops p = (outs, p')"
  obtains L where "spec_run ledger_step empty_ledger ops outs L" "pool_ledger p' L" "ledger_ok L"
    "issued L = lease_ids outs"
proof -
  obtain L where L: "spec_run ledger_step empty_ledger ops outs L" "pool_ledger p' L"
    using pool_sim.run_simulates [OF assms(2) new_pool_ledger [OF assms(1)]] by blast
  moreover have "ledger_ok empty_ledger"
    by (simp add: ledger_ok_def empty_ledger_def)
  then have "ledger_ok L"
    using spec_run_invariant [OF L(1), of ledger_ok] ledger_step_ok by blast
  moreover have "issued L = lease_ids outs"
    using ledger_run_issued [OF L(1)] by (simp add: empty_ledger_def)
  ultimately show thesis
    using that by blast
qed

section \<open>A concrete pool\<close>

definition demo_device_key :: device_key where
  "demo_device_key = DeviceKeyV1 7 1"

definition demo_lease :: "u64 \<Rightarrow> u64 \<Rightarrow> u64 \<Rightarrow> u64 \<Rightarrow> memory_pool_lease" where
  "demo_lease block gen bytes align = \<lparr>lease_id = \<lparr>lease_pool = fill32 1, lease_device = demo_device_key,
     lease_block_id = block, lease_generation = gen\<rparr>, requested_bytes = bytes, lease_alignment = align\<rparr>"

definition demo_pool :: memory_pool where
  "demo_pool = \<lparr>pool_identity = fill32 1, pool_device = demo_device_key, pool_kind = DeviceLocal,
     byte_capacity = 4096, block_capacity = 4, committed_bytes = 0, next_block_id = 1, pool_blocks = []\<rparr>"

lemma demo_pool_new: "new_pool (fill32 1) demo_device_key DeviceLocal 4096 4 = Inr demo_pool"
  by (simp add: new_pool_def demo_pool_def demo_device_key_def MAX_MEMORY_POOL_BLOCKS_def)

definition demo_ops :: "pool_op list" where
  "demo_ops = [Lease_Op 100 64, Start_Op (demo_lease 1 1 100 64), Lease_Op 10 16,
     Release_Op (demo_lease 1 1 100 64), Release_Op (demo_lease 2 1 10 16), Lease_Op 16 8,
     Observe_Op (demo_lease 1 1 100 64), Release_Op (demo_lease 1 1 100 64)]"

definition demo_pool_outs :: "pool_out list" where
  "demo_pool_outs = [Issued (demo_lease 1 1 100 64), Done, Issued (demo_lease 2 1 10 16),
     Refused, Done, Issued (demo_lease 2 2 16 8), Done, Done]"

lemmas demo_pool_defs = demo_pool_def demo_lease_def outcome_def lease_model_only_def
  reusable_index_def grow_def round_up_def checked_add_def set_phase_def lease_of_def lease_index_def
  position_def ok_or_def release_model_only_def pool_transition_def mark_in_flight_model_only_def
  observe_completion_model_only_def is_power_of_two_def transition_failure_def upt_rec

lemma demo_pool_run: "fst (run_ops pool_step demo_ops demo_pool) = demo_pool_outs"
  by (simp add: demo_ops_def demo_pool_outs_def demo_pool_defs)

section \<open>Properties\<close>

lemma validate_pool_inv: "pool_inv p \<Longrightarrow> validate_pool p = Inr ()"
  by (simp add: validate_pool_iff pool_inv_def)

lemma pool_run_inv:
  "\<lbrakk>new_pool identity device kind bytes blocks = Inr p; run_ops pool_step ops p = (outs, p')\<rbrakk> \<Longrightarrow> pool_inv p'"
  by (erule (1) pool_run_ledger) (simp add: pool_ledger_def)

text \<open>C34: whatever sequence of leases, transitions, releases, quarantines and trims is applied to a
  new memory pool, with any leases in hand, the pool passes its own validator; its committed bytes are the sum of
  its blocks' lengths and within capacity; and trimming never reports an invariant violation: it removes exactly
  the free blocks, gives their bytes back and leaves a pool that validates.\<close>

theorem pool_run_valid:
  assumes "new_pool identity device kind bytes blocks = Inr p" and "run_ops pool_step ops p = (outs, p')"
  shows "validate_pool p' = Inr () \<and>
    unat (committed_bytes p') = sum_list (map (unat \<circ> block_byte_len) (pool_blocks p')) \<and>
    committed_bytes p' \<le> byte_capacity p' \<and>
    (\<exists>released q. trim_model_only p' = (Inr released, q) \<and> validate_pool q = Inr () \<and>
       pool_blocks q = filter (\<lambda>b. block_phase b \<noteq> Free) (pool_blocks p') \<and>
       unat (committed_bytes q) + unat released = unat (committed_bytes p'))"
proof -
  have inv: "pool_inv p'"
    by (rule pool_run_inv [OF assms])
  obtain released where trim: "trim_model_only p' = (Inr released, trimmed p' released)"
    and q: "pool_inv (trimmed p' released)"
    using trim_spec [OF inv] .
  have "released \<le> committed_bytes p'"
    using trim by (auto simp: trim_model_only_def checked_sub_def Let_def split: option.splits if_splits)
  then have "unat (committed_bytes (trimmed p' released)) + unat released = unat (committed_bytes p')"
    by (simp add: trimmed_def unat_sub word_le_nat_alt)
  then show ?thesis
    using trim q validate_pool_inv [OF q] validate_pool_inv [OF inv] inv
    by (auto simp: pool_inv_def committed_ok_def trimmed_def)
qed

theorem pool_run_valid_witness:
  "\<exists>p'. run_ops pool_step demo_ops demo_pool = (demo_pool_outs, p') \<and> validate_pool p' = Inr ()"
proof -
  obtain p' where "run_ops pool_step demo_ops demo_pool = (demo_pool_outs, p')"
    using demo_pool_run by (metis prod.collapse)
  then show ?thesis
    using pool_run_valid [OF demo_pool_new] by blast
qed

text \<open>C32: the memory pool implements the ledger of leases.  For every sequence of operations applied
  to a new pool there is a run of the abstract ledger with the same operations and the same outcomes that ends in the
  pool's own ownership map: a lease is issued under an identity never issued before, work can start only on a leased
  identity, completion can be observed only on one in flight, only a leased or observed one is given back, and
  anything else is refused without effect.\<close>

theorem pool_refines_ledger:
  assumes "new_pool identity device kind bytes blocks = Inr p" and "run_ops pool_step ops p = (outs, p')"
  shows "\<exists>L. spec_run ledger_step empty_ledger ops outs L \<and> owned L = ownership p' \<and> issued L = lease_ids outs"
  using pool_run_ledger [OF assms] pool_ledger_def by metis

theorem pool_refines_ledger_witness:
  "\<exists>L. spec_run ledger_step empty_ledger demo_ops demo_pool_outs L \<and> issued L = lease_ids demo_pool_outs"
  using pool_refines_ledger [OF demo_pool_new, of demo_ops demo_pool_outs "snd (run_ops pool_step demo_ops demo_pool)"]
    demo_pool_run by (metis prod.collapse)

text \<open>C33: no two leases a pool ever issues have the same identity, even when they reuse one block,
  and an identity holds a block only if it was issued.  An identity in flight stays in flight through any further
  operations that neither observe its completion nor quarantine it: no release, lease or trim takes its block.\<close>

theorem in_flight_exclusive:
  assumes "new_pool identity device kind bytes blocks = Inr p" and "run_ops pool_step ops p = (outs, q)"
    and "ownership q k = Some InFlight"
    and "run_ops pool_step later q = (outs', q')" and "list_all (\<lambda>op. \<not> settles k op) later"
  shows "distinct (lease_ids outs) \<and> dom (ownership q) \<subseteq> set (lease_ids outs) \<and>
    ownership q' k = Some InFlight"
proof -
  obtain L where L: "pool_ledger q L" "ledger_ok L" "issued L = lease_ids outs"
    using pool_run_ledger [OF assms(1,2)] by metis
  obtain L' where L': "spec_run ledger_step L later outs' L'" "pool_ledger q' L'"
    using pool_sim.run_simulates [OF assms(4) L(1)] by blast
  have "ledger_ok L' \<and> owned L' k = Some InFlight"
  proof (rule spec_run_invariant [OF L'(1)])
    show "ledger_ok L \<and> owned L k = Some InFlight"
      using L assms(3) by (simp add: pool_ledger_def)
    show "ledger_ok b \<and> owned b k = Some InFlight"
      if "ledger_ok a \<and> owned a k = Some InFlight" "op \<in> set later" "ledger_step a op out b" for a op out b
      using that assms(5) ledger_step_ok ledger_in_flight_kept by (meson list_all_iff)
  qed
  then show ?thesis
    using L L' by (simp add: pool_ledger_def ledger_ok_def)
qed

theorem in_flight_exclusive_witness:
  "\<exists>q outs' q'. run_ops pool_step (take 2 demo_ops) demo_pool = ([Issued (demo_lease 1 1 100 64), Done], q) \<and>
     run_ops pool_step [Lease_Op 10 16, Release_Op (demo_lease 1 1 100 64), Trim_Op] q = (outs', q') \<and>
     ownership q' (lease_id (demo_lease 1 1 100 64)) = Some InFlight"
proof -
  let ?k = "lease_id (demo_lease 1 1 100 64)" and ?q = "snd (run_ops pool_step (take 2 demo_ops) demo_pool)"
  let ?later = "[Lease_Op 10 16, Release_Op (demo_lease 1 1 100 64), Trim_Op]"
  have settle: "list_all (\<lambda>op. \<not> settles ?k op) ?later"
    by (simp add: settles_def)
  have q: "run_ops pool_step (take 2 demo_ops) demo_pool = ([Issued (demo_lease 1 1 100 64), Done], ?q)"
    by (simp add: demo_ops_def demo_pool_defs)
  moreover have own: "ownership ?q ?k = Some InFlight"
    by (simp add: demo_ops_def demo_pool_defs ownership_def identity_of_def)
  moreover obtain outs' q' where "run_ops pool_step ?later ?q = (outs', q')"
    by fastforce
  ultimately show ?thesis
    using in_flight_exclusive [OF demo_pool_new q own _ settle] by blast
qed

lemma power_of_two_dvd:
  assumes "is_power_of_two a" "is_power_of_two b" "a \<le> (b :: u64)"
  shows "unat a dvd unat b"
proof -
  obtain j k where "unat a = 2 ^ j" "unat b = 2 ^ k"
    using assms(1,2) by (auto simp: is_power_of_two_iff)
  then show ?thesis
    using assms(3) by (simp add: word_le_nat_alt le_imp_power_dvd)
qed

lemma reuse_leases_best_fit:
  assumes inv: "pool_inv p" and a: "is_power_of_two a" and i: "reusable_index p n a = Some i"
  shows "n \<le> block_byte_len (pool_blocks p ! i) \<and> unat a dvd unat (block_alignment (pool_blocks p ! i)) \<and>
    fits n a (pool_blocks p ! i) \<and>
    (\<forall>b\<in>set (pool_blocks p). fits n a b \<longrightarrow> fit_key (pool_blocks p ! i) \<le> fit_key b)"
proof -
  note best = reusable_index_Some [OF i]
  have "is_power_of_two (block_alignment (pool_blocks p ! i))"
    using inv best by (auto simp: pool_inv_def block_ok_def)
  then show ?thesis
    using best power_of_two_dvd [OF a] by blast
qed

text \<open>C37: a lease is served by the best fit.  If a free block is large enough and sufficiently
  aligned, the lease gets such a block with the least length, then alignment, then id, and no memory is committed.
  Otherwise one new block is committed whose length is the request rounded up to the alignment, within capacity.  In
  both cases exactly that block becomes leased, under the identity in the lease, and it holds the request.\<close>

theorem lease_best_fit:
  assumes "new_pool identity device kind bytes blocks = Inr p0" and "run_ops pool_step ops p0 = (outs, p)"
    and "lease_model_only p n a = Inr (l, p')"
  shows "\<exists>b. block_phase b = Free \<and> n \<le> block_byte_len b \<and> unat a dvd unat (block_alignment b) \<and>
    lease_id l = identity_of p b \<and>
    (if list_ex (fits n a) (pool_blocks p)
     then (\<exists>pre post. pool_blocks p = pre @ b # post \<and> pool_blocks p' = pre @ b\<lparr>block_phase := Leased\<rparr> # post) \<and>
       list_all (\<lambda>c. fits n a c \<longrightarrow> fit_key b \<le> fit_key c) (pool_blocks p) \<and>
       committed_bytes p' = committed_bytes p
     else pool_blocks p' = pool_blocks p @ [b\<lparr>block_phase := Leased\<rparr>] \<and>
       unat (block_byte_len b) < unat n + unat a \<and> unat a dvd unat (block_byte_len b) \<and>
       unat (committed_bytes p') = unat (committed_bytes p) + unat (block_byte_len b) \<and>
       committed_bytes p' \<le> byte_capacity p)"
  using assms(3)
proof (cases rule: lease_cases)
  case (reuse i)
  let ?b = "pool_blocks p ! i"
  note best = reuse_leases_best_fit [OF pool_run_inv [OF assms(1,2)] reuse(2,3)]
  have i: "i < length (pool_blocks p)"
    using reusable_index_Some [OF reuse(3)] by blast
  then have "pool_blocks p = take i (pool_blocks p) @ ?b # drop (Suc i) (pool_blocks p)"
    "pool_blocks p' = take i (pool_blocks p) @ ?b\<lparr>block_phase := Leased\<rparr> # drop (Suc i) (pool_blocks p)"
    by (simp_all add: id_take_nth_drop reuse(5) set_phase_def upd_conv_take_nth_drop)
  moreover have "list_ex (fits n a) (pool_blocks p)"
    using best i by (auto simp: list_ex_iff)
  moreover have "committed_bytes p' = committed_bytes p" "lease_id l = identity_of p ?b"
    by (simp_all add: reuse(4,5) set_phase_def lease_of_def identity_of_def)
  ultimately show ?thesis
    using best by (intro exI [of _ ?b]) (auto simp: list_all_iff)
next
  case (fresh i q)
  show ?thesis
    using fresh(4)
  proof (rule grow_Inr)
    fix rounded next_id
    let ?b = "\<lparr>block_id = next_block_id p, block_generation = 1, block_byte_len = rounded,
      block_alignment = a, block_phase = Free\<rparr>"
    assume r: "round_up n a = Some rounded" and i: "i = length (pool_blocks p)"
      and c: "unat (committed_bytes q) = unat (committed_bytes p) + unat rounded" "committed_bytes q \<le> byte_capacity p"
      and q: "q = p\<lparr>next_block_id := next_id, committed_bytes := committed_bytes q,
        pool_blocks := pool_blocks p @ [?b]\<rparr>"
    have blocks: "pool_blocks q = pool_blocks p @ [?b]" "pool_identity q = pool_identity p" "pool_device q = pool_device p"
      by (subst q, simp)+
    have "pool_blocks p' = pool_blocks p @ [?b\<lparr>block_phase := Leased\<rparr>]" "committed_bytes p' = committed_bytes q"
      "lease_id l = identity_of p ?b"
      by (simp_all add: fresh(5,6) set_phase_def lease_of_def identity_of_def blocks i)
    moreover have "\<not> list_ex (fits n a) (pool_blocks p)"
      using fresh(3) by (simp add: reusable_index_None list_ex_iff)
    ultimately show ?thesis
      using round_up_spec [OF fresh(2) r] c by (intro exI [of _ ?b]) (simp add: word_le_nat_alt)
  qed
qed

theorem lease_best_fit_witness:
  "\<exists>b l p'. lease_model_only demo_pool 100 64 = Inr (l, p') \<and> lease_id l = identity_of demo_pool b \<and>
     unat (64 :: u64) dvd unat (block_byte_len b) \<and> unat (block_byte_len b) < unat (100 :: u64) + unat (64 :: u64)"
proof -
  have run: "run_ops pool_step [] demo_pool = ([], demo_pool)"
    by simp
  obtain l p' where lease: "lease_model_only demo_pool 100 64 = Inr (l, p')"
    by (simp add: demo_pool_defs)
  have "pool_blocks demo_pool = []"
    by (simp add: demo_pool_def)
  then show ?thesis
    using lease_best_fit [OF demo_pool_new run lease] lease by auto
qed

end
