(* ===== verification/Completion_Identity.thy ===== *)
theory Completion_Identity
  imports Byte_Arrays
begin

text \<open>
  Identities of \<open>crates/fe2o3-completion/src/graph.rs\<close>. The opaque 32-byte identities nest:
  a context names its device, a stream and an event their context, a future its stream. Derived
  orders compare the fields in declaration order. Node identities, cancellation codes and failure
  codes are three newtypes over \<open>u32\<close> whose private field only \<open>new\<close> can fill, so their
  values are never zero; they share the type \<open>nonzero_u32\<close>.
\<close>

section \<open>Nonzero 32-bit values\<close>

typedef nonzero_u32 = "{w :: u32. w \<noteq> 0}"
  morphisms nz_get Abs_nonzero_u32
  by (rule exI [of _ 1]) simp

type_synonym completion_node_id = nonzero_u32
type_synonym cancellation_code = nonzero_u32
type_synonym failure_code = nonzero_u32

definition nz_new :: "u32 \<Rightarrow> nonzero_u32 option" where
  "nz_new value = (if value = 0 then None else Some (Abs_nonzero_u32 value))"

lemma nz_get_nonzero [simp]: "nz_get n \<noteq> 0"
  using nz_get [of n] by simp

lemma nz_get_inject_iff [simp]: "nz_get a = nz_get b \<longleftrightarrow> a = b"
  by (rule nz_get_inject)

lemma nz_new_get [simp]: "nz_new (nz_get n) = Some n"
  by (simp add: nz_new_def nz_get_inverse)

lemma nz_new_Some: "nz_new v = Some n \<longleftrightarrow> v = nz_get n"
  by (auto simp: nz_new_def Abs_nonzero_u32_inverse nz_get_inverse)

instantiation nonzero_u32 :: linorder
begin

definition less_eq_nonzero_u32 :: "nonzero_u32 \<Rightarrow> nonzero_u32 \<Rightarrow> bool" where
  "less_eq_nonzero_u32 a b \<longleftrightarrow> nz_get a \<le> nz_get b"

definition less_nonzero_u32 :: "nonzero_u32 \<Rightarrow> nonzero_u32 \<Rightarrow> bool" where
  "less_nonzero_u32 a b \<longleftrightarrow> nz_get a < nz_get b"

instance
  by standard (auto simp: less_eq_nonzero_u32_def less_nonzero_u32_def order_less_le)

end

text \<open>A value for examples.\<close>

definition nz :: "u32 \<Rightarrow> nonzero_u32" where
  "nz value = Abs_nonzero_u32 value"

lemma nz_get_nz [simp]: "v \<noteq> 0 \<Longrightarrow> nz_get (nz v) = v"
  by (simp add: nz_def Abs_nonzero_u32_inverse)

lemma nz_eq: "v \<noteq> 0 \<Longrightarrow> w \<noteq> 0 \<Longrightarrow> nz v = nz w \<longleftrightarrow> v = w"
  by (metis nz_get_nz)

lemma nz_less: "v \<noteq> 0 \<Longrightarrow> w \<noteq> 0 \<Longrightarrow> nz v < nz w \<longleftrightarrow> v < w"
  by (simp add: less_nonzero_u32_def)

lemma nz_le: "v \<noteq> 0 \<Longrightarrow> w \<noteq> 0 \<Longrightarrow> nz v \<le> nz w \<longleftrightarrow> v \<le> w"
  by (simp add: less_eq_nonzero_u32_def)

section \<open>Nested identities\<close>

type_synonym device_identity = bytes32

datatype context_identity = ContextIdentityV1 (ctx_device: device_identity) (ctx_local: bytes32)

datatype stream_identity = StreamIdentityV1 (stream_context: context_identity) (stream_local: bytes32)

datatype event_identity = EventIdentityV1 (event_context: context_identity) (event_local: bytes32)

datatype future_identity = FutureIdentityV1 (future_stream: stream_identity) (future_local: bytes32)

instantiation context_identity :: linorder
begin

definition less_eq_context_identity :: "context_identity \<Rightarrow> context_identity \<Rightarrow> bool" where
  "less_eq_context_identity a b \<longleftrightarrow> (ctx_device a, ctx_local a) \<le> (ctx_device b, ctx_local b)"

definition less_context_identity :: "context_identity \<Rightarrow> context_identity \<Rightarrow> bool" where
  "less_context_identity a b \<longleftrightarrow> (ctx_device a, ctx_local a) < (ctx_device b, ctx_local b)"

instance
  by standard
    (auto simp: less_eq_context_identity_def less_context_identity_def intro: context_identity.expand)

end

instantiation stream_identity :: linorder
begin

definition less_eq_stream_identity :: "stream_identity \<Rightarrow> stream_identity \<Rightarrow> bool" where
  "less_eq_stream_identity a b \<longleftrightarrow>
     (stream_context a, stream_local a) \<le> (stream_context b, stream_local b)"

definition less_stream_identity :: "stream_identity \<Rightarrow> stream_identity \<Rightarrow> bool" where
  "less_stream_identity a b \<longleftrightarrow>
     (stream_context a, stream_local a) < (stream_context b, stream_local b)"

instance
  by standard
    (auto simp: less_eq_stream_identity_def less_stream_identity_def intro: stream_identity.expand)

end

end
