(* ===== verification/Completion_Graph.thy ===== *)
theory Completion_Graph
  imports Completion_Identity
begin

text \<open>
  The stream, event and future dependency graph of \<open>crates/fe2o3-completion/src/graph.rs\<close>:
  nodes, the validating constructor \<open>CompletionGraphV1::new\<close>, and the three private
  functions that compile it to indices (dependency lists, the successor index in offset form and
  the deterministic topological order).

  A \<open>BTreeMap\<close> is a map and a \<open>BTreeSet\<close> a strictly ascending list, so that
  \<open>pop_first\<close> takes its head. The constructor \<open>GraphPanic\<close> of the error type stands for a
  run that panics on a \<open>usize\<close> underflow in a build with overflow checks; it does not
  exist in the source, and is proved not to occur.
\<close>

definition MAX_GRAPH_STREAMS :: nat where "MAX_GRAPH_STREAMS = 4096"
definition MAX_GRAPH_NODES :: nat where "MAX_GRAPH_NODES = 65536"
definition MAX_GRAPH_EDGES :: nat where "MAX_GRAPH_EDGES = 131072"

lemmas graph_limit_defs = MAX_GRAPH_STREAMS_def MAX_GRAPH_NODES_def MAX_GRAPH_EDGES_def

section \<open>Nodes\<close>

datatype completion_node_kind =
    Future future_identity
  | EventRecord stream_identity event_identity
  | EventWait stream_identity event_identity completion_node_id

fun kind_stream :: "completion_node_kind \<Rightarrow> stream_identity" where
  "kind_stream (Future future) = future_stream future"
| "kind_stream (EventRecord stream event) = stream"
| "kind_stream (EventWait stream event recorded_by) = stream"

record completion_node =
  node_id :: completion_node_id
  node_stream_predecessor :: "completion_node_id option"
  node_kind :: completion_node_kind

definition node_future :: "completion_node_id \<Rightarrow> future_identity \<Rightarrow> completion_node_id option \<Rightarrow>
    completion_node" where
  "node_future node future pred =
     \<lparr>node_id = node, node_stream_predecessor = pred, node_kind = Future future\<rparr>"

definition node_record_event :: "completion_node_id \<Rightarrow> stream_identity \<Rightarrow> event_identity \<Rightarrow>
    completion_node_id option \<Rightarrow> completion_node" where
  "node_record_event node stream event pred =
     \<lparr>node_id = node, node_stream_predecessor = pred, node_kind = EventRecord stream event\<rparr>"

definition node_wait_event :: "completion_node_id \<Rightarrow> stream_identity \<Rightarrow> event_identity \<Rightarrow>
    completion_node_id \<Rightarrow> completion_node_id option \<Rightarrow> completion_node" where
  "node_wait_event node stream event recorded_by pred =
     \<lparr>node_id = node, node_stream_predecessor = pred,
      node_kind = EventWait stream event recorded_by\<rparr>"

abbreviation node_stream :: "completion_node \<Rightarrow> stream_identity" where
  "node_stream n \<equiv> kind_stream (node_kind n)"

datatype completion_graph_error =
    EmptyStreams
  | EmptyNodes
  | TooManyStreams nat nat
  | TooManyNodes nat nat
  | TooManyEdges nat nat
  | DuplicateStream stream_identity
  | ForeignStreamContext stream_identity
  | ForeignEventContext event_identity
  | UndeclaredStream stream_identity
  | UnusedStream stream_identity
  | DuplicateNode completion_node_id
  | MissingNode completion_node_id
  | DuplicateFuture completion_node_id completion_node_id
  | DuplicateEventRecord event_identity completion_node_id completion_node_id
  | CrossStreamPredecessor completion_node_id completion_node_id
  | StreamFork completion_node_id completion_node_id completion_node_id
  | InvalidStreamHeadCount stream_identity nat
  | EventRecordMismatch completion_node_id completion_node_id
  | Cycle
  | GraphPanic

section \<open>Index structures\<close>

definition adjacent_duplicate :: "'a list \<Rightarrow> 'a option" where
  "adjacent_duplicate values = map_option fst (find (\<lambda>(a, b). a = b) (windows2 values))"

text \<open>\<open>enumerate().map(|(index, node)| (node.id(), index)).collect()\<close>: a later entry with the
  same key replaces an earlier one.\<close>

definition build_node_indices :: "completion_node list \<Rightarrow> completion_node_id \<rightharpoonup> nat" where
  "build_node_indices nodes =
     foldl (\<lambda>m (index, node). m(node_id node \<mapsto> index)) Map.empty (enumerate 0 nodes)"

definition node_dependencies :: "completion_node list \<Rightarrow> (completion_node_id \<rightharpoonup> nat) \<Rightarrow>
    completion_node \<Rightarrow> nat list" where
  "node_dependencies nodes node_indices node =
     (let dependencies = (case node_stream_predecessor node of
            None \<Rightarrow> []
          | Some predecessor \<Rightarrow> [the (node_indices predecessor)]);
          dependencies = (case node_kind node of
            EventWait _ _ recorded_by \<Rightarrow>
              (if the (node_indices recorded_by) \<notin> set dependencies
               then dependencies @ [the (node_indices recorded_by)] else dependencies)
          | _ \<Rightarrow> dependencies)
      in sort_key (\<lambda>index. node_id (nodes ! index)) dependencies)"

definition build_dependency_indices :: "completion_node list \<Rightarrow> (completion_node_id \<rightharpoonup> nat) \<Rightarrow>
    nat list list" where
  "build_dependency_indices nodes node_indices = map (node_dependencies nodes node_indices) nodes"

text \<open>\<open>successor_index\<close>: count the successors of each node, turn the counts into offsets by
  prefix sums, then place every successor at the cursor of its predecessor.\<close>

definition count_successors :: "nat list list \<Rightarrow> nat list" where
  "count_successors dependencies =
     foldl (\<lambda>offsets predecessors.
         foldl (\<lambda>offsets p. offsets[p + 1 := offsets ! (p + 1) + 1]) offsets predecessors)
       (replicate (length dependencies + 1) 0) dependencies"

definition prefix_sums :: "nat list \<Rightarrow> nat list" where
  "prefix_sums offsets =
     foldl (\<lambda>offsets index. offsets[index := offsets ! index + offsets ! (index - 1)])
       offsets [1..<length offsets]"

definition place_successors :: "nat list list \<Rightarrow> nat list \<times> nat list \<Rightarrow> nat list \<times> nat list" where
  "place_successors dependencies start =
     foldl (\<lambda>acc (successor, predecessors).
         foldl (\<lambda>(cursors, successors) p.
             (cursors[p := cursors ! p + 1], successors[cursors ! p := successor]))
           acc predecessors)
       start (enumerate 0 dependencies)"

definition successor_index :: "nat list list \<Rightarrow> nat list \<times> nat list" where
  "successor_index dependencies =
     (let offsets = prefix_sums (count_successors dependencies);
          cursors = take (length dependencies) offsets;
          successors = replicate (offsets ! length dependencies) 0
      in (offsets, snd (place_successors dependencies (cursors, successors))))"

text \<open>The slice \<open>successor_indices[offsets[i]..offsets[i + 1]]\<close>.\<close>

definition successors_of :: "nat list \<Rightarrow> nat list \<Rightarrow> nat \<Rightarrow> nat list" where
  "successors_of offsets indices i =
     take (offsets ! (i + 1) - offsets ! i) (drop (offsets ! i) indices)"

section \<open>Topological order\<close>

text \<open>\<open>BTreeSet::insert\<close> on the ascending list of its elements.\<close>

definition set_insert :: "'a::linorder \<Rightarrow> 'a list \<Rightarrow> 'a list" where
  "set_insert x xs = (if x \<in> set xs then xs else insort x xs)"

type_synonym ready_set = "(completion_node_id \<times> nat) list"

fun release_ready :: "completion_node list \<Rightarrow> nat list \<times> ready_set \<Rightarrow> nat list \<Rightarrow>
    completion_graph_error + nat list \<times> ready_set" where
  "release_ready nodes (indegrees, ready) [] = Inr (indegrees, ready)"
| "release_ready nodes (indegrees, ready) (successor # rest) =
     (if \<not> (successor < length indegrees \<and> 0 < indegrees ! successor) then Inl GraphPanic
      else let indegrees = indegrees[successor := indegrees ! successor - 1];
               ready = (if indegrees ! successor = 0
                 then set_insert (node_id (nodes ! successor), successor) ready else ready)
           in release_ready nodes (indegrees, ready) rest)"

lemma length_insort_le: "length (set_insert x xs) \<le> Suc (length xs)"
  by (simp add: set_insert_def)

lemma release_ready_measure:
  "release_ready nodes (indegrees, ready) ss = Inr (indegrees', ready') \<Longrightarrow>
   sum_list indegrees' + length ready' \<le> sum_list indegrees + length ready"
proof (induction nodes "(indegrees, ready)" ss arbitrary: indegrees ready rule: release_ready.induct)
  case (2 nodes indegrees ready s rest)
  let ?i = "indegrees[s := indegrees ! s - 1]"
  let ?r = "if ?i ! s = 0 then set_insert (node_id (nodes ! s), s) ready else ready"
  have s: "s < length indegrees" "0 < indegrees ! s"
    and rest: "release_ready nodes (?i, ?r) rest = Inr (indegrees', ready')"
    using 2(2) by (simp_all add: Let_def split: if_splits)
  then have "sum_list indegrees' + length ready' \<le> sum_list ?i + length ?r"
    using 2(1) by (simp add: Let_def)
  also have "length ?r \<le> Suc (length ready)"
    using length_insort_le by (auto simp: le_SucI)
  also have "sum_list ?i = sum_list indegrees - 1"
    using s by (simp add: sum_list_update)
  finally show ?case
    using s elem_le_sum_list [of s indegrees] by simp
qed simp

function topological_loop :: "completion_node list \<Rightarrow> nat list \<Rightarrow> nat list \<Rightarrow>
    nat list \<times> ready_set \<times> nat list \<Rightarrow> completion_graph_error + nat list" where
  "topological_loop nodes offsets indices (indegrees, [], order) = Inr order"
| "topological_loop nodes offsets indices (indegrees, (key, node_index) # ready, order) =
     (case release_ready nodes (indegrees, ready) (successors_of offsets indices node_index) of
        Inl e \<Rightarrow> Inl e
      | Inr (indegrees', ready') \<Rightarrow>
          topological_loop nodes offsets indices (indegrees', ready', order @ [node_index]))"
  by pat_completeness auto

termination
  by (relation "measure (\<lambda>(nodes, offsets, indices, indegrees, ready, order).
      sum_list indegrees + length ready)")
    (auto dest: release_ready_measure)

definition initial_ready :: "completion_node list \<Rightarrow> nat list \<Rightarrow> ready_set" where
  "initial_ready nodes indegrees =
     foldl (\<lambda>ready entry. set_insert entry ready) []
       (map (\<lambda>(index, node). (node_id node, index))
         (filter (\<lambda>(index, node). indegrees ! index = 0) (enumerate 0 nodes)))"

definition deterministic_topological_order :: "completion_node list \<Rightarrow> nat list list \<Rightarrow> nat list \<Rightarrow>
    nat list \<Rightarrow> completion_graph_error + nat list" where
  "deterministic_topological_order nodes dependencies successor_offsets successor_indices =
     (let indegrees = map length dependencies
      in and_then (topological_loop nodes successor_offsets successor_indices
           (indegrees, initial_ready nodes indegrees, [])) (\<lambda>order.
         if length order \<noteq> length nodes then Inl Cycle else Inr order))"

section \<open>The validating constructor\<close>

record completion_graph =
  graph_context :: context_identity
  graph_streams :: "stream_identity list"
  graph_nodes :: "completion_node list"
  topological_order :: "completion_node_id list"
  dependency_indices :: "nat list list"
  successor_offsets :: "nat list"
  successor_indices :: "nat list"
  topological_ranks :: "nat list"

text \<open>The maps the scan over the nodes fills.\<close>

record graph_scan =
  stream_node_counts :: "stream_identity \<rightharpoonup> nat"
  stream_head_counts :: "stream_identity \<rightharpoonup> nat"
  stream_successors :: "completion_node_id \<rightharpoonup> completion_node_id"
  event_records :: "event_identity \<rightharpoonup> completion_node_id"
  futures :: "future_identity \<rightharpoonup> completion_node_id"

definition empty_scan :: graph_scan where
  "empty_scan = \<lparr>stream_node_counts = Map.empty, stream_head_counts = Map.empty,
     stream_successors = Map.empty, event_records = Map.empty, futures = Map.empty\<rparr>"

text \<open>\<open>*map.entry(key).or_default() += 1\<close>\<close>

definition bump :: "('k \<rightharpoonup> nat) \<Rightarrow> 'k \<Rightarrow> 'k \<rightharpoonup> nat" where
  "bump m k = m(k \<mapsto> case m k of None \<Rightarrow> 1 | Some n \<Rightarrow> n + 1)"

definition scan_kind :: "context_identity \<Rightarrow> graph_scan \<Rightarrow> completion_node \<Rightarrow>
    completion_graph_error + graph_scan" where
  "scan_kind ctx acc node =
     (case node_kind node of
        Future future \<Rightarrow>
          (case futures acc future of
             Some first \<Rightarrow> Inl (DuplicateFuture first (node_id node))
           | None \<Rightarrow> Inr (acc\<lparr>futures := (futures acc)(future \<mapsto> node_id node)\<rparr>))
      | EventRecord stream event \<Rightarrow>
          if event_context event \<noteq> ctx then Inl (ForeignEventContext event)
          else (case event_records acc event of
             Some first \<Rightarrow> Inl (DuplicateEventRecord event first (node_id node))
           | None \<Rightarrow> Inr (acc\<lparr>event_records := (event_records acc)(event \<mapsto> node_id node)\<rparr>))
      | EventWait stream event recorded_by \<Rightarrow>
          if event_context event \<noteq> ctx then Inl (ForeignEventContext event) else Inr acc)"

definition scan_predecessor :: "completion_node list \<Rightarrow> (completion_node_id \<rightharpoonup> nat) \<Rightarrow> graph_scan \<Rightarrow>
    completion_node \<Rightarrow> completion_graph_error + graph_scan" where
  "scan_predecessor nodes node_indices acc node =
     (case node_stream_predecessor node of
        None \<Rightarrow> Inr (acc\<lparr>stream_head_counts := bump (stream_head_counts acc) (node_stream node)\<rparr>)
      | Some predecessor \<Rightarrow>
          (case node_indices predecessor of
             None \<Rightarrow> Inl (MissingNode predecessor)
           | Some predecessor_index \<Rightarrow>
               if node_stream (nodes ! predecessor_index) \<noteq> node_stream node
               then Inl (CrossStreamPredecessor (node_id node) predecessor)
               else (case stream_successors acc predecessor of
                  Some first \<Rightarrow> Inl (StreamFork predecessor first (node_id node))
                | None \<Rightarrow> Inr (acc\<lparr>stream_successors :=
                    (stream_successors acc)(predecessor \<mapsto> node_id node)\<rparr>))))"

definition scan_node :: "context_identity \<Rightarrow> stream_identity list \<Rightarrow> completion_node list \<Rightarrow>
    (completion_node_id \<rightharpoonup> nat) \<Rightarrow> graph_scan \<Rightarrow> completion_node \<Rightarrow> completion_graph_error + graph_scan" where
  "scan_node ctx streams nodes node_indices acc node =
     (if stream_context (node_stream node) \<noteq> ctx
      then Inl (ForeignStreamContext (node_stream node))
      else if node_stream node \<notin> set streams then Inl (UndeclaredStream (node_stream node))
      else
        and_then (scan_kind ctx
          (acc\<lparr>stream_node_counts := bump (stream_node_counts acc) (node_stream node)\<rparr>) node)
        (\<lambda>acc. scan_predecessor nodes node_indices acc node))"

definition check_stream_heads :: "graph_scan \<Rightarrow> stream_identity \<Rightarrow> completion_graph_error + unit" where
  "check_stream_heads acc stream =
     (if stream_node_counts acc stream = None then Inl (UnusedStream stream)
      else let heads = (case stream_head_counts acc stream of None \<Rightarrow> 0 | Some n \<Rightarrow> n)
           in if heads \<noteq> 1 then Inl (InvalidStreamHeadCount stream heads) else Inr ())"

definition check_event_wait :: "completion_node list \<Rightarrow> (completion_node_id \<rightharpoonup> nat) \<Rightarrow>
    completion_node \<Rightarrow> completion_graph_error + unit" where
  "check_event_wait nodes node_indices node =
     (case node_kind node of
        EventWait stream event recorded_by \<Rightarrow>
          (case node_indices recorded_by of
             None \<Rightarrow> Inl (MissingNode recorded_by)
           | Some record_index \<Rightarrow>
               (case node_kind (nodes ! record_index) of
                  EventRecord _ recorded_event \<Rightarrow>
                    if recorded_event = event then Inr ()
                    else Inl (EventRecordMismatch (node_id node) recorded_by)
                | _ \<Rightarrow> Inl (EventRecordMismatch (node_id node) recorded_by)))
      | _ \<Rightarrow> Inr ())"

text \<open>\<open>topological_ranks\<close>: the inverse of the order.\<close>

definition ranks_of_order :: "nat \<Rightarrow> nat list \<Rightarrow> nat list" where
  "ranks_of_order n order =
     foldl (\<lambda>ranks (rank, index). ranks[index := rank]) (replicate n 0) (enumerate 0 order)"

text \<open>The compilation of validated nodes: everything after the last structural check.\<close>

definition compile_graph :: "context_identity \<Rightarrow> stream_identity list \<Rightarrow> completion_node list \<Rightarrow>
    (completion_node_id \<rightharpoonup> nat) \<Rightarrow> completion_graph_error + completion_graph" where
  "compile_graph ctx streams nodes node_indices =
     (let dependencies = build_dependency_indices nodes node_indices;
          edge_count = sum_list (map length dependencies);
          (offsets, indices) = successor_index dependencies
      in if MAX_GRAPH_EDGES < edge_count then Inl (TooManyEdges edge_count MAX_GRAPH_EDGES)
         else and_then (deterministic_topological_order nodes dependencies offsets indices)
           (\<lambda>order. Inr
             \<lparr>graph_context = ctx, graph_streams = streams, graph_nodes = nodes,
              topological_order = map (\<lambda>index. node_id (nodes ! index)) order,
              dependency_indices = dependencies, successor_offsets = offsets,
              successor_indices = indices,
              topological_ranks = ranks_of_order (length nodes) order\<rparr>))"

text \<open>\<open>sort_unstable\<close> may permute equal elements. Equal streams are identical; nodes with
  equal identities are rejected with the shared identity before their order is used.\<close>

definition graph_new :: "context_identity \<Rightarrow> stream_identity list \<Rightarrow> completion_node list \<Rightarrow>
    completion_graph_error + completion_graph" where
  "graph_new ctx streams nodes =
     (if streams = [] then Inl EmptyStreams
      else if MAX_GRAPH_STREAMS < length streams
      then Inl (TooManyStreams (length streams) MAX_GRAPH_STREAMS)
      else if nodes = [] then Inl EmptyNodes
      else if MAX_GRAPH_NODES < length nodes
      then Inl (TooManyNodes (length nodes) MAX_GRAPH_NODES)
      else
        let streams = sort streams
        in case adjacent_duplicate streams of
             Some stream \<Rightarrow> Inl (DuplicateStream stream)
           | None \<Rightarrow>
        and_then (for_each (\<lambda>stream. if stream_context stream \<noteq> ctx
            then Inl (ForeignStreamContext stream) else Inr ()) streams) (\<lambda>_.
        let nodes = sort_key node_id nodes
        in case adjacent_duplicate (map node_id nodes) of
             Some node \<Rightarrow> Inl (DuplicateNode node)
           | None \<Rightarrow>
        let node_indices = build_node_indices nodes
        in and_then (try_fold (scan_node ctx streams nodes node_indices) empty_scan nodes) (\<lambda>acc.
           and_then (for_each (check_stream_heads acc) streams) (\<lambda>_.
           and_then (for_each (check_event_wait nodes node_indices) nodes) (\<lambda>_.
           compile_graph ctx streams nodes node_indices)))))"

section \<open>Accessors\<close>

text \<open>\<open>binary_search_by_key\<close> on nodes with strictly ascending identities: the bisection of
  the standard library. The window is a base and a size, the probe is its middle element; the
  last comparison decides.\<close>

function bisect :: "completion_node list \<Rightarrow> completion_node_id \<Rightarrow> nat \<Rightarrow> nat \<Rightarrow> nat" where
  "bisect nodes key base len =
     (if len \<le> 1 then base
      else let half = len div 2; mid = base + half
           in bisect nodes key (if key < node_id (nodes ! mid) then base else mid) (len - half))"
  by pat_completeness auto

termination
  by (relation "measure (\<lambda>(nodes, key, base, len). len)") auto

definition node_index :: "completion_graph \<Rightarrow> completion_node_id \<Rightarrow> nat option" where
  "node_index g key =
     (if graph_nodes g = [] then None
      else let i = bisect (graph_nodes g) key 0 (length (graph_nodes g))
           in if node_id (graph_nodes g ! i) = key then Some i else None)"

text \<open>The three private accessors index the compiled arrays; \<open>None\<close> is the panic of an index or of a slice
  out of range.\<close>

definition graph_dependencies :: "completion_graph \<Rightarrow> nat \<Rightarrow> nat list option" where
  "graph_dependencies g index = checked_nth (dependency_indices g) index"

definition graph_successors :: "completion_graph \<Rightarrow> nat \<Rightarrow> nat list option" where
  "graph_successors g index =
     Option.bind (checked_nth (successor_offsets g) index) (\<lambda>start.
     Option.bind (checked_nth (successor_offsets g) (index + 1)) (\<lambda>stop.
     if start \<le> stop \<and> stop \<le> length (successor_indices g)
     then Some (take (stop - start) (drop start (successor_indices g))) else None))"

definition topological_rank :: "completion_graph \<Rightarrow> nat \<Rightarrow> nat option" where
  "topological_rank g index = checked_nth (topological_ranks g) index"

end
