(* ===== verification/Completion_Successors.thy ===== *)
theory Completion_Successors
  imports Completion_Graph
begin

text \<open>
  The successor index of \<open>graph.rs\<close> is the transpose of the dependency lists: the slice it
  stores for a node is the ascending list of the nodes that depend on it. The proof follows the
  three passes of \<open>successor_index\<close>: counts, offsets as prefix sums, placement at cursors.
\<close>

section \<open>Counts and offsets\<close>

definition deps_wf :: "nat list list \<Rightarrow> bool" where
  "deps_wf deps \<longleftrightarrow> (\<forall>ds\<in>set deps. distinct ds \<and> (\<forall>p\<in>set ds. p < length deps))"

lemma foldl_foldl: "foldl (foldl f) a xss = foldl f a (concat xss)"
  by (induction xss arbitrary: a) auto

lemma count_fold:
  assumes "\<forall>p\<in>set ps. p + 1 < length xs"
  shows "length (foldl (\<lambda>xs p. xs[p + 1 := xs ! (p + 1) + 1]) xs ps) = length xs \<and>
    (\<forall>j<length xs. foldl (\<lambda>xs p. xs[p + 1 := xs ! (p + 1) + 1]) xs ps ! j =
       xs ! j + (case j of 0 \<Rightarrow> 0 | Suc i \<Rightarrow> count_list ps i))"
  using assms
proof (induction ps arbitrary: xs)
  case (Cons p ps)
  show ?case
    using Cons.prems Cons.IH [of "xs[p + 1 := xs ! (p + 1) + 1]"]
    by (auto simp: nth_list_update split: nat.splits)
qed (simp split: nat.splits)

lemma count_successors_nth:
  assumes "deps_wf deps"
  shows "length (count_successors deps) = length deps + 1"
    and "count_successors deps ! 0 = 0"
    and "i < length deps \<Longrightarrow> count_successors deps ! (i + 1) = count_list (concat deps) i"
proof -
  have eq: "count_successors deps = foldl (\<lambda>xs p. xs[p + 1 := xs ! (p + 1) + 1])
      (replicate (length deps + 1) 0) (concat deps)"
    unfolding count_successors_def by (rule foldl_foldl)
  have "\<forall>p\<in>set (concat deps). p + 1 < length (replicate (length deps + 1) (0 :: nat))"
    using assms by (auto simp: deps_wf_def)
  note fold = count_fold [OF this, folded eq]
  show "length (count_successors deps) = length deps + 1"
    using fold by simp
  show "count_successors deps ! 0 = 0"
    using fold by (simp add: nth_append)
  show "i < length deps \<Longrightarrow> count_successors deps ! (i + 1) = count_list (concat deps) i"
    using fold by (auto simp del: replicate_Suc)
qed

lemma prefix_sums_prefix:
  fixes xs :: "nat list"
  assumes "m \<le> length xs"
  shows "length (foldl (\<lambda>xs i. xs[i := xs ! i + xs ! (i - 1)]) xs [1..<m]) = length xs \<and>
    (\<forall>j<length xs. foldl (\<lambda>xs i. xs[i := xs ! i + xs ! (i - 1)]) xs [1..<m] ! j =
       (if j < m then sum_list (take (j + 1) xs) else xs ! j))"
  using assms
proof (induction m)
  case 0
  then show ?case by simp
next
  case (Suc m)
  show ?case
  proof (cases "m = 0")
    case True
    then show ?thesis
      using Suc.prems by (auto simp: take_Suc_conv_app_nth)
  next
    case False
    let ?f = "foldl (\<lambda>xs i. xs[i := xs ! i + xs ! (i - 1)]) xs [1..<m]"
    have "[1..<Suc m] = [1..<m] @ [m]"
      using False by simp
    moreover have "xs ! m + sum_list (take m xs) = sum_list (take (Suc m) xs)"
      using Suc.prems by (simp add: take_Suc_conv_app_nth)
    moreover have "?f ! m = xs ! m" "?f ! (m - 1) = sum_list (take m xs)" "length ?f = length xs"
      using Suc False by auto
    ultimately show ?thesis
      using Suc by (auto simp: nth_list_update less_Suc_eq)
  qed
qed

lemma prefix_sums_nth:
  "length (prefix_sums xs) = length xs"
  "j < length xs \<Longrightarrow> prefix_sums xs ! j = sum_list (take (j + 1) xs)"
  using prefix_sums_prefix [of "length xs" xs] by (simp_all add: prefix_sums_def)

text \<open>The offsets: each node's slice begins where the slice of the node before it ends.\<close>

lemma offsets_step:
  assumes "deps_wf deps" and "i < length deps"
  shows "prefix_sums (count_successors deps) ! (i + 1) =
    prefix_sums (count_successors deps) ! i + count_list (concat deps) i"
  using assms count_successors_nth [OF assms(1)]
  by (simp add: prefix_sums_nth take_Suc_conv_app_nth)

section \<open>Placement\<close>

definition edges :: "nat list list \<Rightarrow> (nat \<times> nat) list" where
  "edges deps = concat (map (\<lambda>(s, ps). map (Pair s) ps) (enumerate 0 deps))"

definition placed :: "(nat \<times> nat) list \<Rightarrow> nat \<Rightarrow> nat list" where
  "placed es p = map fst (filter (\<lambda>e. snd e = p) es)"

definition place_edge :: "nat list \<times> nat list \<Rightarrow> nat \<times> nat \<Rightarrow> nat list \<times> nat list" where
  "place_edge = (\<lambda>(cursors, successors) (s, p).
     (cursors[p := cursors ! p + 1], successors[cursors ! p := s]))"

lemma place_successors_edges: "place_successors deps start = foldl place_edge start (edges deps)"
proof -
  have inner: "foldl (\<lambda>(c, z) p. (c[p := c ! p + 1], z[c ! p := s])) acc ps =
      foldl place_edge acc (map (Pair s) ps)" for s acc ps
    by (induction ps arbitrary: acc) (auto simp: place_edge_def)
  have "foldl (\<lambda>acc (s, ps). foldl (\<lambda>(c, z) p. (c[p := c ! p + 1], z[c ! p := s])) acc ps) start L =
      foldl place_edge start (concat (map (\<lambda>(s, ps). map (Pair s) ps) L))" for L
    by (induction L arbitrary: start) (auto simp: inner simp del: One_nat_def add_Suc_right)
  then show ?thesis
    by (simp add: place_successors_def edges_def)
qed

lemma step_mono:
  fixes f :: "nat \<Rightarrow> nat"
  assumes "\<And>p. p < n \<Longrightarrow> f p \<le> f (p + 1)" and "a \<le> b" and "b \<le> n"
  shows "f a \<le> f b"
  using assms(2,3)
proof (induction b)
  case (Suc b)
  show ?case
  proof (cases "a = Suc b")
    case False
    then have "f a \<le> f b"
      using Suc by simp
    also have "f b \<le> f (Suc b)"
      using assms(1) [of b] Suc.prems by simp
    finally show ?thesis .
  qed simp
qed simp

lemma place_edges:
  assumes "\<forall>(s, p)\<in>set es. p < n" and "length off = n + 1" and "length succ = off ! n"
    and "\<forall>p<n. off ! p + length (placed es p) \<le> off ! (p + 1)"
    and "foldl place_edge (take n off, succ) es = (cur, succ')"
  shows "length cur = n \<and> length succ' = length succ \<and>
    (\<forall>p<n. cur ! p = off ! p + length (placed es p)) \<and>
    (\<forall>p<n. \<forall>k<length (placed es p). succ' ! (off ! p + k) = placed es p ! k)"
  using assms(1,4,5)
proof (induction es arbitrary: cur succ' rule: rev_induct)
  case Nil
  then show ?case
    using assms(2) by (auto simp: placed_def)
next
  case (snoc e es)
  obtain s q where e: "e = (s, q)"
    by (cases e)
  obtain cur0 succ0 where fold: "foldl place_edge (take n off, succ) es = (cur0, succ0)"
    by (cases "foldl place_edge (take n off, succ) es")
  have q: "q < n"
    using snoc.prems(1) e by auto
  have pl: "placed (es @ [e]) p = (if p = q then placed es p @ [s] else placed es p)" for p
    by (simp add: placed_def e)
  have room: "\<forall>p<n. off ! p + length (placed es p) \<le> off ! (p + 1)"
  proof (intro allI impI)
    fix p
    assume "p < n"
    then have "off ! p + length (placed (es @ [e]) p) \<le> off ! (p + 1)"
      using snoc.prems(2) by blast
    then show "off ! p + length (placed es p) \<le> off ! (p + 1)"
      by (simp add: pl split: if_splits)
  qed
  note IH = snoc.IH [OF _ room fold]
  have lens: "length cur0 = n" "length succ0 = length succ"
    and cur0: "\<forall>p<n. cur0 ! p = off ! p + length (placed es p)"
    and succ0: "\<forall>p<n. \<forall>k<length (placed es p). succ0 ! (off ! p + k) = placed es p ! k"
    using IH snoc.prems(1) by auto
  let ?pos = "off ! q + length (placed es q)"
  have res: "cur = cur0[q := cur0 ! q + 1]" "succ' = succ0[?pos := s]"
    using snoc.prems(3) fold cur0 q by (auto simp: e place_edge_def)
  have mono: "off ! a \<le> off ! b" if "a \<le> b" "b \<le> n" for a b
    using step_mono [of n "\<lambda>p. off ! p" a b] that room add_leD1 by blast
  have last: "?pos < off ! (q + 1)"
    using snoc.prems(2) q by (auto simp: pl)
  then have pos: "?pos < length succ"
    using mono [of "q + 1" n] q assms(3) by simp
  have sep: "off ! p + k \<noteq> ?pos" if "p < n" "k < length (placed es p)" "p \<noteq> q" for p k
  proof (cases "p < q")
    case True
    then have "off ! (p + 1) \<le> off ! q"
      using mono [of "p + 1" q] q by simp
    moreover have "off ! p + k < off ! (p + 1)"
      using room that by fastforce
    ultimately show ?thesis by simp
  next
    case False
    then have "off ! (q + 1) \<le> off ! p"
      using mono [of "q + 1" p] that by simp
    then show ?thesis
      using last by simp
  qed
  have "succ' ! (off ! p + k) = placed (es @ [e]) p ! k"
    if "p < n" "k < length (placed (es @ [e]) p)" for p k
  proof (cases "p = q")
    case True
    then show ?thesis
      using that succ0 pos lens by (auto simp: res pl nth_list_update nth_append less_Suc_eq)
  next
    case False
    then show ?thesis
      using that succ0 sep [of p k] by (simp add: res pl)
  qed
  moreover have "\<forall>p<n. cur ! p = off ! p + length (placed (es @ [e]) p)"
    using cur0 q lens by (simp add: res pl nth_list_update)
  ultimately show ?case
    using lens by (simp add: res)
qed

lemma edges_pred: "deps_wf deps \<Longrightarrow> \<forall>(s, p)\<in>set (edges deps). p < length deps"
  by (auto simp: edges_def deps_wf_def in_set_enumerate_eq)

lemma filter_pred_single:
  "distinct ps \<Longrightarrow> map fst (filter (\<lambda>e. snd e = p) (map (Pair s) ps)) = (if p \<in> set ps then [s] else [])"
  by (induction ps) auto

lemma placed_edges_from:
  assumes "\<forall>ds\<in>set deps. distinct ds"
  shows "placed (concat (map (\<lambda>(s, ps). map (Pair s) ps) (enumerate k deps))) p =
    filter (\<lambda>j. p \<in> set (deps ! (j - k))) [k..<k + length deps]"
  using assms
proof (induction deps arbitrary: k)
  case (Cons ds deps)
  have "[k..<k + length (ds # deps)] = k # [Suc k..<Suc k + length deps]"
    by (simp add: upt_conv_Cons del: upt_Suc)
  moreover have "filter (\<lambda>j. p \<in> set ((ds # deps) ! (j - k))) [Suc k..<Suc k + length deps] =
      filter (\<lambda>j. p \<in> set (deps ! (j - Suc k))) [Suc k..<Suc k + length deps]"
    by (rule filter_cong) (auto simp: nth_Cons split: nat.splits,
        (metis Suc_diff_Suc diff_Suc_Suc less_eq_Suc_le nat.inject)+)
  ultimately show ?case
    using Cons by (simp add: placed_def filter_pred_single)
qed (simp add: placed_def)

lemma placed_edges:
  "deps_wf deps \<Longrightarrow> placed (edges deps) p = filter (\<lambda>j. p \<in> set (deps ! j)) [0..<length deps]"
  using placed_edges_from [of deps 0 p] by (simp add: edges_def deps_wf_def)

lemma length_placed_edges: "length (placed (edges deps) p) = count_list (concat deps) p"
proof -
  have "length (placed (concat (map (\<lambda>(s, ps). map (Pair s) ps) (enumerate k deps))) p) =
      count_list (concat deps) p" for k
  proof (induction deps arbitrary: k)
    case (Cons ds deps)
    have "length (filter (\<lambda>e. snd e = p) (map (Pair k) ds)) = count_list ds p"
      by (induction ds) auto
    then show ?case
      using Cons by (simp add: placed_def count_list_append)
  qed (simp add: placed_def)
  then show ?thesis
    by (simp add: edges_def)
qed

lemma successor_offsets_length:
  assumes "deps_wf deps" and "successor_index deps = (off, succ)"
  shows "length off = length deps + 1"
proof -
  have "off = prefix_sums (count_successors deps)"
    using assms(2) unfolding successor_index_def Let_def prod.inject by blast
  then show ?thesis
    by (simp add: prefix_sums_nth(1) count_successors_nth(1) [OF assms(1)])
qed

lemma successors_of_index:
  assumes wf: "deps_wf deps" and i: "i < length deps"
    and idx: "successor_index deps = (off, succ)"
  shows "successors_of off succ i = filter (\<lambda>j. i \<in> set (deps ! j)) [0..<length deps]"
    and "off ! i \<le> off ! (i + 1)" and "off ! (i + 1) \<le> length succ"
proof -
  let ?n = "length deps"
  have off: "off = prefix_sums (count_successors deps)"
    and succ: "succ = snd (place_successors deps (take ?n off, replicate (off ! ?n) 0))"
    using idx unfolding successor_index_def Let_def prod.inject by blast+
  have len: "length off = ?n + 1"
    by (rule successor_offsets_length [OF wf idx])
  have step: "off ! (p + 1) = off ! p + length (placed (edges deps) p)" if "p < ?n" for p
    unfolding off length_placed_edges by (rule offsets_step [OF wf that])
  let ?s0 = "replicate (off ! ?n) (0 :: nat)"
  obtain cur where fold: "foldl place_edge (take ?n off, ?s0) (edges deps) = (cur, succ)"
    unfolding succ place_successors_edges by (metis prod.collapse)
  have room: "\<forall>p<?n. off ! p + length (placed (edges deps) p) \<le> off ! (p + 1)"
    using step by (metis order_refl)
  note pl = place_edges [OF edges_pred [OF wf] len _ room fold]
  have "off ! (i + 1) \<le> off ! ?n"
    by (rule step_mono [of ?n "\<lambda>p. off ! p"]) (use i step in simp_all)
  then show fits: "off ! (i + 1) \<le> length succ"
    using pl by simp
  show "off ! i \<le> off ! (i + 1)"
    using step [OF i] by simp
  have size: "off ! (i + 1) - off ! i = length (placed (edges deps) i)"
    using step [OF i] by simp
  have "successors_of off succ i = placed (edges deps) i"
  proof (rule nth_equalityI)
    show len: "length (successors_of off succ i) = length (placed (edges deps) i)"
      using fits size by (simp add: successors_of_def)
    show "successors_of off succ i ! k = placed (edges deps) i ! k"
      if "k < length (successors_of off succ i)" for k
    proof -
      have k: "k < length (placed (edges deps) i)"
        using that len by simp
      then have "succ ! (off ! i + k) = placed (edges deps) i ! k"
        using pl i by simp
      then show ?thesis
        using k size step [OF i] fits by (simp add: successors_of_def)
    qed
  qed
  then show "successors_of off succ i = filter (\<lambda>j. i \<in> set (deps ! j)) [0..<length deps]"
    by (simp add: placed_edges [OF wf])
qed

text \<open>The offsets bound a slice of the flat index array at every node.\<close>

definition slices_ok :: "nat \<Rightarrow> nat list \<Rightarrow> nat list \<Rightarrow> bool" where
  "slices_ok n offsets indices \<longleftrightarrow> length offsets = n + 1 \<and>
     (\<forall>i<n. offsets ! i \<le> offsets ! (i + 1) \<and> offsets ! (i + 1) \<le> length indices)"

lemma successor_slices:
  "\<lbrakk>deps_wf deps; successor_index deps = (off, succ)\<rbrakk> \<Longrightarrow> slices_ok (length deps) off succ"
  using successors_of_index(2,3) [of deps _ off succ] successor_offsets_length by (auto simp: slices_ok_def)

end
