(* ===== verification/Completion_Topology.thy ===== *)
theory Completion_Topology
  imports Completion_Successors
begin

text \<open>
  \<open>deterministic_topological_order\<close> of \<open>graph.rs\<close> orders the nodes so that dependencies come
  first and, among the nodes that are ready, the one with the least identity comes first; it
  fails with \<open>Cycle\<close> exactly when the dependencies are cyclic.
\<close>

section \<open>Dependencies as a relation\<close>

definition dependency_relation :: "nat list list \<Rightarrow> (nat \<times> nat) set" where
  "dependency_relation deps = {(d, j). j < length deps \<and> d \<in> set (deps ! j)}"

text \<open>The key by which the ready set orders a node.\<close>

definition ready_key :: "completion_node list \<Rightarrow> nat \<Rightarrow> completion_node_id \<times> nat" where
  "ready_key nodes i = (node_id (nodes ! i), i)"

text \<open>Nodes not yet ordered whose dependencies all are.\<close>

definition eligible :: "nat list list \<Rightarrow> nat set \<Rightarrow> nat set" where
  "eligible deps X = {j. j < length deps \<and> j \<notin> X \<and> set (deps ! j) \<subseteq> X}"

text \<open>Each element of the order is the least eligible node at its position.\<close>

definition greedy :: "completion_node list \<Rightarrow> nat list list \<Rightarrow> nat list \<Rightarrow> bool" where
  "greedy nodes deps order \<longleftrightarrow> (\<forall>k<length order. order ! k \<in> eligible deps (set (take k order)) \<and>
     (\<forall>j\<in>eligible deps (set (take k order)). ready_key nodes (order ! k) \<le> ready_key nodes j))"

lemma greedy_snoc:
  "greedy nodes deps (order @ [i]) \<longleftrightarrow> greedy nodes deps order \<and> i \<in> eligible deps (set order) \<and>
     (\<forall>j\<in>eligible deps (set order). ready_key nodes i \<le> ready_key nodes j)"
  by (auto simp: greedy_def nth_append less_Suc_eq)

lemma greedy_closed:
  assumes "greedy nodes deps order" and "j \<in> set order"
  shows "set (deps ! j) \<subseteq> set order"
proof -
  obtain k where "k < length order" "order ! k = j"
    using assms(2) by (auto simp: in_set_conv_nth)
  then have "set (deps ! j) \<subseteq> set (take k order)"
    using assms(1) by (auto simp: greedy_def eligible_def)
  then show ?thesis
    by (meson order_trans set_take_subset)
qed

section \<open>One round\<close>

lemma set_insert_sorted: "sorted_wrt (<) xs \<Longrightarrow> sorted_wrt (<) (set_insert x xs)"
  by (auto simp: set_insert_def strict_sorted_iff sorted_insort distinct_insort)

lemma set_set_insert [simp]: "set (set_insert x xs) = insert x (set xs)"
  by (auto simp: set_insert_def set_insort_key)

lemma release_ready_spec:
  assumes "distinct ss" and "\<forall>s\<in>set ss. s < length indeg \<and> 0 < indeg ! s" and "sorted_wrt (<) ready"
  shows "\<exists>indeg' ready'. release_ready nodes (indeg, ready) ss = Inr (indeg', ready') \<and>
    length indeg' = length indeg \<and>
    (\<forall>j<length indeg. indeg' ! j = indeg ! j - (if j \<in> set ss then 1 else 0)) \<and>
    sorted_wrt (<) ready' \<and>
    set ready' = set ready \<union> ready_key nodes ` {s \<in> set ss. indeg ! s = 1}"
  using assms
proof (induction ss arbitrary: indeg ready)
  case (Cons s ss)
  let ?i = "indeg[s := indeg ! s - 1]"
  let ?r = "if ?i ! s = 0 then set_insert (node_id (nodes ! s), s) ready else ready"
  have s: "s < length indeg" "0 < indeg ! s" "s \<notin> set ss"
    using Cons.prems by auto
  have "\<forall>t\<in>set ss. t < length ?i \<and> 0 < ?i ! t"
    using Cons.prems s by (auto simp: nth_list_update)
  moreover have "sorted_wrt (<) ?r"
    using Cons.prems set_insert_sorted by auto
  ultimately obtain indeg' ready' where IH: "release_ready nodes (?i, ?r) ss = Inr (indeg', ready')"
      "length indeg' = length ?i" "\<forall>j<length ?i. indeg' ! j = ?i ! j - (if j \<in> set ss then 1 else 0)"
      "sorted_wrt (<) ready'" "set ready' = set ?r \<union> ready_key nodes ` {t \<in> set ss. ?i ! t = 1}"
    using Cons.IH [of ?i ?r] Cons.prems(1) by auto
  have "release_ready nodes (indeg, ready) (s # ss) = Inr (indeg', ready')"
    using s IH(1) by (simp add: Let_def)
  moreover have "{t \<in> set ss. ?i ! t = 1} = {t \<in> set ss. indeg ! t = 1}"
    using s(3) by (metis (no_types, lifting) nth_list_update_neq)
  then have "set ready' = set ready \<union> ready_key nodes ` {t \<in> set (s # ss). indeg ! t = 1}"
    using s IH(5) by (auto simp: ready_key_def)
  moreover have "\<forall>j<length indeg. indeg' ! j = indeg ! j - (if j \<in> set (s # ss) then 1 else 0)"
    using s IH(3) by (simp add: nth_list_update)
  ultimately show ?case
    using IH(2,4) by auto
qed simp

section \<open>The loop invariant\<close>

definition topo_inv :: "completion_node list \<Rightarrow> nat list list \<Rightarrow> nat list \<times> ready_set \<times> nat list \<Rightarrow> bool" where
  "topo_inv nodes deps = (\<lambda>(indeg, ready, order).
     length indeg = length deps \<and> distinct order \<and>
     (\<forall>j<length deps. indeg ! j = card (set (deps ! j) - set order)) \<and>
     sorted_wrt (<) ready \<and> set ready = ready_key nodes ` eligible deps (set order) \<and>
     greedy nodes deps order)"

lemma eligible_insert:
  assumes wf: "deps_wf deps" and g: "greedy nodes deps order" and i: "i \<in> eligible deps (set order)"
  shows "eligible deps (insert i (set order)) =
    eligible deps (set order) - {i} \<union>
    {j. j < length deps \<and> i \<in> set (deps ! j) \<and> card (set (deps ! j) - set order) = 1}"
    (is "?L = ?A \<union> ?B")
proof -
  have i_notin: "i \<notin> set order" "i \<notin> set (deps ! i)"
    using i by (auto simp: eligible_def)
  have one: "card (set (deps ! j) - set order) = 1 \<longleftrightarrow> set (deps ! j) \<subseteq> insert i (set order)"
    if "i \<in> set (deps ! j)" for j
  proof
    assume "card (set (deps ! j) - set order) = 1"
    then obtain x where x: "set (deps ! j) - set order = {x}"
      by (auto simp: card_1_singleton_iff)
    moreover have "i \<in> set (deps ! j) - set order"
      using that i_notin(1) by simp
    ultimately have "set (deps ! j) - set order = {i}"
      by simp
    then show "set (deps ! j) \<subseteq> insert i (set order)"
      by auto
  next
    assume "set (deps ! j) \<subseteq> insert i (set order)"
    then have "set (deps ! j) - set order = {i}"
      using that i_notin(1) by auto
    then show "card (set (deps ! j) - set order) = 1"
      by simp
  qed
  have "j \<notin> set order" if "i \<in> set (deps ! j)" for j
    using greedy_closed [OF g, of j] that i_notin(1) by auto
  then show ?thesis
    using one i_notin by (auto simp: eligible_def)
qed

lemma topo_inv_step:
  assumes wf: "deps_wf deps" and idx: "successor_index deps = (off, succ)"
    and inv: "topo_inv nodes deps (indeg, (key, i) # ready, order)"
  shows "\<exists>indeg' ready'. release_ready nodes (indeg, ready) (successors_of off succ i) =
      Inr (indeg', ready') \<and> topo_inv nodes deps (indeg', ready', order @ [i])"
proof -
  have len: "length indeg = length deps" and dist: "distinct order"
    and deg: "\<forall>j<length deps. indeg ! j = card (set (deps ! j) - set order)"
    and sorted: "sorted_wrt (<) ((key, i) # ready)"
    and ready: "insert (key, i) (set ready) = ready_key nodes ` eligible deps (set order)"
    and g: "greedy nodes deps order"
    using inv by (auto simp: topo_inv_def)
  have key: "(key, i) = ready_key nodes i" and i: "i \<in> eligible deps (set order)"
    using ready by (auto simp: ready_key_def)
  then have n: "i < length deps" "i \<notin> set order"
    by (auto simp: eligible_def)
  let ?ss = "filter (\<lambda>j. i \<in> set (deps ! j)) [0..<length deps]"
  have pos: "\<forall>s\<in>set ?ss. s < length indeg \<and> 0 < indeg ! s"
    using n deg len by (auto simp: card_gt_0_iff)
  obtain indeg' ready' where res: "release_ready nodes (indeg, ready) ?ss = Inr (indeg', ready')"
      "length indeg' = length indeg"
      "\<forall>j<length indeg. indeg' ! j = indeg ! j - (if j \<in> set ?ss then 1 else 0)"
      "sorted_wrt (<) ready'"
      "set ready' = set ready \<union> ready_key nodes ` {s \<in> set ?ss. indeg ! s = 1}"
    using release_ready_spec [OF _ pos, of ready nodes] sorted by auto
  have "indeg' ! j = card (set (deps ! j) - set (order @ [i]))" if "j < length deps" for j
  proof -
    have "set (deps ! j) - set (order @ [i]) = set (deps ! j) - set order - {i}"
      by auto
    then show ?thesis
      using res(3) deg that len n by (simp add: card_Diff_singleton_if)
  qed
  moreover have "set ready' = ready_key nodes ` eligible deps (set (order @ [i]))"
  proof -
    have inj: "inj (ready_key nodes)"
      by (auto simp: inj_def ready_key_def)
    have "(key, i) \<notin> set ready"
      using sorted by auto
    then have "set ready = ready_key nodes ` (eligible deps (set order) - {i})"
      using ready inj by (simp add: key image_set_diff [OF inj]) blast
    moreover have "{s \<in> set ?ss. indeg ! s = 1} =
        {j. j < length deps \<and> i \<in> set (deps ! j) \<and> card (set (deps ! j) - set order) = 1}"
      using deg by auto
    ultimately show ?thesis
      using res(5) eligible_insert [OF wf g i] by (simp add: image_Un)
  qed
  moreover have "ready_key nodes i \<le> ready_key nodes j" if "j \<in> eligible deps (set order)" for j
  proof -
    have "ready_key nodes j \<in> insert (key, i) (set ready)"
      using ready that by simp
    then show ?thesis
      using sorted by (auto simp: key intro: less_imp_le)
  qed
  then have "greedy nodes deps (order @ [i])"
    using g i by (simp add: greedy_snoc)
  ultimately show ?thesis
    using res len dist n by (auto simp: topo_inv_def successors_of_index(1) [OF wf n(1) idx])
qed

lemma topological_loop_spec:
  assumes wf: "deps_wf deps" and idx: "successor_index deps = (off, succ)"
    and "topo_inv nodes deps st"
  shows "\<exists>order indeg. topological_loop nodes off succ st = Inr order \<and>
    topo_inv nodes deps (indeg, [], order)"
  using assms(2,3)
proof (induction nodes off succ st rule: topological_loop.induct)
  case (1 nodes off succ indeg order)
  then show ?case by auto
next
  case (2 nodes off succ indeg key i ready order)
  obtain indeg' ready' where step: "release_ready nodes (indeg, ready) (successors_of off succ i) =
      Inr (indeg', ready')" "topo_inv nodes deps (indeg', ready', order @ [i])"
    using topo_inv_step [OF wf "2.prems"] by blast
  then show ?case
    using "2.IH" [OF step(1)] "2.prems"(1) by auto
qed

section \<open>The result\<close>

lemma foldl_set_insert:
  "sorted_wrt (<) acc \<Longrightarrow> sorted_wrt (<) (foldl (\<lambda>r e. set_insert e r) acc es) \<and>
   set (foldl (\<lambda>r e. set_insert e r) acc es) = set acc \<union> set es"
  by (induction es arbitrary: acc) (auto simp: set_insert_sorted)

lemma initial_topo_inv:
  assumes "deps_wf deps" and "length nodes = length deps"
  shows "topo_inv nodes deps (map length deps, initial_ready nodes (map length deps), [])"
proof -
  let ?es = "map (\<lambda>(index, node). (node_id node, index))
    (filter (\<lambda>(index, node). map length deps ! index = 0) (enumerate 0 nodes))"
  have "set ?es = ready_key nodes ` {j. j < length deps \<and> deps ! j = []}"
    using assms(2) by (force simp: in_set_enumerate_eq ready_key_def image_iff)
  then have "set (initial_ready nodes (map length deps)) = ready_key nodes ` eligible deps {}"
    "sorted_wrt (<) (initial_ready nodes (map length deps))"
    using foldl_set_insert [of "[]" ?es] by (simp_all add: initial_ready_def eligible_def)
  moreover have "length (deps ! j) = card (set (deps ! j))" if "j < length deps" for j
    using assms(1) that by (auto simp: deps_wf_def distinct_card)
  ultimately show ?thesis
    by (simp add: topo_inv_def greedy_def)
qed

lemma topological_loop_Inr:
  assumes wf: "deps_wf deps" and idx: "successor_index deps = (off, succ)"
    and "length nodes = length deps"
  shows "\<exists>order. topological_loop nodes off succ
      (map length deps, initial_ready nodes (map length deps), []) = Inr order \<and>
    distinct order \<and> eligible deps (set order) = {} \<and> greedy nodes deps order"
  using topological_loop_spec [OF wf idx initial_topo_inv [OF wf assms(3)]]
  by (auto simp: topo_inv_def)

lemma greedy_subset: "greedy nodes deps order \<Longrightarrow> set order \<subseteq> {..<length deps}"
  by (auto simp: greedy_def eligible_def in_set_conv_nth)

lemma greedy_before:
  assumes "greedy nodes deps order" and "k < length order" and "d \<in> set (deps ! (order ! k))"
  shows "\<exists>k'<k. order ! k' = d"
proof -
  have "set (deps ! (order ! k)) \<subseteq> set (take k order)"
    using assms(1,2) by (simp add: greedy_def eligible_def)
  then have "d \<in> set (take k order)"
    using assms(3) by blast
  then show ?thesis
    using assms(2) by (auto simp: in_set_conv_nth)
qed

lemma deps_wfD: "\<lbrakk>deps_wf deps; j < length deps; d \<in> set (deps ! j)\<rbrakk> \<Longrightarrow> d < length deps"
  using nth_mem by (fastforce simp: deps_wf_def)

lemma complete_iff_acyclic:
  assumes wf: "deps_wf deps" and g: "greedy nodes deps order" and dist: "distinct order"
    and stuck: "eligible deps (set order) = {}"
  shows "length order = length deps \<longleftrightarrow> acyclic (dependency_relation deps)"
proof
  assume "length order = length deps"
  then have all: "set order = {..<length deps}"
    using dist greedy_subset [OF g] by (metis card_lessThan card_subset_eq distinct_card finite_lessThan)
  define pos where "pos d = (LEAST k. k < length order \<and> order ! k = d)" for d
  have pos: "pos d < length order \<and> order ! pos d = d" if "d < length deps" for d
  proof -
    have "d \<in> set order"
      using all that by simp
    then have "\<exists>k. k < length order \<and> order ! k = d"
      by (auto simp: in_set_conv_nth)
    then show ?thesis
      unfolding pos_def by (rule LeastI_ex)
  qed
  have "pos d < pos j" if "(d, j) \<in> dependency_relation deps" for d j
  proof -
    have j: "j < length deps" "d \<in> set (deps ! j)"
      using that by (auto simp: dependency_relation_def)
    then obtain k' where "k' < pos j" "order ! k' = d"
      using greedy_before [OF g, of "pos j" d] pos [of j] by auto
    moreover have "pos d \<le> k'"
      unfolding pos_def
      by (rule Least_le) (use \<open>k' < pos j\<close> \<open>order ! k' = d\<close> pos [OF j(1)] in simp)
    ultimately show ?thesis
      by simp
  qed
  then have "dependency_relation deps \<subseteq> measure pos"
    by auto
  then show "acyclic (dependency_relation deps)"
    by (rule wf_acyclic [OF wf_subset [OF wf_measure]])
next
  assume acyc: "acyclic (dependency_relation deps)"
  have "finite (dependency_relation deps)"
    by (rule finite_subset [of _ "{..<length deps} \<times> {..<length deps}"])
      (use deps_wfD [OF wf] in \<open>auto simp: dependency_relation_def\<close>)
  then have wfR: "Wellfounded.wf (dependency_relation deps)"
    using acyc by (rule finite_acyclic_wf)
  have "j \<in> set order" if "j < length deps" for j
    using that
  proof (induction j rule: wf_induct_rule [OF wfR])
    case (1 j)
    have "d \<in> set order" if "d \<in> set (deps ! j)" for d
      using 1 that deps_wfD [OF wf] by (simp add: dependency_relation_def)
    then show ?case
      using stuck "1.prems" by (auto simp: eligible_def)
  qed
  then have "set order = {..<length deps}"
    using greedy_subset [OF g] by auto
  then show "length order = length deps"
    using dist by (metis card_lessThan distinct_card)
qed

text \<open>What \<open>deterministic_topological_order\<close> returns on well-formed dependencies: the greedy
  order of all nodes if there is no cycle, the error \<open>Cycle\<close> otherwise, and never a panic.\<close>

lemma topological_order_spec:
  assumes wf: "deps_wf deps" and idx: "successor_index deps = (off, succ)"
    and len: "length nodes = length deps"
  shows "(acyclic (dependency_relation deps) \<and>
      (\<exists>order. deterministic_topological_order nodes deps off succ = Inr order \<and>
         distinct order \<and> set order = {..<length deps} \<and> greedy nodes deps order)) \<or>
    (\<not> acyclic (dependency_relation deps) \<and>
      deterministic_topological_order nodes deps off succ = Inl Cycle)"
proof -
  obtain order where ord: "topological_loop nodes off succ
      (map length deps, initial_ready nodes (map length deps), []) = Inr order"
    "distinct order" "eligible deps (set order) = {}" "greedy nodes deps order"
    using topological_loop_Inr [OF wf idx len] by blast
  note iff = complete_iff_acyclic [OF wf ord(4,2,3)]
  show ?thesis
  proof (cases "length order = length deps")
    case True
    then have "set order = {..<length deps}"
      using ord(2) greedy_subset [OF ord(4)]
      by (metis card_lessThan card_subset_eq distinct_card finite_lessThan)
    then show ?thesis
      using True iff ord len by (simp add: deterministic_topological_order_def)
  next
    case False
    then show ?thesis
      using iff ord(1) len by (simp add: deterministic_topological_order_def)
  qed
qed

text \<open>A greedy order of all nodes is unique.\<close>

lemma greedy_unique:
  assumes "greedy nodes deps xs" and "greedy nodes deps ys" and "length xs = length ys"
  shows "xs = ys"
proof -
  have "take k xs = take k ys" if "k \<le> length xs" for k
    using that
  proof (induction k)
    case (Suc k)
    have same: "take k xs = take k ys"
      using Suc by simp
    have x: "xs ! k \<in> eligible deps (set (take k xs))"
      "\<forall>j\<in>eligible deps (set (take k xs)). ready_key nodes (xs ! k) \<le> ready_key nodes j"
      using assms(1) Suc.prems by (auto simp: greedy_def)
    have y: "ys ! k \<in> eligible deps (set (take k xs))"
      "\<forall>j\<in>eligible deps (set (take k xs)). ready_key nodes (ys ! k) \<le> ready_key nodes j"
      using assms(2,3) Suc.prems by (auto simp: greedy_def same)
    have "ready_key nodes (xs ! k) = ready_key nodes (ys ! k)"
      using x y by (meson order_antisym)
    then have "xs ! k = ys ! k"
      by (simp add: ready_key_def)
    then show ?case
      using same Suc.prems assms(3) by (simp add: take_Suc_conv_app_nth)
  qed simp
  from this [of "length xs"] show ?thesis
    using assms(3) by simp
qed

end
