(* ===== verification/Completion_Graph_Valid.thy ===== *)
theory Completion_Graph_Valid
  imports Completion_Topology "HOL-Library.Multiset"
begin

text \<open>
  What \<open>CompletionGraphV1::new\<close> accepts and what it returns. The scan over the nodes is
  characterised by the prefix it has read, so that success of the whole constructor becomes the
  declarative predicate \<open>graph_valid\<close>; a returned graph satisfies \<open>compiled\<close>, which is all
  that the completion authority relies on.
\<close>

section \<open>Folds that see their prefix\<close>

lemma try_fold_prefix:
  assumes "\<And>pre x acc. f (h pre) x = Inr acc \<longleftrightarrow> acc = h (pre @ [x]) \<and> (\<forall>p\<in>set pre. R p x) \<and> Q x"
  shows "try_fold f (h pre) xs = Inr acc \<longleftrightarrow> acc = h (pre @ xs) \<and> sorted_wrt R xs \<and>
    (\<forall>x\<in>set xs. Q x) \<and> (\<forall>p\<in>set pre. \<forall>x\<in>set xs. R p x)"
proof (induction xs arbitrary: pre)
  case (Cons x xs)
  show ?case
    by (auto simp: and_then_Inr assms Cons.IH)
qed auto

section \<open>What a node contributes\<close>

fun recorded_event :: "completion_node_kind \<Rightarrow> event_identity option" where
  "recorded_event (EventRecord _ event) = Some event"
| "recorded_event _ = None"

fun submitted_future :: "completion_node_kind \<Rightarrow> future_identity option" where
  "submitted_future (Future future) = Some future"
| "submitted_future _ = None"

fun named_event :: "completion_node_kind \<Rightarrow> event_identity option" where
  "named_event (Future _) = None"
| "named_event (EventRecord _ event) = Some event"
| "named_event (EventWait _ event _) = Some event"

fun awaited :: "completion_node_kind \<Rightarrow> (event_identity \<times> completion_node_id) option" where
  "awaited (EventWait _ event recorded_by) = Some (event, recorded_by)"
| "awaited _ = None"

definition positive :: "nat \<Rightarrow> nat option" where
  "positive n = (if n = 0 then None else Some n)"

definition scan_of :: "completion_node list \<Rightarrow> graph_scan" where
  "scan_of ns =
     \<lparr>stream_node_counts = (\<lambda>s. positive (length (filter (\<lambda>n. node_stream n = s) ns))),
      stream_head_counts = (\<lambda>s. positive
        (length (filter (\<lambda>n. node_stream n = s \<and> node_stream_predecessor n = None) ns))),
      stream_successors =
        (\<lambda>p. map_option node_id (find (\<lambda>n. node_stream_predecessor n = Some p) ns)),
      event_records = (\<lambda>e. map_option node_id (find (\<lambda>n. recorded_event (node_kind n) = Some e) ns)),
      futures = (\<lambda>f. map_option node_id (find (\<lambda>n. submitted_future (node_kind n) = Some f) ns))\<rparr>"

lemma find_append_last:
  "find P (xs @ [x]) = (case find P xs of None \<Rightarrow> if P x then Some x else None | Some y \<Rightarrow> Some y)"
  by (induction xs) auto

lemma scan_of_Nil: "scan_of [] = empty_scan"
  by (simp add: scan_of_def empty_scan_def positive_def)

lemma bump_positive:
  "bump (\<lambda>s. positive (f s)) k = (\<lambda>s. positive (if s = k then f s + 1 else f s))"
  by (auto simp: bump_def positive_def fun_eq_iff)

text \<open>Two nodes clash when they submit one future, record one event or name one predecessor.\<close>

definition clash_free :: "completion_node \<Rightarrow> completion_node \<Rightarrow> bool" where
  "clash_free n n' \<longleftrightarrow>
     (submitted_future (node_kind n') \<noteq> None \<longrightarrow>
       submitted_future (node_kind n) \<noteq> submitted_future (node_kind n')) \<and>
     (recorded_event (node_kind n') \<noteq> None \<longrightarrow>
       recorded_event (node_kind n) \<noteq> recorded_event (node_kind n')) \<and>
     (node_stream_predecessor n' \<noteq> None \<longrightarrow>
       node_stream_predecessor n \<noteq> node_stream_predecessor n')"

definition node_ok :: "context_identity \<Rightarrow> stream_identity list \<Rightarrow> completion_node list \<Rightarrow>
    (completion_node_id \<rightharpoonup> nat) \<Rightarrow> completion_node \<Rightarrow> bool" where
  "node_ok ctx streams nodes idx n \<longleftrightarrow>
     stream_context (node_stream n) = ctx \<and> node_stream n \<in> set streams \<and>
     (\<forall>e. named_event (node_kind n) = Some e \<longrightarrow> event_context e = ctx) \<and>
     (\<forall>p. node_stream_predecessor n = Some p \<longrightarrow>
       (\<exists>i. idx p = Some i \<and> node_stream (nodes ! i) = node_stream n))"

definition count_node :: "completion_node \<Rightarrow> graph_scan \<Rightarrow> graph_scan" where
  "count_node n acc = acc\<lparr>stream_node_counts := bump (stream_node_counts acc) (node_stream n)\<rparr>"

definition add_kind :: "completion_node \<Rightarrow> graph_scan \<Rightarrow> graph_scan" where
  "add_kind n acc = (case node_kind n of
      Future f \<Rightarrow> acc\<lparr>futures := (futures acc)(f \<mapsto> node_id n)\<rparr>
    | EventRecord s e \<Rightarrow> acc\<lparr>event_records := (event_records acc)(e \<mapsto> node_id n)\<rparr>
    | EventWait s e r \<Rightarrow> acc)"

definition add_predecessor :: "completion_node \<Rightarrow> graph_scan \<Rightarrow> graph_scan" where
  "add_predecessor n acc = (case node_stream_predecessor n of
      None \<Rightarrow> acc\<lparr>stream_head_counts := bump (stream_head_counts acc) (node_stream n)\<rparr>
    | Some p \<Rightarrow> acc\<lparr>stream_successors := (stream_successors acc)(p \<mapsto> node_id n)\<rparr>)"

lemma scan_kind_Inr:
  "scan_kind ctx acc n = Inr acc' \<longleftrightarrow> acc' = add_kind n acc \<and>
     (\<forall>e. named_event (node_kind n) = Some e \<longrightarrow> event_context e = ctx) \<and>
     (\<forall>f. submitted_future (node_kind n) = Some f \<longrightarrow> futures acc f = None) \<and>
     (\<forall>e. recorded_event (node_kind n) = Some e \<longrightarrow> event_records acc e = None)"
  by (cases "node_kind n") (auto simp: scan_kind_def add_kind_def split: option.splits)

lemma scan_predecessor_Inr:
  "scan_predecessor nodes idx acc n = Inr acc' \<longleftrightarrow> acc' = add_predecessor n acc \<and>
     (\<forall>p. node_stream_predecessor n = Some p \<longrightarrow> stream_successors acc p = None \<and>
       (\<exists>i. idx p = Some i \<and> node_stream (nodes ! i) = node_stream n))"
  by (cases "node_stream_predecessor n")
    (auto simp: scan_predecessor_def add_predecessor_def split: option.splits)

lemma find_key_snoc:
  assumes "\<forall>x\<in>set pre. k n \<noteq> None \<longrightarrow> k x \<noteq> k n"
  shows "(\<lambda>v. map_option g (find (\<lambda>x. k x = Some v) (pre @ [n]))) =
    (case k n of None \<Rightarrow> (\<lambda>v. map_option g (find (\<lambda>x. k x = Some v) pre))
     | Some a \<Rightarrow> (\<lambda>v. map_option g (find (\<lambda>x. k x = Some v) pre))(a \<mapsto> g n))"
proof (cases "k n")
  case None
  then show ?thesis
    by (auto simp: fun_eq_iff find_append_last split: option.splits)
next
  case (Some a)
  then have "find (\<lambda>x. k x = Some a) pre = None"
    using assms by (auto simp: find_None_iff)
  then show ?thesis
    using Some by (auto simp: fun_eq_iff find_append_last split: option.splits)
qed

lemma scan_of_snoc:
  assumes "\<forall>p\<in>set pre. clash_free p n"
  shows "add_predecessor n (add_kind n (count_node n (scan_of pre))) = scan_of (pre @ [n])"
proof -
  note finds =
    find_key_snoc [of pre node_stream_predecessor n node_id]
    find_key_snoc [of pre "\<lambda>n. recorded_event (node_kind n)" n node_id]
    find_key_snoc [of pre "\<lambda>n. submitted_future (node_kind n)" n node_id]
  have "\<forall>x\<in>set pre. node_stream_predecessor n \<noteq> None \<longrightarrow>
      node_stream_predecessor x \<noteq> node_stream_predecessor n"
    "\<forall>x\<in>set pre. recorded_event (node_kind n) \<noteq> None \<longrightarrow>
      recorded_event (node_kind x) \<noteq> recorded_event (node_kind n)"
    "\<forall>x\<in>set pre. submitted_future (node_kind n) \<noteq> None \<longrightarrow>
      submitted_future (node_kind x) \<noteq> submitted_future (node_kind n)"
    using assms by (auto simp: clash_free_def)
  note eqs = finds(1) [OF this(1)] finds(2) [OF this(2)] finds(3) [OF this(3)]
  show ?thesis
    unfolding scan_of_def eqs
    by (cases "node_kind n"; cases "node_stream_predecessor n")
      (auto simp: count_node_def add_kind_def add_predecessor_def bump_positive fun_eq_iff)
qed

lemma scan_node_Inr:
  "scan_node ctx streams nodes idx (scan_of pre) n = Inr acc \<longleftrightarrow>
     acc = scan_of (pre @ [n]) \<and> (\<forall>p\<in>set pre. clash_free p n) \<and> node_ok ctx streams nodes idx n"
proof -
  have free: "(\<forall>p\<in>set pre. clash_free p n) \<longleftrightarrow>
      (\<forall>f. submitted_future (node_kind n) = Some f \<longrightarrow> futures (scan_of pre) f = None) \<and>
      (\<forall>e. recorded_event (node_kind n) = Some e \<longrightarrow> event_records (scan_of pre) e = None) \<and>
      (\<forall>p. node_stream_predecessor n = Some p \<longrightarrow> stream_successors (scan_of pre) p = None)"
    by (auto simp: clash_free_def scan_of_def find_None_iff)
  have fields: "futures (count_node n acc) = futures acc"
    "event_records (count_node n acc) = event_records acc"
    "stream_successors (add_kind n (count_node n acc)) = stream_successors acc" for acc
    by (auto simp: count_node_def add_kind_def split: completion_node_kind.splits)
  show ?thesis
    unfolding scan_node_def count_node_def [symmetric] free node_ok_def
    using scan_of_snoc [of pre n]
    by (auto simp: and_then_Inr if_Inl_Inr scan_kind_Inr scan_predecessor_Inr fields free)
qed

lemma scan_Inr:
  "try_fold (scan_node ctx streams nodes idx) empty_scan ns = Inr acc \<longleftrightarrow>
     acc = scan_of ns \<and> sorted_wrt clash_free ns \<and> (\<forall>n\<in>set ns. node_ok ctx streams nodes idx n)"
  using try_fold_prefix [of "scan_node ctx streams nodes idx" scan_of clash_free
      "node_ok ctx streams nodes idx" "[]" ns acc, OF scan_node_Inr]
  by (simp add: scan_of_Nil)

lemma check_stream_heads_Inr:
  "check_stream_heads (scan_of ns) s = Inr u \<longleftrightarrow>
     length (filter (\<lambda>n. node_stream n = s \<and> node_stream_predecessor n = None) ns) = 1"
proof -
  have "filter (\<lambda>n. node_stream n = s) ns = [] \<Longrightarrow>
      filter (\<lambda>n. node_stream n = s \<and> node_stream_predecessor n = None) ns = []"
    by (auto simp: filter_empty_conv)
  then show ?thesis
    by (auto simp: check_stream_heads_def scan_of_def positive_def Let_def)
qed

lemma check_event_wait_Inr:
  "check_event_wait nodes idx n = Inr u \<longleftrightarrow> (\<forall>e r. awaited (node_kind n) = Some (e, r) \<longrightarrow>
     (\<exists>i. idx r = Some i \<and> recorded_event (node_kind (nodes ! i)) = Some e))"
  by (cases "node_kind n")
    (auto simp: check_event_wait_def split: option.splits completion_node_kind.splits)

section \<open>Sorting and indexing\<close>

lemma adjacent_duplicate_sorted:
  assumes "sorted xs"
  shows "adjacent_duplicate xs = None \<longleftrightarrow> distinct xs"
proof -
  have "adjacent_duplicate xs = None \<longleftrightarrow> (\<forall>(a, b)\<in>set (windows2 xs). a \<noteq> b)"
    by (auto simp: adjacent_duplicate_def find_None_iff)
  also have "\<dots> \<longleftrightarrow> (\<forall>(a, b)\<in>set (windows2 xs). a < b)"
    using assms by (induction xs rule: windows2.induct) auto
  also have "\<dots> \<longleftrightarrow> sorted_wrt (<) xs"
    using windows2_sorted_wrt [of xs id] by simp
  also have "\<dots> \<longleftrightarrow> distinct xs"
    using assms by (simp add: strict_sorted_iff)
  finally show ?thesis .
qed

lemma map_sort_key: "map f (sort_key f xs) = sort (map f xs)"
  by (rule properties_for_sort [symmetric]) simp_all

lemma sort_key_distinct_iff [simp]:
  "distinct (map f (sort_key f xs)) \<longleftrightarrow> distinct (map f xs)"
  unfolding map_sort_key by simp

lemma build_node_indices_Some:
  assumes "distinct (map node_id nodes)"
  shows "build_node_indices nodes k = Some i \<longleftrightarrow> i < length nodes \<and> node_id (nodes ! i) = k"
  using assms
proof (induction nodes arbitrary: i rule: rev_induct)
  case Nil
  then show ?case by (simp add: build_node_indices_def)
next
  case (snoc n nodes)
  have "build_node_indices (nodes @ [n]) = (build_node_indices nodes)(node_id n \<mapsto> length nodes)"
    by (simp add: build_node_indices_def enumerate_append_eq)
  moreover have "node_id (nodes ! i) \<noteq> node_id n" if "i < length nodes" for i
  proof -
    have "node_id n \<notin> node_id ` set nodes"
      using snoc.prems by auto
    then show ?thesis
      using nth_mem [OF that] by (metis imageI)
  qed
  ultimately show ?case
    using snoc by (auto simp: nth_append less_Suc_eq)
qed

section \<open>Dependencies\<close>

definition prerequisites :: "completion_node \<Rightarrow> completion_node_id set" where
  "prerequisites n = {p. node_stream_predecessor n = Some p} \<union> {r. \<exists>e. awaited (node_kind n) = Some (e, r)}"

lemma set_node_dependencies:
  "set (node_dependencies nodes idx n) = (\<lambda>p. the (idx p)) ` prerequisites n"
  by (cases "node_kind n"; cases "node_stream_predecessor n")
    (auto simp: node_dependencies_def prerequisites_def Let_def split: if_splits)

lemma distinct_node_dependencies: "distinct (node_dependencies nodes idx n)"
  by (cases "node_kind n"; cases "node_stream_predecessor n") (auto simp: node_dependencies_def Let_def)

lemma finite_prerequisites [simp]: "finite (prerequisites n)"
proof -
  have "{p. node_stream_predecessor n = Some p} = set_option (node_stream_predecessor n)"
    "{r. \<exists>e. awaited (node_kind n) = Some (e, r)} = snd ` set_option (awaited (node_kind n))"
    by (auto simp: image_iff)
  then show ?thesis
    by (simp add: prerequisites_def)
qed

text \<open>Every prerequisite names a node of the graph.\<close>

definition resolved :: "completion_node list \<Rightarrow> bool" where
  "resolved nodes \<longleftrightarrow> (\<forall>n\<in>set nodes. prerequisites n \<subseteq> node_id ` set nodes)"

lemma resolved_index:
  assumes "resolved nodes" and "distinct (map node_id nodes)" and "n \<in> set nodes"
    and "p \<in> prerequisites n"
  shows "\<exists>i<length nodes. build_node_indices nodes p = Some i \<and> node_id (nodes ! i) = p"
proof -
  obtain m where "m \<in> set nodes" "node_id m = p"
    using assms(1,3,4) by (auto simp: resolved_def)
  then obtain i where "i < length nodes" "node_id (nodes ! i) = p"
    by (auto simp: in_set_conv_nth)
  then show ?thesis
    using build_node_indices_Some [OF assms(2)] by blast
qed

lemma deps_wf_build:
  assumes "resolved nodes" and "distinct (map node_id nodes)"
  shows "deps_wf (build_dependency_indices nodes (build_node_indices nodes))"
  using resolved_index [OF assms] distinct_node_dependencies
  by (fastforce simp: deps_wf_def build_dependency_indices_def set_node_dependencies)

text \<open>The dependency list of a node, read back as identities, is its set of prerequisites.\<close>

lemma dependency_ids:
  assumes "resolved nodes" and "distinct (map node_id nodes)" and "n \<in> set nodes"
  shows "(\<lambda>i. node_id (nodes ! i)) ` set (node_dependencies nodes (build_node_indices nodes) n) =
    prerequisites n"
  using resolved_index [OF assms]
  by (force simp: set_node_dependencies image_image intro: rev_image_eqI)

lemma length_node_dependencies:
  assumes "resolved nodes" and "distinct (map node_id nodes)" and "n \<in> set nodes"
  shows "length (node_dependencies nodes (build_node_indices nodes) n) = card (prerequisites n)"
proof -
  have "inj_on (\<lambda>p. the (build_node_indices nodes p)) (prerequisites n)"
  proof (rule inj_onI)
    fix p q
    assume pq: "p \<in> prerequisites n" "q \<in> prerequisites n"
      "the (build_node_indices nodes p) = the (build_node_indices nodes q)"
    obtain i where "build_node_indices nodes p = Some i" "node_id (nodes ! i) = p"
      using resolved_index [OF assms pq(1)] by blast
    moreover obtain j where "build_node_indices nodes q = Some j" "node_id (nodes ! j) = q"
      using resolved_index [OF assms pq(2)] by blast
    ultimately show "p = q"
      using pq(3) by simp
  qed
  then show ?thesis
    using distinct_card [OF distinct_node_dependencies, of nodes "build_node_indices nodes" n]
    by (simp add: set_node_dependencies card_image)
qed

section \<open>Cycles\<close>

definition prerequisite_relation :: "completion_node list \<Rightarrow> (completion_node_id \<times> completion_node_id) set" where
  "prerequisite_relation nodes = {(p, node_id n) | p n. n \<in> set nodes \<and> p \<in> prerequisites n}"

lemma acyclic_inv_image:
  assumes "acyclic R" and "finite R" and "\<And>a b. (a, b) \<in> S \<Longrightarrow> (f a, f b) \<in> R"
  shows "acyclic S"
proof -
  have "wf (inv_image R f)"
    by (rule wf_inv_image [OF finite_acyclic_wf [OF assms(2,1)]])
  then show ?thesis
    by (rule wf_acyclic [OF wf_subset]) (use assms(3) in auto)
qed

lemma acyclic_dependencies_iff:
  assumes res: "resolved nodes" and dist: "distinct (map node_id nodes)"
  shows "acyclic (dependency_relation (build_dependency_indices nodes (build_node_indices nodes))) \<longleftrightarrow>
    acyclic (prerequisite_relation nodes)" (is "acyclic ?I \<longleftrightarrow> acyclic ?P")
proof
  let ?idx = "build_node_indices nodes"
  let ?deps = "build_dependency_indices nodes ?idx"
  have nth: "?deps ! j = node_dependencies nodes ?idx (nodes ! j)" if "j < length nodes" for j
    using that by (simp add: build_dependency_indices_def)
  have len: "length ?deps = length nodes"
    by (simp add: build_dependency_indices_def)
  have finI: "finite ?I"
    by (rule finite_subset [of _ "{..<length ?deps} \<times> {..<length ?deps}"])
      (use deps_wfD [OF deps_wf_build [OF assms]] in \<open>auto simp: dependency_relation_def\<close>)
  have "?P \<subseteq> (\<Union>n\<in>set nodes. prerequisites n \<times> {node_id n})"
    by (auto simp: prerequisite_relation_def)
  then have finP: "finite ?P"
    by (rule finite_subset) simp
  show "acyclic ?P" if "acyclic ?I"
  proof (rule acyclic_inv_image [OF that finI, where f = "\<lambda>p. the (?idx p)"])
    fix p k
    assume "(p, k) \<in> ?P"
    then obtain n where n: "n \<in> set nodes" "p \<in> prerequisites n" "k = node_id n"
      by (auto simp: prerequisite_relation_def)
    then obtain j where j: "j < length nodes" "nodes ! j = n"
      by (auto simp: in_set_conv_nth)
    then have "?idx k = Some j"
      using build_node_indices_Some [OF dist] n(3) by blast
    then show "(the (?idx p), the (?idx k)) \<in> ?I"
      using n j nth len by (simp add: dependency_relation_def set_node_dependencies)
  qed
  show "acyclic ?I" if "acyclic ?P"
  proof (rule acyclic_inv_image [OF that finP, where f = "\<lambda>i. node_id (nodes ! i)"])
    fix i j
    assume "(i, j) \<in> ?I"
    then have j: "j < length nodes" "i \<in> set (node_dependencies nodes ?idx (nodes ! j))"
      using nth len by (auto simp: dependency_relation_def)
    then have "node_id (nodes ! i) \<in> prerequisites (nodes ! j)"
      using dependency_ids [OF assms, of "nodes ! j"] by (metis imageI nth_mem)
    then show "(node_id (nodes ! i), node_id (nodes ! j)) \<in> ?P"
      using j(1) nth_mem by (auto simp: prerequisite_relation_def)
  qed
qed

section \<open>What a compiled graph satisfies\<close>

text \<open>The contents of the compiled arrays at an index in range.\<close>

definition deps_of :: "completion_graph \<Rightarrow> nat \<Rightarrow> nat list" where
  "deps_of g i = dependency_indices g ! i"

definition succs_of :: "completion_graph \<Rightarrow> nat \<Rightarrow> nat list" where
  "succs_of g i = successors_of (successor_offsets g) (successor_indices g) i"

definition rank_of :: "completion_graph \<Rightarrow> nat \<Rightarrow> nat" where
  "rank_of g i = topological_ranks g ! i"

definition compiled :: "completion_graph \<Rightarrow> bool" where
  "compiled g \<longleftrightarrow>
     length (dependency_indices g) = length (graph_nodes g) \<and>
     sorted_wrt (<) (map node_id (graph_nodes g)) \<and>
     deps_wf (dependency_indices g) \<and>
     length (topological_ranks g) = length (graph_nodes g) \<and>
     slices_ok (length (graph_nodes g)) (successor_offsets g) (successor_indices g) \<and>
     (\<forall>i<length (graph_nodes g).
        succs_of g i =
          filter (\<lambda>j. i \<in> set (deps_of g j)) [0..<length (graph_nodes g)]) \<and>
     (\<exists>order. greedy (graph_nodes g) (dependency_indices g) order \<and> distinct order \<and>
        set order = {..<length (graph_nodes g)} \<and>
        topological_order g = map (\<lambda>i. node_id (graph_nodes g ! i)) order \<and>
        (\<forall>k<length order. rank_of g (order ! k) = k))"

lemma compiled_accessors:
  assumes "compiled g" and "i < length (graph_nodes g)"
  shows "graph_dependencies g i = Some (deps_of g i)" and "graph_successors g i = Some (succs_of g i)"
    and "topological_rank g i = Some (rank_of g i)"
  using assms by (simp_all add: compiled_def slices_ok_def graph_dependencies_def graph_successors_def topological_rank_def
      deps_of_def succs_of_def rank_of_def successors_of_def)

lemma ranks_of_order_snoc:
  "ranks_of_order n (order @ [x]) = (ranks_of_order n order)[x := length order]"
  by (simp add: ranks_of_order_def enumerate_append_eq)

lemma length_ranks_of_order [simp]: "length (ranks_of_order n order) = n"
  by (induction order rule: rev_induct) (simp_all add: ranks_of_order_snoc, simp add: ranks_of_order_def)

lemma ranks_of_order_nth:
  "\<lbrakk>distinct order; set order \<subseteq> {..<n}; k < length order\<rbrakk> \<Longrightarrow>
   ranks_of_order n order ! (order ! k) = k"
proof (induction order rule: rev_induct)
  case (snoc x order)
  show ?case
  proof (cases "k = length order")
    case True
    then show ?thesis
      using snoc.prems by (simp add: ranks_of_order_snoc)
  next
    case False
    then have "k < length order"
      using snoc.prems by simp
    moreover from this have "order ! k \<noteq> x"
      using snoc.prems nth_mem by fastforce
    ultimately show ?thesis
      using snoc by (simp add: ranks_of_order_snoc nth_append)
  qed
qed simp

lemma sorted_wrt_pairwise:
  assumes "distinct xs" and "\<And>x y. R x y \<Longrightarrow> R y x"
  shows "sorted_wrt R xs \<longleftrightarrow> (\<forall>x\<in>set xs. \<forall>y\<in>set xs. x \<noteq> y \<longrightarrow> R x y)"
  using assms(1) by (induction xs) (auto dest: assms(2))

lemma filter_length_1:
  assumes "distinct xs"
  shows "length (filter P xs) = 1 \<longleftrightarrow> (\<exists>!x. x \<in> set xs \<and> P x)"
proof -
  have "length (filter P xs) = card {x \<in> set xs. P x}"
    using distinct_card [OF distinct_filter [OF assms], of P] by simp
  also have "\<dots> = 1 \<longleftrightarrow> (\<exists>x. {x \<in> set xs. P x} = {x})"
    by (simp add: card_1_singleton_iff)
  also have "\<dots> \<longleftrightarrow> (\<exists>!x. x \<in> set xs \<and> P x)"
  proof
    assume "\<exists>x. {x \<in> set xs. P x} = {x}"
    then obtain x where "{x \<in> set xs. P x} = {x}" ..
    then show "\<exists>!x. x \<in> set xs \<and> P x"
      by (intro ex1I [of _ x]) blast+
  qed blast
  finally show ?thesis .
qed

lemma compile_graph_Inr:
  assumes res: "resolved nodes" and sorted: "sorted_wrt (<) (map node_id nodes)"
  shows "compile_graph ctx streams nodes (build_node_indices nodes) = Inr g \<Longrightarrow>
      compiled g \<and> graph_context g = ctx \<and> graph_streams g = streams \<and> graph_nodes g = nodes \<and>
      dependency_indices g = build_dependency_indices nodes (build_node_indices nodes)"
    and "(\<exists>g. compile_graph ctx streams nodes (build_node_indices nodes) = Inr g) \<longleftrightarrow>
      sum_list (map (\<lambda>n. card (prerequisites n)) nodes) \<le> MAX_GRAPH_EDGES \<and>
      acyclic (prerequisite_relation nodes)"
proof -
  let ?deps = "build_dependency_indices nodes (build_node_indices nodes)"
  obtain off succ where idx: "successor_index ?deps = (off, succ)"
    by (cases "successor_index ?deps")
  have dist: "distinct (map node_id nodes)"
    using sorted by (simp add: strict_sorted_iff)
  have wf: "deps_wf ?deps" and len: "length nodes = length ?deps"
    using deps_wf_build [OF res dist] by (simp_all add: build_dependency_indices_def)
  have count: "sum_list (map length ?deps) = sum_list (map (\<lambda>n. card (prerequisites n)) nodes)"
    using length_node_dependencies [OF res dist]
    by (simp add: build_dependency_indices_def o_def cong: map_cong)
  note spec = topological_order_spec [OF wf idx len]
  note acyc = acyclic_dependencies_iff [OF res dist]
  show "(\<exists>g. compile_graph ctx streams nodes (build_node_indices nodes) = Inr g) \<longleftrightarrow>
      sum_list (map (\<lambda>n. card (prerequisites n)) nodes) \<le> MAX_GRAPH_EDGES \<and>
      acyclic (prerequisite_relation nodes)"
    using spec acyc by (auto simp: compile_graph_def Let_def idx count not_less)
  assume g: "compile_graph ctx streams nodes (build_node_indices nodes) = Inr g"
  obtain order where ord: "deterministic_topological_order nodes ?deps off succ = Inr order"
    "distinct order" "set order = {..<length ?deps}" "greedy nodes ?deps order"
    using spec g by (auto simp: compile_graph_def Let_def idx split: if_splits)
  have geq: "g = \<lparr>graph_context = ctx, graph_streams = streams, graph_nodes = nodes,
      topological_order = map (\<lambda>index. node_id (nodes ! index)) order,
      dependency_indices = ?deps, successor_offsets = off, successor_indices = succ,
      topological_ranks = ranks_of_order (length nodes) order\<rparr>"
    using g ord(1) by (auto simp: compile_graph_def Let_def idx split: if_splits)
  have "compiled g"
    unfolding compiled_def
    using sorted wf len ord successors_of_index(1) [OF wf _ idx] successor_slices [OF wf idx]
    by (auto simp: geq succs_of_def deps_of_def rank_of_def
        ranks_of_order_nth intro!: exI [of _ order])
  then show "compiled g \<and> graph_context g = ctx \<and> graph_streams g = streams \<and> graph_nodes g = nodes \<and>
      dependency_indices g = ?deps"
    by (simp add: geq)
qed

section \<open>What the constructor accepts\<close>

text \<open>The conditions on the parts of a graph, without any order of its lists: first its shape, then
  the bound on its edges and the absence of a cycle.\<close>

definition graph_shape :: "context_identity \<Rightarrow> stream_identity list \<Rightarrow> completion_node list \<Rightarrow> bool" where
  "graph_shape ctx streams nodes \<longleftrightarrow>
     streams \<noteq> [] \<and> length streams \<le> MAX_GRAPH_STREAMS \<and>
     nodes \<noteq> [] \<and> length nodes \<le> MAX_GRAPH_NODES \<and>
     distinct streams \<and> (\<forall>s\<in>set streams. stream_context s = ctx) \<and>
     distinct (map node_id nodes) \<and>
     (\<forall>n\<in>set nodes. \<forall>n'\<in>set nodes. n \<noteq> n' \<longrightarrow> clash_free n n') \<and>
     (\<forall>n\<in>set nodes. stream_context (node_stream n) = ctx \<and> node_stream n \<in> set streams \<and>
        (\<forall>e. named_event (node_kind n) = Some e \<longrightarrow> event_context e = ctx) \<and>
        (\<forall>p. node_stream_predecessor n = Some p \<longrightarrow>
          (\<exists>m\<in>set nodes. node_id m = p \<and> node_stream m = node_stream n))) \<and>
     (\<forall>s\<in>set streams. \<exists>!n. n \<in> set nodes \<and> node_stream n = s \<and> node_stream_predecessor n = None) \<and>
     (\<forall>n\<in>set nodes. \<forall>e r. awaited (node_kind n) = Some (e, r) \<longrightarrow>
        (\<exists>m\<in>set nodes. node_id m = r \<and> recorded_event (node_kind m) = Some e))"

definition graph_valid :: "context_identity \<Rightarrow> stream_identity list \<Rightarrow> completion_node list \<Rightarrow> bool" where
  "graph_valid ctx streams nodes \<longleftrightarrow> graph_shape ctx streams nodes \<and>
     sum_list (map (\<lambda>n. card (prerequisites n)) nodes) \<le> MAX_GRAPH_EDGES \<and>
     acyclic (prerequisite_relation nodes)"

lemma index_ex_iff:
  assumes "distinct (map node_id nodes)"
  shows "(\<exists>i. build_node_indices nodes p = Some i \<and> Q (nodes ! i)) \<longleftrightarrow>
    (\<exists>m\<in>set nodes. node_id m = p \<and> Q m)"
  unfolding build_node_indices_Some [OF assms] by (metis in_set_conv_nth)

lemma clash_free_sym: "clash_free n n' \<Longrightarrow> clash_free n' n"
  by (auto simp: clash_free_def)

lemma sum_list_sort_key:
  "sum_list (map (\<lambda>n. f n :: nat) (sort_key k xs)) = sum_list (map f xs)"
  by (metis mset_map mset_sort sum_mset_sum_list)

lemma shape_resolved: "graph_shape ctx streams nodes \<Longrightarrow> resolved nodes"
  unfolding graph_shape_def resolved_def prerequisites_def by blast

lemma graph_new_unfold:
  fixes streams nodes
  defines "ss \<equiv> sort streams" and "ns \<equiv> sort_key node_id nodes"
  shows "graph_new ctx streams nodes = Inr g \<longleftrightarrow>
     streams \<noteq> [] \<and> length streams \<le> MAX_GRAPH_STREAMS \<and>
     nodes \<noteq> [] \<and> length nodes \<le> MAX_GRAPH_NODES \<and>
     distinct streams \<and> (\<forall>s\<in>set streams. stream_context s = ctx) \<and>
     distinct (map node_id nodes) \<and> sorted_wrt clash_free ns \<and>
     (\<forall>n\<in>set nodes. node_ok ctx ss ns (build_node_indices ns) n) \<and>
     (\<forall>s\<in>set streams.
        length (filter (\<lambda>n. node_stream n = s \<and> node_stream_predecessor n = None) ns) = 1) \<and>
     (\<forall>n\<in>set nodes. \<forall>e r. awaited (node_kind n) = Some (e, r) \<longrightarrow>
        (\<exists>i. build_node_indices ns r = Some i \<and> recorded_event (node_kind (ns ! i)) = Some e)) \<and>
     compile_graph ctx ss ns (build_node_indices ns) = Inr g"
proof -
  have "adjacent_duplicate ss = None \<longleftrightarrow> distinct streams"
    using adjacent_duplicate_sorted [of ss] by (simp add: ss_def)
  moreover have "adjacent_duplicate (map node_id ns) = None \<longleftrightarrow> distinct (map node_id nodes)"
    using adjacent_duplicate_sorted [of "map node_id ns"] by (simp add: ns_def)
  moreover have "set ss = set streams" "set ns = set nodes"
    by (simp_all add: ss_def ns_def)
  ultimately show ?thesis
    unfolding graph_new_def ss_def [symmetric] ns_def [symmetric] Let_def
    by (auto simp: result_simps scan_Inr check_stream_heads_Inr check_event_wait_Inr not_less)
qed

lemma graph_new_cases:
  fixes streams :: "stream_identity list"
  assumes dist: "distinct (map node_id nodes)"
  defines "ss \<equiv> sort streams" and "ns \<equiv> sort_key node_id nodes"
  shows "sorted_wrt clash_free ns \<longleftrightarrow> (\<forall>n\<in>set nodes. \<forall>n'\<in>set nodes. n \<noteq> n' \<longrightarrow> clash_free n n')"
    and "node_ok ctx ss ns (build_node_indices ns) n \<longleftrightarrow>
      stream_context (node_stream n) = ctx \<and> node_stream n \<in> set streams \<and>
      (\<forall>e. named_event (node_kind n) = Some e \<longrightarrow> event_context e = ctx) \<and>
      (\<forall>p. node_stream_predecessor n = Some p \<longrightarrow>
        (\<exists>m\<in>set nodes. node_id m = p \<and> node_stream m = node_stream n))"
    and "length (filter P ns) = 1 \<longleftrightarrow> (\<exists>!n. n \<in> set nodes \<and> P n)"
    and "(\<exists>i. build_node_indices ns r = Some i \<and> Q (ns ! i)) \<longleftrightarrow>
      (\<exists>m\<in>set nodes. node_id m = r \<and> Q m)"
proof -
  have "distinct nodes"
    using dist by (simp add: distinct_map)
  then have d: "distinct ns" "distinct (map node_id ns)" "set ns = set nodes"
    using dist by (simp_all add: ns_def)
  show "sorted_wrt clash_free ns \<longleftrightarrow> (\<forall>n\<in>set nodes. \<forall>n'\<in>set nodes. n \<noteq> n' \<longrightarrow> clash_free n n')"
    using sorted_wrt_pairwise [OF d(1), of clash_free] clash_free_sym d(3) by simp
  show "(\<exists>i. build_node_indices ns r = Some i \<and> Q (ns ! i)) \<longleftrightarrow>
      (\<exists>m\<in>set nodes. node_id m = r \<and> Q m)"
    using index_ex_iff [OF d(2), of r Q] d(3) by simp
  show "node_ok ctx ss ns (build_node_indices ns) n \<longleftrightarrow>
      stream_context (node_stream n) = ctx \<and> node_stream n \<in> set streams \<and>
      (\<forall>e. named_event (node_kind n) = Some e \<longrightarrow> event_context e = ctx) \<and>
      (\<forall>p. node_stream_predecessor n = Some p \<longrightarrow>
        (\<exists>m\<in>set nodes. node_id m = p \<and> node_stream m = node_stream n))"
    using index_ex_iff [OF d(2), of _ "\<lambda>m. node_stream m = node_stream n"] d(3)
    by (simp add: node_ok_def ss_def)
  show "length (filter P ns) = 1 \<longleftrightarrow> (\<exists>!n. n \<in> set nodes \<and> P n)"
    using filter_length_1 [OF d(1), of P] d(3) by simp
qed

lemma sorted_node_ids: "distinct (map node_id nodes) \<Longrightarrow> sorted_wrt (<) (map node_id (sort_key node_id nodes))"
  by (simp add: strict_sorted_iff)

lemma prerequisite_relation_sort [simp]:
  "prerequisite_relation (sort_key k nodes) = prerequisite_relation nodes"
  by (simp add: prerequisite_relation_def)

lemma resolved_sort [simp]: "resolved (sort_key k nodes) \<longleftrightarrow> resolved nodes"
  by (simp add: resolved_def)

lemma graph_new_shape:
  "graph_new ctx streams nodes = Inr g \<longleftrightarrow> graph_shape ctx streams nodes \<and>
     compile_graph ctx (sort streams) (sort_key node_id nodes)
       (build_node_indices (sort_key node_id nodes)) = Inr g"
proof (cases "distinct (map node_id nodes)")
  case True
  note cases = graph_new_cases [OF True]
  show ?thesis
    unfolding graph_new_unfold cases(1-3) cases(4) [of _ "\<lambda>m. recorded_event (node_kind m) = Some _"]
      graph_shape_def by (simp only: conj_assoc)
next
  case False
  then show ?thesis
    by (simp add: graph_new_unfold graph_shape_def)
qed

lemma shape_sorted:
  assumes "graph_shape ctx streams nodes"
  shows "resolved (sort_key node_id nodes)" "sorted_wrt (<) (map node_id (sort_key node_id nodes))"
  using shape_resolved [OF assms] assms
  by (simp_all add: sorted_node_ids graph_shape_def)

lemma graph_new_Inr_iff:
  "(\<exists>g. graph_new ctx streams nodes = Inr g) \<longleftrightarrow> graph_valid ctx streams nodes"
proof (cases "graph_shape ctx streams nodes")
  case True
  from compile_graph_Inr(2) [OF shape_sorted [OF True], of ctx "sort streams"] show ?thesis
    using True by (simp add: graph_new_shape graph_valid_def sum_list_sort_key)
qed (simp add: graph_new_shape graph_valid_def)

lemma graph_new_compiled:
  assumes "graph_new ctx streams nodes = Inr g"
  shows "compiled g \<and> graph_context g = ctx \<and> graph_streams g = sort streams \<and>
    graph_nodes g = sort_key node_id nodes \<and>
    dependency_indices g = build_dependency_indices (graph_nodes g) (build_node_indices (graph_nodes g))"
proof -
  have "graph_shape ctx streams nodes" and c: "compile_graph ctx (sort streams) (sort_key node_id nodes)
      (build_node_indices (sort_key node_id nodes)) = Inr g"
    using assms by (simp_all add: graph_new_shape)
  from compile_graph_Inr(1) [OF shape_sorted [OF this(1)] c] show ?thesis
    by simp
qed

section \<open>Node lookup\<close>

declare bisect.simps [simp del]

lemma bisect_bound: "0 < len \<Longrightarrow> bisect nodes key base len < base + len"
proof (induction len arbitrary: base rule: less_induct)
  case (less len)
  show ?case
  proof (cases "len \<le> 1")
    case False
    let ?half = "len div 2"
    have "bisect nodes key b (len - ?half) < b + (len - ?half)" for b
      using False by (intro less.IH) auto
    from this [of base] this [of "base + ?half"] show ?thesis
      using False by (subst bisect.simps) (auto simp: Let_def intro: less_le_trans)
  qed (use less in \<open>simp add: bisect.simps\<close>)
qed

lemma bisect_finds:
  assumes "sorted_wrt (<) (map node_id nodes)" and "node_id (nodes ! i) = key"
  shows "\<lbrakk>base + len \<le> length nodes; base \<le> i; i < base + len\<rbrakk> \<Longrightarrow> bisect nodes key base len = i"
proof (induction len arbitrary: base rule: less_induct)
  case (less len)
  show ?case
  proof (cases "len \<le> 1")
    case True
    then show ?thesis
      using less.prems by (subst bisect.simps) simp
  next
    case False
    let ?half = "len div 2" and ?mid = "base + len div 2"
    have iff: "key < node_id (nodes ! ?mid) \<longleftrightarrow> i < ?mid"
    proof -
      have lt: "node_id (nodes ! a) < node_id (nodes ! b)" if "a < b" "b < length nodes" for a b
        using sorted_wrt_nth_less [OF assms(1), of a b] that by simp
      show ?thesis
        using lt [of i ?mid] lt [of ?mid i] less.prems False assms(2)
        by (cases i ?mid rule: linorder_cases) auto
    qed
    show ?thesis
    proof (cases "i < ?mid")
      case True
      then have "bisect nodes key base (len - ?half) = i"
        using False less.prems by (intro less.IH) auto
      then show ?thesis
        using False True iff by (subst bisect.simps) (simp add: Let_def)
    next
      case False
      then have "bisect nodes key ?mid (len - ?half) = i"
        using \<open>\<not> len \<le> 1\<close> less.prems by (intro less.IH) auto
      then show ?thesis
        using False \<open>\<not> len \<le> 1\<close> iff by (subst bisect.simps) (simp add: Let_def)
    qed
  qed
qed

lemma node_index_Some:
  assumes "compiled g"
  shows "node_index g key = Some i \<longleftrightarrow> i < length (graph_nodes g) \<and> node_id (graph_nodes g ! i) = key"
proof -
  have sorted: "sorted_wrt (<) (map node_id (graph_nodes g))"
    using assms by (simp add: compiled_def)
  show ?thesis
    using bisect_bound [of "length (graph_nodes g)" "graph_nodes g" key 0]
      bisect_finds [OF sorted, of i key 0 "length (graph_nodes g)"]
    by (auto simp: node_index_def Let_def split: if_splits)
qed

section \<open>Order of the inputs\<close>

lemma graph_new_mset:
  assumes "mset streams = mset streams'" and "mset nodes = mset nodes'"
  shows "graph_new ctx streams nodes = graph_new ctx streams' nodes'"
proof -
  have streams: "sort streams = sort streams'"
    using assms(1) by (metis properties_for_sort mset_sort sorted_sort)
  have ids: "map node_id (sort_key node_id nodes) = map node_id (sort_key node_id nodes')"
    unfolding map_sort_key using assms(2) by (metis mset_map properties_for_sort mset_sort sorted_sort)
  have lens: "length streams = length streams'" "length nodes = length nodes'"
    using assms by (metis size_mset)+
  then have empty: "streams = [] \<longleftrightarrow> streams' = []" "nodes = [] \<longleftrightarrow> nodes' = []"
    by auto
  show ?thesis
  proof (cases "distinct (map node_id nodes)")
    case True
    have "sort_key node_id nodes = sort_key node_id nodes'"
      by (rule sort_key_inj_key_eq) (use assms(2) True in \<open>simp_all add: distinct_map\<close>)
    then show ?thesis
      unfolding graph_new_def Let_def by (simp only: streams lens empty)
  next
    case False
    then obtain d where "adjacent_duplicate (map node_id (sort_key node_id nodes)) = Some d"
      using adjacent_duplicate_sorted [of "map node_id (sort_key node_id nodes)"] by auto
    then show ?thesis
      unfolding graph_new_def Let_def by (simp only: ids streams lens empty option.case)
  qed
qed

end
