(* ===== verification/Completion_Wire.thy ===== *)
theory Completion_Wire
  imports Completion_Graph_Valid
begin

text \<open>
  The canonical encoding of completion graphs, \<open>crates/fe2o3-completion/src/wire.rs\<close>. A
  writer is a list of segments; \<open>None\<close> is the panic of \<open>push_u32\<close> or of a debug assertion. A
  reader consumes a prefix of the remaining bytes. SHA-256, a function of another crate, is a
  parameter of \<open>calculate_identity\<close>. The panic of the encoder inside the decoder is the error
  \<open>DecodePanic\<close>.
\<close>

section \<open>Constants\<close>

definition ascii :: "string \<Rightarrow> u8 list" where
  "ascii s = map of_char s"

definition WIRE_DOMAIN :: "u8 list" where
  "WIRE_DOMAIN = ascii ''FE2O3/COMPLETION-GRAPH/V1'' @ [0]"

definition IDENTITY_DOMAIN :: "u8 list" where
  "IDENTITY_DOMAIN = ascii ''FE2O3/COMPLETION-GRAPH-IDENTITY/V1'' @ [0]"

definition GRAPH_HEADER_BYTES :: nat where
  "GRAPH_HEADER_BYTES = length WIRE_DOMAIN + 4 + 4 + 32 + 32 + 4 + 4"

definition STREAM_WIRE_BYTES :: nat where
  "STREAM_WIRE_BYTES = 32"

definition NODE_WIRE_BYTES :: nat where
  "NODE_WIRE_BYTES = 4 + 1 + 1 + 2 + 4 + 32 + 32 + 4"

definition MAX_GRAPH_BYTES :: nat where
  "MAX_GRAPH_BYTES = GRAPH_HEADER_BYTES + MAX_GRAPH_STREAMS * STREAM_WIRE_BYTES +
     MAX_GRAPH_NODES * NODE_WIRE_BYTES"

definition FUTURE_TAG :: u8 where "FUTURE_TAG = 1"
definition EVENT_RECORD_TAG :: u8 where "EVENT_RECORD_TAG = 2"
definition EVENT_WAIT_TAG :: u8 where "EVENT_WAIT_TAG = 3"

section \<open>Encoder\<close>

definition push_u32 :: "nat \<Rightarrow> u8 list option" where
  "push_u32 value = (if value < 2 ^ 32 then Some (to_le_bytes 4 (of_nat value :: u32)) else None)"

text \<open>Successive \<open>extend_from_slice\<close> and \<open>push\<close> calls on one buffer.\<close>

fun extend_all :: "u8 list option list \<Rightarrow> u8 list option" where
  "extend_all [] = Some []"
| "extend_all (None # _) = None"
| "extend_all (Some bytes # rest) = map_option ((@) bytes) (extend_all rest)"

fun kind_tag :: "completion_node_kind \<Rightarrow> u8" where
  "kind_tag (Future _) = FUTURE_TAG"
| "kind_tag (EventRecord _ _) = EVENT_RECORD_TAG"
| "kind_tag (EventWait _ _ _) = EVENT_WAIT_TAG"

fun encode_payload :: "completion_node_kind \<Rightarrow> u8 list option list" where
  "encode_payload (Future future) = [Some (as_bytes (future_local future)), push_u32 0]"
| "encode_payload (EventRecord _ event) = [Some (as_bytes (event_local event)), push_u32 0]"
| "encode_payload (EventWait _ event recorded_by) =
     [Some (as_bytes (event_local event)), push_u32 (unat (nz_get recorded_by))]"

definition encode_node :: "completion_node \<Rightarrow> u8 list option" where
  "encode_node node = extend_all
     ([push_u32 (unat (nz_get (node_id node))),
       Some [kind_tag (node_kind node)],
       Some [if node_stream_predecessor node \<noteq> None then 1 else 0],
       Some (to_le_bytes 2 (0 :: u16)),
       push_u32 (case node_stream_predecessor node of None \<Rightarrow> 0 | Some p \<Rightarrow> unat (nz_get p)),
       Some (as_bytes (stream_local (node_stream node)))] @
      encode_payload (node_kind node))"

definition encode_graph :: "completion_graph \<Rightarrow> u8 list option" where
  "encode_graph g =
     (let exact_size = GRAPH_HEADER_BYTES + length (graph_streams g) * STREAM_WIRE_BYTES +
            length (graph_nodes g) * NODE_WIRE_BYTES
      in if MAX_GRAPH_BYTES < exact_size then None
         else case extend_all
             ([Some WIRE_DOMAIN, push_u32 exact_size, push_u32 0,
               Some (as_bytes (ctx_device (graph_context g))),
               Some (as_bytes (ctx_local (graph_context g))),
               push_u32 (length (graph_streams g)), push_u32 (length (graph_nodes g))] @
              map (\<lambda>stream. Some (as_bytes (stream_local stream))) (graph_streams g) @
              map encode_node (graph_nodes g)) of
           None \<Rightarrow> None
         | Some encoded \<Rightarrow> if length encoded \<noteq> exact_size then None else Some encoded)"

section \<open>Reader\<close>

datatype completion_graph_decode_error =
    TooLarge nat nat
  | Truncated
  | InvalidDomain
  | DeclaredLengthMismatch nat nat
  | UnsupportedFlags u32
  | CountBoundExceeded string nat nat
  | InvalidTag string u8
  | NonzeroReserved string
  | InvalidNodeId string
  | InvalidGraph completion_graph_error
  | NonCanonical
  | DecodePanic

type_synonym 'a reader = "u8 list \<Rightarrow> completion_graph_decode_error + 'a \<times> u8 list"

definition read_fixed :: "nat \<Rightarrow> u8 list reader" where
  "read_fixed n remaining =
     (if n \<le> length remaining then Inr (take n remaining, drop n remaining) else Inl Truncated)"

definition read_bytes32 :: "bytes32 reader" where
  "read_bytes32 remaining =
     and_then (read_fixed 32 remaining) (\<lambda>(bytes, remaining).
     and_then (ok_or (to_bytes32 bytes) DecodePanic) (\<lambda>value. Inr (value, remaining)))"

definition read_u8 :: "u8 reader" where
  "read_u8 remaining =
     and_then (read_fixed 1 remaining) (\<lambda>(bytes, remaining). Inr (bytes ! 0, remaining))"

definition read_u16 :: "u16 reader" where
  "read_u16 remaining =
     and_then (read_fixed 2 remaining) (\<lambda>(bytes, remaining). Inr (from_le_bytes bytes, remaining))"

definition read_u32 :: "u32 reader" where
  "read_u32 remaining =
     and_then (read_fixed 4 remaining) (\<lambda>(bytes, remaining). Inr (from_le_bytes bytes, remaining))"

definition bounded_count :: "string \<Rightarrow> nat \<Rightarrow> nat reader" where
  "bounded_count field maximum remaining =
     and_then (read_u32 remaining) (\<lambda>(raw, remaining).
       let actual = unat raw
       in if maximum < actual then Inl (CountBoundExceeded field actual maximum)
          else Inr (actual, remaining))"

text \<open>\<open>for _ in 0..n\<close>, pushing what each round reads.\<close>

fun read_many :: "nat \<Rightarrow> 'a reader \<Rightarrow> 'a list reader" where
  "read_many 0 read remaining = Inr ([], remaining)"
| "read_many (Suc n) read remaining =
     and_then (read remaining) (\<lambda>(x, remaining).
     and_then (read_many n read remaining) (\<lambda>(xs, remaining). Inr (x # xs, remaining)))"

section \<open>Decoder\<close>

definition decode_node_id :: "u32 \<Rightarrow> string \<Rightarrow> completion_graph_decode_error + completion_node_id" where
  "decode_node_id raw field = ok_or (nz_new raw) (InvalidNodeId field)"

definition decode_predecessor :: "u8 \<Rightarrow> u32 \<Rightarrow>
    completion_graph_decode_error + completion_node_id option" where
  "decode_predecessor tag raw =
     (if tag = 0 \<and> raw = 0 then Inr None
      else if tag = 0 then Inl (NonzeroReserved ''absent stream predecessor'')
      else if tag = 1 then and_then (decode_node_id raw ''stream predecessor'') (\<lambda>p. Inr (Some p))
      else Inl (InvalidTag ''stream predecessor'' tag))"

definition decode_kind :: "context_identity \<Rightarrow> completion_node_id \<Rightarrow> u8 \<Rightarrow> completion_node_id option \<Rightarrow>
    stream_identity \<Rightarrow> bytes32 \<Rightarrow> u32 \<Rightarrow> completion_graph_decode_error + completion_node" where
  "decode_kind ctx node kind predecessor stream payload record_raw =
     (if kind = FUTURE_TAG \<and> record_raw = 0
      then Inr (node_future node (FutureIdentityV1 stream payload) predecessor)
      else if kind = EVENT_RECORD_TAG \<and> record_raw = 0
      then Inr (node_record_event node stream (EventIdentityV1 ctx payload) predecessor)
      else if kind = EVENT_WAIT_TAG
      then and_then (decode_node_id record_raw ''event record'') (\<lambda>recorded_by.
        Inr (node_wait_event node stream (EventIdentityV1 ctx payload) recorded_by predecessor))
      else if kind = FUTURE_TAG \<or> kind = EVENT_RECORD_TAG
      then Inl (NonzeroReserved ''non-wait event record'')
      else Inl (InvalidTag ''node kind'' kind))"

definition decode_node :: "context_identity \<Rightarrow> completion_node reader" where
  "decode_node ctx remaining =
     and_then (read_u32 remaining) (\<lambda>(raw, remaining).
     and_then (decode_node_id raw ''node identity'') (\<lambda>node.
     and_then (read_u8 remaining) (\<lambda>(kind, remaining).
     and_then (read_u8 remaining) (\<lambda>(predecessor_tag, remaining).
     and_then (read_u16 remaining) (\<lambda>(flags, remaining).
     if flags \<noteq> 0 then Inl (NonzeroReserved ''node flags'') else
     and_then (read_u32 remaining) (\<lambda>(predecessor_raw, remaining).
     and_then (decode_predecessor predecessor_tag predecessor_raw) (\<lambda>predecessor.
     and_then (read_bytes32 remaining) (\<lambda>(stream, remaining).
     and_then (read_bytes32 remaining) (\<lambda>(payload, remaining).
     and_then (read_u32 remaining) (\<lambda>(record_raw, remaining).
     and_then (decode_kind ctx node kind predecessor (StreamIdentityV1 ctx stream) payload record_raw)
       (\<lambda>node. Inr (node, remaining))))))))))))"

text \<open>Everything the decoder reads before it builds the graph.\<close>

definition decode_parts :: "u8 list \<Rightarrow> completion_graph_decode_error +
    context_identity \<times> stream_identity list \<times> completion_node list" where
  "decode_parts bytes =
     (if MAX_GRAPH_BYTES < length bytes then Inl (TooLarge (length bytes) MAX_GRAPH_BYTES) else
      and_then (read_fixed (length WIRE_DOMAIN) bytes) (\<lambda>(domain, remaining).
      if domain \<noteq> WIRE_DOMAIN then Inl InvalidDomain else
      and_then (read_u32 remaining) (\<lambda>(declared, remaining).
      if unat declared \<noteq> length bytes
      then Inl (DeclaredLengthMismatch (unat declared) (length bytes)) else
      and_then (read_u32 remaining) (\<lambda>(flags, remaining).
      if flags \<noteq> 0 then Inl (UnsupportedFlags flags) else
      and_then (read_bytes32 remaining) (\<lambda>(device, remaining).
      and_then (read_bytes32 remaining) (\<lambda>(local, remaining).
      let ctx = ContextIdentityV1 device local in
      and_then (bounded_count ''stream'' MAX_GRAPH_STREAMS remaining) (\<lambda>(stream_count, remaining).
      and_then (bounded_count ''node'' MAX_GRAPH_NODES remaining) (\<lambda>(node_count, remaining).
      let expected_size = GRAPH_HEADER_BYTES + stream_count * STREAM_WIRE_BYTES +
            node_count * NODE_WIRE_BYTES in
      if expected_size \<noteq> length bytes
      then Inl (DeclaredLengthMismatch expected_size (length bytes)) else
      and_then (read_many stream_count read_bytes32 remaining) (\<lambda>(locals, remaining).
      and_then (read_many node_count (decode_node ctx) remaining) (\<lambda>(nodes, remaining).
      if remaining \<noteq> []
      then Inl (DeclaredLengthMismatch (length bytes - length remaining) (length bytes))
      else Inr (ctx, map (StreamIdentityV1 ctx) locals, nodes)))))))))))"

definition decode_graph :: "u8 list \<Rightarrow> completion_graph_decode_error + completion_graph" where
  "decode_graph bytes =
     and_then (decode_parts bytes) (\<lambda>(ctx, streams, nodes).
     and_then (map_err InvalidGraph (graph_new ctx streams nodes)) (\<lambda>g.
     case encode_graph g of
       None \<Rightarrow> Inl DecodePanic
     | Some canonical \<Rightarrow> if canonical \<noteq> bytes then Inl NonCanonical else Inr g))"

section \<open>Identity\<close>

record completion_graph_identity =
  gid_sha256 :: bytes32
  gid_byte_len :: u64

definition calculate_identity :: "(u8 list \<Rightarrow> bytes32) \<Rightarrow> u8 list \<Rightarrow> completion_graph_identity" where
  "calculate_identity sha256 bytes =
     \<lparr>gid_sha256 = sha256 (IDENTITY_DOMAIN @ to_le_bytes 8 (of_nat (length bytes) :: u64) @ bytes),
      gid_byte_len = of_nat (length bytes)\<rparr>"

definition graph_identity :: "(u8 list \<Rightarrow> bytes32) \<Rightarrow> completion_graph \<Rightarrow> completion_graph_identity option" where
  "graph_identity sha256 g = map_option (calculate_identity sha256) (encode_graph g)"

definition matches_canonical_bytes :: "(u8 list \<Rightarrow> bytes32) \<Rightarrow> completion_graph_identity \<Rightarrow>
    u8 list \<Rightarrow> bool" where
  "matches_canonical_bytes sha256 identity bytes \<longleftrightarrow> identity = calculate_identity sha256 bytes"

end
