(* ===== verification/Completion_Authority.thy ===== *)
theory Completion_Authority
  imports Completion_Wire
begin

text \<open>
  The linear completion authority of \<open>crates/fe2o3-completion/src/graph.rs\<close>: the state of
  every node, the counts of unresolved dependencies, readiness notifications, and the operations
  that record cancellation requests and terminal outcomes. The binary heap of reversed pairs is
  the ascending list of its elements: \<open>push\<close> is sorted insertion and \<open>pop\<close> takes the head.
  The error \<open>AuthorityPanic\<close> stands for a panic: an index or a slice out of range, an underflow of a count
  or a failed debug assertion.  Every read of an array goes through \<open>checked_nth\<close> or an accessor of the graph,
  and \<open>or_panic\<close> turns a failed one into that error; every write is to an index that was read just before.
\<close>

section \<open>States\<close>

datatype completion_node_state =
    Blocked
  | Ready
  | CancelRequested cancellation_code
  | Succeeded
  | Failed completion_node_id failure_code
  | Cancelled completion_node_id cancellation_code
  | DependencyFailed completion_node_id failure_code
  | DependencyCancelled completion_node_id cancellation_code

fun state_is_terminal :: "completion_node_state \<Rightarrow> bool" where
  "state_is_terminal Blocked = False"
| "state_is_terminal Ready = False"
| "state_is_terminal (CancelRequested _) = False"
| "state_is_terminal _ = True"

fun dependency_cause :: "completion_node_state \<Rightarrow> completion_node_state option" where
  "dependency_cause (Failed origin error) = Some (DependencyFailed origin error)"
| "dependency_cause (DependencyFailed origin error) = Some (DependencyFailed origin error)"
| "dependency_cause (Cancelled origin reason) = Some (DependencyCancelled origin reason)"
| "dependency_cause (DependencyCancelled origin reason) = Some (DependencyCancelled origin reason)"
| "dependency_cause _ = None"

datatype completion_transition_error =
    UnknownNode completion_node_id
  | NotReady completion_node_id completion_node_state
  | NotBlocked completion_node_id completion_node_state
  | CancellationNotRequested completion_node_id completion_node_state
  | CancellationReasonSubstitution completion_node_id cancellation_code cancellation_code
  | Terminal completion_node_id completion_node_state
  | AuthorityPanic

record completion_authority =
  auth_graph :: completion_graph
  auth_states :: "completion_node_state list"
  remaining_dependencies :: "nat list"
  terminal_nodes :: nat
  propagation_queue :: "(nat \<times> nat) list"
  ready_notifications :: "completion_node_id list"

definition or_panic :: "'a option \<Rightarrow> completion_transition_error + 'a" where
  "or_panic x = ok_or x AuthorityPanic"

lemma or_panic_simps [simp]: "or_panic (Some x) = Inr x" "or_panic None = Inl AuthorityPanic"
  by (simp_all add: or_panic_def ok_or_def)

definition authority_new :: "completion_graph \<Rightarrow> completion_authority" where
  "authority_new g =
     (let remaining = map length (dependency_indices g)
      in \<lparr>auth_graph = g,
          auth_states = map (\<lambda>r. if r = 0 then Ready else Blocked) remaining,
          remaining_dependencies = remaining,
          terminal_nodes = 0,
          propagation_queue = [],
          ready_notifications =
            map (\<lambda>(node, r). node_id node) (filter (\<lambda>(node, r). r = 0) (zip (graph_nodes g) remaining))\<rparr>)"

definition pop_ready_notification :: "completion_authority \<Rightarrow>
    completion_node_id option \<times> completion_authority" where
  "pop_ready_notification a =
     (case ready_notifications a of
        [] \<Rightarrow> (None, a)
      | node # rest \<Rightarrow> (Some node, a\<lparr>ready_notifications := rest\<rparr>))"

definition authority_state :: "completion_authority \<Rightarrow> completion_node_id \<Rightarrow>
    completion_transition_error + completion_node_state" where
  "authority_state a node =
     (case node_index (auth_graph a) node of
        None \<Rightarrow> Inl (UnknownNode node)
      | Some index \<Rightarrow> or_panic (checked_nth (auth_states a) index))"

definition require_node :: "completion_authority \<Rightarrow> completion_node_id \<Rightarrow>
    completion_transition_error + nat" where
  "require_node a node = ok_or (node_index (auth_graph a) node) (UnknownNode node)"

section \<open>Releasing successors\<close>

definition release_successor :: "completion_authority \<Rightarrow> nat \<Rightarrow>
    completion_transition_error + completion_authority" where
  "release_successor a successor =
     and_then (or_panic (checked_nth (auth_states a) successor)) (\<lambda>s.
     if s \<noteq> Blocked then Inr a
     else and_then (or_panic (checked_nth (remaining_dependencies a) successor)) (\<lambda>remaining.
     if remaining = 0 then Inl AuthorityPanic
     else let remaining = remaining - 1;
              a = a\<lparr>remaining_dependencies := (remaining_dependencies a)[successor := remaining]\<rparr>
          in if remaining = 0
             then and_then (or_panic (checked_nth (graph_nodes (auth_graph a)) successor)) (\<lambda>node.
               Inr (a\<lparr>auth_states := (auth_states a)[successor := Ready],
                 ready_notifications := ready_notifications a @ [node_id node]\<rparr>))
             else Inr a))"

definition release_successors :: "completion_authority \<Rightarrow> nat \<Rightarrow>
    completion_transition_error + completion_authority" where
  "release_successors a completed_index =
     and_then (or_panic (graph_successors (auth_graph a) completed_index)) (try_fold release_successor a)"

section \<open>Propagating a terminal cause\<close>

definition enqueue_successor :: "completion_authority \<Rightarrow> nat \<Rightarrow>
    completion_transition_error + completion_authority" where
  "enqueue_successor a successor =
     and_then (or_panic (topological_rank (auth_graph a) successor)) (\<lambda>rank.
       Inr (a\<lparr>propagation_queue := insort (rank, successor) (propagation_queue a)\<rparr>))"

definition enqueue_successors :: "completion_authority \<Rightarrow> nat \<Rightarrow>
    completion_transition_error + completion_authority" where
  "enqueue_successors a index =
     and_then (or_panic (graph_successors (auth_graph a) index)) (try_fold enqueue_successor a)"

text \<open>\<open>find_map\<close> over the dependencies in their stored order; it stops at the first cause.\<close>

fun find_cause :: "completion_node_state list \<Rightarrow> nat list \<Rightarrow>
    completion_transition_error + completion_node_state option" where
  "find_cause states [] = Inr None"
| "find_cause states (dependency # rest) =
     and_then (or_panic (checked_nth states dependency)) (\<lambda>s.
       case dependency_cause s of Some cause \<Rightarrow> Inr (Some cause) | None \<Rightarrow> find_cause states rest)"

definition node_cause :: "completion_graph \<Rightarrow> completion_node_state list \<Rightarrow> nat \<Rightarrow>
    completion_transition_error + completion_node_state option" where
  "node_cause g states index = and_then (or_panic (graph_dependencies g index)) (find_cause states)"

lemma dependency_cause_terminal: "dependency_cause s = Some c \<Longrightarrow> state_is_terminal c \<and> c \<noteq> Blocked"
  by (cases s) auto

lemma find_cause_not_Blocked: "find_cause states ds \<noteq> Inr (Some Blocked)"
  using dependency_cause_terminal
  by (induction states ds rule: find_cause.induct) (fastforce simp: and_then_Inr split: option.splits)+

lemma node_cause_not_Blocked: "node_cause g states index \<noteq> Inr (Some Blocked)"
  by (simp add: node_cause_def and_then_Inr find_cause_not_Blocked)

lemma enqueue_successors_states:
  assumes "enqueue_successors a index = Inr a'"
  shows "auth_states a' = auth_states a"
proof -
  have "try_fold enqueue_successor b ss = Inr b' \<Longrightarrow> auth_states b' = auth_states b" for b b' ss
    by (induction ss arbitrary: b) (auto simp: and_then_Inr enqueue_successor_def)
  then show ?thesis
    using assms by (auto simp: enqueue_successors_def and_then_Inr)
qed

lemma and_then_cong [fundef_cong]:
  "\<lbrakk>m = m'; \<And>x. m' = Inr x \<Longrightarrow> f x = f' x\<rbrakk> \<Longrightarrow> and_then m f = and_then m' f'"
  by (cases m) auto

lemma length_filter_update_less:
  assumes "index < length xs" and "xs ! index = b" and "c \<noteq> b"
  shows "length (filter (\<lambda>s. s = b) (xs[index := c])) < length (filter (\<lambda>s. s = b) xs)"
proof -
  have "xs = take index xs @ b # drop (Suc index) xs"
    using assms(1,2) id_take_nth_drop by metis
  then have "length (filter (\<lambda>s. s = b) xs) =
      length (filter (\<lambda>s. s = b) (take index xs @ b # drop (Suc index) xs))"
    by simp
  then show ?thesis
    using assms by (simp add: upd_conv_take_nth_drop)
qed

function propagate :: "completion_authority \<Rightarrow> completion_transition_error + completion_authority" where
  "propagate a =
     (case propagation_queue a of
        [] \<Rightarrow> Inr a
      | (_, index) # queue \<Rightarrow>
          let a = a\<lparr>propagation_queue := queue\<rparr>
          in and_then (or_panic (checked_nth (auth_states a) index)) (\<lambda>s.
             if s \<noteq> Blocked then propagate a
             else and_then (node_cause (auth_graph a) (auth_states a) index) (\<lambda>cause.
             case cause of
               None \<Rightarrow> propagate a
             | Some cause \<Rightarrow>
                 and_then (enqueue_successors
                   (a\<lparr>auth_states := (auth_states a)[index := cause], terminal_nodes := terminal_nodes a + 1\<rparr>) index)
                 propagate)))"
  by pat_completeness auto

termination
proof (relation "measures [\<lambda>a. length (filter (\<lambda>s. s = Blocked) (auth_states a)), \<lambda>a. length (propagation_queue a)]")
  fix a :: completion_authority and e queue r index b s c cause b'
  assume q: "propagation_queue a = e # queue" "(r, index) = e" "b = a\<lparr>propagation_queue := queue\<rparr>"
    and s: "or_panic (checked_nth (auth_states b) index) = Inr s" "\<not> s \<noteq> Blocked"
    and c: "node_cause (auth_graph b) (auth_states b) index = Inr c" "c = Some cause"
    and b': "enqueue_successors (b\<lparr>auth_states := (auth_states b)[index := cause],
      terminal_nodes := terminal_nodes b + 1\<rparr>) index = Inr b'"
  have "index < length (auth_states a)" "auth_states a ! index = Blocked"
    using s q(3) by (auto simp: or_panic_def ok_or_Inr checked_nth_Some)
  moreover have "cause \<noteq> Blocked"
    using c node_cause_not_Blocked by auto
  ultimately show "(b', a) \<in> measures [\<lambda>a. length (filter (\<lambda>s. s = Blocked) (auth_states a)), \<lambda>a. length (propagation_queue a)]"
    using length_filter_update_less [of index "auth_states a" Blocked cause] enqueue_successors_states [OF b'] q(3) by simp
qed auto

declare propagate.simps [simp del]

definition propagate_terminal_cause_from :: "completion_authority \<Rightarrow> nat \<Rightarrow>
    completion_transition_error + completion_authority" where
  "propagate_terminal_cause_from a terminal_index =
     (if propagation_queue a \<noteq> [] then Inl AuthorityPanic
      else and_then (enqueue_successors a terminal_index) propagate)"

section \<open>Transitions\<close>

text \<open>\<open>self.states[index] = state; self.terminal_nodes += 1\<close>\<close>

definition settle :: "completion_authority \<Rightarrow> nat \<Rightarrow> completion_node_state \<Rightarrow> completion_authority" where
  "settle a index s =
     a\<lparr>auth_states := (auth_states a)[index := s], terminal_nodes := terminal_nodes a + 1\<rparr>"

definition request_cancel :: "completion_authority \<Rightarrow> completion_node_id \<Rightarrow> cancellation_code \<Rightarrow>
    completion_transition_error + bool \<times> completion_authority" where
  "request_cancel a node reason =
     and_then (require_node a node) (\<lambda>index.
     and_then (or_panic (checked_nth (auth_states a) index)) (\<lambda>s.
       case s of
         Ready \<Rightarrow> Inr (True, a\<lparr>auth_states := (auth_states a)[index := CancelRequested reason]\<rparr>)
       | CancelRequested existing \<Rightarrow>
           if existing = reason then Inr (False, a)
           else Inl (CancellationReasonSubstitution node existing reason)
       | s \<Rightarrow> if state_is_terminal s then Inl (Terminal node s) else Inl (NotReady node s)))"

definition cancel_blocked :: "completion_authority \<Rightarrow> completion_node_id \<Rightarrow> cancellation_code \<Rightarrow>
    completion_transition_error + completion_authority" where
  "cancel_blocked a node reason =
     and_then (require_node a node) (\<lambda>index.
     and_then (or_panic (checked_nth (auth_states a) index)) (\<lambda>s.
       case s of
         Blocked \<Rightarrow> propagate_terminal_cause_from (settle a index (Cancelled node reason)) index
       | s \<Rightarrow> if state_is_terminal s then Inl (Terminal node s) else Inl (NotBlocked node s)))"

definition mark_succeeded :: "completion_authority \<Rightarrow> completion_node_id \<Rightarrow>
    completion_transition_error + completion_authority" where
  "mark_succeeded a node =
     and_then (require_node a node) (\<lambda>index.
     and_then (or_panic (checked_nth (auth_states a) index)) (\<lambda>s.
       case s of
         Ready \<Rightarrow> release_successors (settle a index Succeeded) index
       | CancelRequested _ \<Rightarrow> release_successors (settle a index Succeeded) index
       | s \<Rightarrow> if state_is_terminal s then Inl (Terminal node s) else Inl (NotReady node s)))"

definition mark_failed :: "completion_authority \<Rightarrow> completion_node_id \<Rightarrow> failure_code \<Rightarrow>
    completion_transition_error + completion_authority" where
  "mark_failed a node error =
     and_then (require_node a node) (\<lambda>index.
     and_then (or_panic (checked_nth (auth_states a) index)) (\<lambda>s.
       case s of
         Ready \<Rightarrow> propagate_terminal_cause_from (settle a index (Failed node error)) index
       | CancelRequested _ \<Rightarrow> propagate_terminal_cause_from (settle a index (Failed node error)) index
       | s \<Rightarrow> if state_is_terminal s then Inl (Terminal node s) else Inl (NotReady node s)))"

definition mark_cancelled :: "completion_authority \<Rightarrow> completion_node_id \<Rightarrow>
    completion_transition_error + completion_authority" where
  "mark_cancelled a node =
     and_then (require_node a node) (\<lambda>index.
     and_then (or_panic (checked_nth (auth_states a) index)) (\<lambda>s.
       case s of
         CancelRequested reason \<Rightarrow>
           propagate_terminal_cause_from (settle a index (Cancelled node reason)) index
       | s \<Rightarrow> if state_is_terminal s then Inl (Terminal node s)
              else Inl (CancellationNotRequested node s)))"

definition authority_is_terminal :: "completion_authority \<Rightarrow> bool" where
  "authority_is_terminal a \<longleftrightarrow> terminal_nodes a = length (auth_states a)"

section \<open>Report\<close>

record completion_report_entry =
  entry_node :: completion_node_id
  entry_state :: completion_node_state

record completion_report =
  report_graph_identity :: completion_graph_identity
  report_entries :: "completion_report_entry list"

text \<open>The authority is handed back unchanged when it is not terminal; \<open>None\<close> is the panic of
  the encoder.\<close>

definition try_into_report :: "(u8 list \<Rightarrow> bytes32) \<Rightarrow> completion_authority \<Rightarrow>
    (completion_authority + completion_report) option" where
  "try_into_report sha256 a =
     (if \<not> authority_is_terminal a then Some (Inl a)
      else map_option (\<lambda>identity. Inr
        \<lparr>report_graph_identity = identity,
         report_entries = map (\<lambda>(node, s). \<lparr>entry_node = node_id node, entry_state = s\<rparr>)
           (zip (graph_nodes (auth_graph a)) (auth_states a))\<rparr>)
        (graph_identity sha256 (auth_graph a)))"

end
