(* ===== verification/Completion_Propagation.thy ===== *)
theory Completion_Propagation
  imports Completion_Authority
begin

text \<open>
  The worklist of \<open>propagate_terminal_cause_from\<close>. Because the queue is ordered by topological
  rank, every dependency of a node has its final state when the node is taken, so propagation
  reaches the fixed point described by \<open>propagated\<close>.
\<close>

section \<open>Ranks and successors of a compiled graph\<close>

abbreviation node_count :: "completion_graph \<Rightarrow> nat" where
  "node_count g \<equiv> length (graph_nodes g)"

lemma compiled_dependency:
  assumes "compiled g" and "i < node_count g" and "d \<in> set (deps_of g i)"
  shows "d < node_count g \<and> rank_of g d < rank_of g i"
proof -
  obtain order where order: "greedy (graph_nodes g) (dependency_indices g) order" "distinct order"
      "set order = {..<node_count g}" "\<forall>k<length order. rank_of g (order ! k) = k"
    and wf: "deps_wf (dependency_indices g)" "length (dependency_indices g) = node_count g"
    using assms(1) by (auto simp: compiled_def)
  have d: "d < node_count g"
    using deps_wfD [OF wf(1), of i d] assms(2,3) wf(2) by (simp add: deps_of_def)
  obtain k where k: "k < length order" "order ! k = i"
    using assms(2) order(3) by (metis in_set_conv_nth lessThan_iff)
  obtain k' where "k' < k" "order ! k' = d"
    using greedy_before [OF order(1) k(1), of d] assms(3) k(2) by (auto simp: deps_of_def)
  then show ?thesis
    using order(4) k d by auto
qed

lemma compiled_rank_inj:
  assumes "compiled g"
  shows "inj_on (rank_of g) {..<node_count g}"
proof -
  obtain order where "set order = {..<node_count g}"
    "\<forall>k<length order. rank_of g (order ! k) = k"
    using assms by (auto simp: compiled_def)
  then show ?thesis
    by (intro inj_onI) (metis in_set_conv_nth)
qed

lemma compiled_successors:
  assumes "compiled g" and "i < node_count g"
  shows "distinct (succs_of g i)"
    and "set (succs_of g i) = {j. j < node_count g \<and> i \<in> set (deps_of g j)}"
  using assms by (auto simp: compiled_def)

lemma compiled_distinct_dependencies:
  "\<lbrakk>compiled g; i < node_count g\<rbrakk> \<Longrightarrow> distinct (deps_of g i)"
  by (auto simp: compiled_def deps_wf_def deps_of_def)

section \<open>Reads in range\<close>

text \<open>On a compiled graph no read of the propagation is out of range, and its steps are the functions below.\<close>

definition cause_of :: "completion_graph \<Rightarrow> completion_node_state list \<Rightarrow> nat \<Rightarrow> completion_node_state option" where
  "cause_of g S i = find_map (\<lambda>d. dependency_cause (S ! d)) (deps_of g i)"

definition enqueued :: "completion_authority \<Rightarrow> nat \<Rightarrow> completion_authority" where
  "enqueued a i = a\<lparr>propagation_queue :=
     foldl (\<lambda>q j. insort (rank_of (auth_graph a) j, j) q) (propagation_queue a) (succs_of (auth_graph a) i)\<rparr>"

lemma find_cause_eq:
  "\<forall>d\<in>set ds. d < length S \<Longrightarrow> find_cause S ds = Inr (find_map (\<lambda>d. dependency_cause (S ! d)) ds)"
  by (induction ds) (auto split: option.splits)

lemma node_cause_eq:
  assumes "compiled g" and "length S = node_count g" and "i < node_count g"
  shows "node_cause g S i = Inr (cause_of g S i)"
  using assms compiled_dependency [OF assms(1,3)]
  by (simp add: node_cause_def cause_of_def compiled_accessors find_cause_eq)

lemma enqueue_fold:
  assumes "compiled (auth_graph a)" and "\<forall>j\<in>set js. j < node_count (auth_graph a)"
  shows "try_fold enqueue_successor a js =
    Inr (a\<lparr>propagation_queue := foldl (\<lambda>q j. insort (rank_of (auth_graph a) j, j) q) (propagation_queue a) js\<rparr>)"
  using assms
proof (induction js arbitrary: a)
  case (Cons j js)
  let ?a = "a\<lparr>propagation_queue := insort (rank_of (auth_graph a) j, j) (propagation_queue a)\<rparr>"
  have "enqueue_successor a j = Inr ?a"
    using Cons.prems by (simp add: enqueue_successor_def compiled_accessors)
  then show ?case
    using Cons.IH [of ?a] Cons.prems by simp
qed simp

lemma enqueue_successors_eq:
  assumes "compiled (auth_graph a)" and "i < node_count (auth_graph a)"
  shows "enqueue_successors a i = Inr (enqueued a i)"
  using assms compiled_successors(2) [OF assms]
  by (simp add: enqueue_successors_def enqueued_def compiled_accessors enqueue_fold)

section \<open>Propagation\<close>

definition terminal_count :: "completion_node_state list \<Rightarrow> nat" where
  "terminal_count S = length (filter state_is_terminal S)"

lemma terminal_count_update:
  assumes "i < length S" and "\<not> state_is_terminal (S ! i)" and "state_is_terminal c"
  shows "terminal_count (S[i := c]) = Suc (terminal_count S)"
proof -
  have "S = take i S @ S ! i # drop (Suc i) S"
    using assms(1) by (rule id_take_nth_drop)
  then have "terminal_count S = terminal_count (take i S @ S ! i # drop (Suc i) S)"
    by simp
  then show ?thesis
    using assms by (simp add: terminal_count_def upd_conv_take_nth_drop)
qed

lemma cause_of_update:
  "i \<notin> set (deps_of g j) \<Longrightarrow> cause_of g (S[i := c]) j = cause_of g S j"
  unfolding cause_of_def by (rule find_map_cong) (simp, metis nth_list_update_neq)

lemma set_foldl_insort: "set (foldl (\<lambda>q x. insort (f x) q) q xs) = f ` set xs \<union> set q"
  by (induction xs arbitrary: q) (auto simp: set_insort_key)

lemma sorted_foldl_insort: "sorted q \<Longrightarrow> sorted (foldl (\<lambda>q x. insort (f x) q) q xs)"
  by (induction xs arbitrary: q) (auto simp: sorted_insort)

lemma set_enqueue:
  "set (propagation_queue (enqueued a i)) =
     (\<lambda>j. (rank_of (auth_graph a) j, j)) ` set (succs_of (auth_graph a) i) \<union>
     set (propagation_queue a)"
  by (simp add: enqueued_def set_foldl_insort)

lemma sorted_enqueue:
  "sorted (propagation_queue a) \<Longrightarrow> sorted (propagation_queue (enqueued a i))"
  by (simp add: enqueued_def sorted_foldl_insort)

lemma enqueue_fields [simp]:
  "auth_graph (enqueued a i) = auth_graph a"
  "auth_states (enqueued a i) = auth_states a"
  "remaining_dependencies (enqueued a i) = remaining_dependencies a"
  "terminal_nodes (enqueued a i) = terminal_nodes a"
  "ready_notifications (enqueued a i) = ready_notifications a"
  by (simp_all add: enqueued_def)

text \<open>The invariant of the worklist, relative to the states \<open>S0\<close> in which propagation starts.\<close>

definition queue_ok :: "completion_graph \<Rightarrow> (nat \<times> nat) list \<Rightarrow> bool" where
  "queue_ok g q \<longleftrightarrow> sorted q \<and> (\<forall>e\<in>set q. snd e < node_count g \<and> fst e = rank_of g (snd e))"

definition changed_ok :: "completion_graph \<Rightarrow> completion_node_state list \<Rightarrow> completion_node_state list \<Rightarrow>
    (nat \<times> nat) list \<Rightarrow> nat \<Rightarrow> bool" where
  "changed_ok g S0 S q i \<longleftrightarrow>
     (if S0 ! i \<noteq> Blocked then S ! i = S0 ! i
      else if S ! i \<noteq> Blocked
      then cause_of g S i = Some (S ! i) \<and> (\<forall>e\<in>set q. rank_of g i \<le> fst e)
      else cause_of g S i = None \<or> (rank_of g i, i) \<in> set q)"

definition loop_inv :: "completion_graph \<Rightarrow> completion_node_state list \<Rightarrow> completion_authority \<Rightarrow> bool" where
  "loop_inv g S0 a \<longleftrightarrow> auth_graph a = g \<and> length (auth_states a) = node_count g \<and>
     terminal_nodes a = terminal_count (auth_states a) \<and> queue_ok g (propagation_queue a) \<and>
     (\<forall>i<node_count g. changed_ok g S0 (auth_states a) (propagation_queue a) i)"

lemma queue_ok_tail: "queue_ok g (e # q) \<Longrightarrow> queue_ok g q"
  by (simp add: queue_ok_def)

lemma loop_inv_skip:
  assumes "loop_inv g S0 a" and "propagation_queue a = (r, i) # q"
    and "auth_states a ! i \<noteq> Blocked \<or> cause_of g (auth_states a) i = None"
  shows "loop_inv g S0 (a\<lparr>propagation_queue := q\<rparr>)"
  using assms by (auto simp: loop_inv_def changed_ok_def dest: queue_ok_tail)

lemma loop_inv_settle:
  assumes g: "compiled g" and inv: "loop_inv g S0 a" and q: "propagation_queue a = (r, i) # q"
    and i: "auth_states a ! i = Blocked" and c: "cause_of g (auth_states a) i = Some c"
  shows "loop_inv g S0 (enqueued (a\<lparr>propagation_queue := q, auth_states := (auth_states a)[i := c],
    terminal_nodes := terminal_nodes a + 1\<rparr>) i)" (is "loop_inv g S0 ?a'")
proof -
  let ?S = "auth_states a" and ?S' = "(auth_states a)[i := c]"
  have basic: "auth_graph a = g" "length ?S = node_count g" "queue_ok g ((r, i) # q)"
    "terminal_nodes a = terminal_count ?S" and ch: "\<forall>j<node_count g. changed_ok g S0 ?S ((r, i) # q) j"
    using inv q by (simp_all add: loop_inv_def)
  have r: "i < node_count g" "r = rank_of g i" and le: "\<forall>e\<in>set q. r \<le> fst e"
    using basic(3) less_eq_prod_def [of "(r, i)"] by (fastforce simp: queue_ok_def)+
  have c': "state_is_terminal c \<and> c \<noteq> Blocked"
    using c dependency_cause_terminal by (auto simp: cause_of_def dest: find_map_Some)
  have q': "set (propagation_queue ?a') =
      (\<lambda>j. (rank_of g j, j)) ` {j. j < node_count g \<and> i \<in> set (deps_of g j)} \<union> set q"
    using compiled_successors(2) [OF g r(1)] by (simp add: set_enqueue basic(1))
  then have sub: "set q \<subseteq> set (propagation_queue ?a')"
    by blast
  have later: "\<forall>e\<in>set (propagation_queue ?a'). r \<le> fst e"
    unfolding q' using le compiled_dependency [OF g] r by (auto intro: less_imp_le)
  have "queue_ok g (propagation_queue ?a')"
    using basic(3) sorted_enqueue [of "a\<lparr>propagation_queue := q, auth_states := ?S', terminal_nodes := terminal_nodes a + 1\<rparr>" i]
    unfolding queue_ok_def q' by auto
  moreover have "changed_ok g S0 ?S' (propagation_queue ?a') j" if j: "j < node_count g" for j
  proof (cases "j = i")
    case True
    have "i \<notin> set (deps_of g i)"
      using compiled_dependency [OF g r(1), of i] by blast
    moreover have "S0 ! i = Blocked"
      using ch r(1) i by (auto simp: changed_ok_def split: if_splits)
    ultimately show ?thesis
      using True c c' later r basic(2) by (simp add: changed_ok_def cause_of_update)
  next
    case False
    have same: "?S' ! j = ?S ! j" and chj: "changed_ok g S0 ?S ((r, i) # q) j"
      using False ch j by auto
    show ?thesis
    proof (cases "i \<in> set (deps_of g j)")
      case True
      then have "r < rank_of g j" and "(rank_of g j, j) \<in> set (propagation_queue ?a')"
        using compiled_dependency [OF g j True] j r(2) unfolding q' by auto
      then show ?thesis
        using chj by (auto simp: changed_ok_def same split: if_splits)
    next
      case no: False
      show ?thesis
        using chj later sub False unfolding changed_ok_def same cause_of_update [OF no]
        by (auto split: if_splits intro: order_trans)
    qed
  qed
  moreover have "terminal_nodes a + 1 = terminal_count ?S'"
    using terminal_count_update [of i ?S c] r(1) basic(2,4) i c' by simp
  ultimately show ?thesis
    by (simp add: loop_inv_def basic)
qed

text \<open>The states that propagation reaches from \<open>S0\<close>: settled states are kept, and a blocked node
  takes the first cause among the final states of its dependencies.\<close>

definition propagated :: "completion_graph \<Rightarrow> completion_node_state list \<Rightarrow> completion_node_state list \<Rightarrow> bool" where
  "propagated g S0 S \<longleftrightarrow> length S = node_count g \<and>
     (\<forall>i<node_count g. S ! i =
        (if S0 ! i \<noteq> Blocked then S0 ! i
         else case cause_of g S i of None \<Rightarrow> Blocked | Some c \<Rightarrow> c))"

lemma propagate_loop:
  assumes "compiled g" and "loop_inv g S0 a"
  shows "\<exists>a'. propagate a = Inr a' \<and> loop_inv g S0 a' \<and> propagation_queue a' = [] \<and>
    remaining_dependencies a' = remaining_dependencies a \<and> ready_notifications a' = ready_notifications a"
  using assms(2)
proof (induction a rule: propagate.induct)
  case (1 a)
  show ?case
  proof (cases "propagation_queue a")
    case Nil
    then show ?thesis
      using "1.prems" by (subst propagate.simps) simp
  next
    case (Cons e q)
    obtain r i where e: "e = (r, i)"
      by (cases e)
    note q = Cons [unfolded e]
    let ?a = "a\<lparr>propagation_queue := q\<rparr>"
    have g: "auth_graph a = g" and lt: "i < node_count g" "length (auth_states a) = node_count g"
      using "1.prems" q by (auto simp: loop_inv_def queue_ok_def)
    have state: "or_panic (checked_nth (auth_states ?a) i) = Inr (auth_states a ! i)"
      using lt by simp
    have cause: "node_cause (auth_graph ?a) (auth_states ?a) i = Inr (cause_of g (auth_states a) i)"
      using node_cause_eq [OF assms(1) lt(2,1)] g by simp
    note IH = "1.IH" [OF Cons e [symmetric] refl state]
    show ?thesis
    proof (cases "auth_states a ! i = Blocked")
      case False
      have "propagate a = propagate ?a"
        using False state by (subst propagate.simps) (simp add: q)
      then show ?thesis
        using IH(1) [OF False] loop_inv_skip [OF "1.prems" q] False by simp
    next
      case True
      show ?thesis
      proof (cases "cause_of g (auth_states a) i")
        case None
        have "propagate a = propagate ?a"
          using True None state cause by (subst propagate.simps) (simp add: q)
        then show ?thesis
          using IH(2) [OF _ cause None] True loop_inv_skip [OF "1.prems" q] None by simp
      next
        case (Some c)
        let ?b = "?a\<lparr>auth_states := (auth_states ?a)[i := c], terminal_nodes := terminal_nodes ?a + 1\<rparr>"
        have enq: "enqueue_successors ?b i = Inr (enqueued ?b i)"
          using enqueue_successors_eq [of ?b i] assms(1) g lt by simp
        have "propagate a = propagate (enqueued ?b i)"
          using True Some state cause enq by (subst propagate.simps) (simp add: q)
        then show ?thesis
          using IH(3) [OF _ cause Some enq] True loop_inv_settle [OF assms(1) "1.prems" q True Some] by simp
      qed
    qed
  qed
qed

lemma propagate_from_spec:
  assumes g: "compiled (auth_graph a)" and len: "length (auth_states a) = node_count (auth_graph a)"
    and count: "terminal_nodes a = terminal_count (auth_states a)" and q: "propagation_queue a = []"
    and i: "i < node_count (auth_graph a)" "auth_states a ! i \<noteq> Blocked"
    and other: "\<And>j. \<lbrakk>j < node_count (auth_graph a); auth_states a ! j = Blocked;
      i \<notin> set (deps_of (auth_graph a) j)\<rbrakk> \<Longrightarrow> cause_of (auth_graph a) (auth_states a) j = None"
  shows "\<exists>S. propagate_terminal_cause_from a i =
      Inr (a\<lparr>auth_states := S, terminal_nodes := terminal_count S\<rparr>) \<and>
    propagated (auth_graph a) (auth_states a) S"
proof -
  let ?g = "auth_graph a"
  have queue: "set (propagation_queue (enqueued a i)) =
      (\<lambda>j. (rank_of ?g j, j)) ` {j. j < node_count ?g \<and> i \<in> set (deps_of ?g j)}"
    using compiled_successors(2) [OF g i(1)] by (simp add: set_enqueue q)
  have "queue_ok ?g (propagation_queue (enqueued a i))"
    using sorted_enqueue [of a i] by (auto simp: queue_ok_def queue q)
  moreover have "changed_ok ?g (auth_states a) (auth_states a) (propagation_queue (enqueued a i)) j"
    if "j < node_count ?g" for j
    using other [OF that] that by (auto simp: changed_ok_def queue)
  ultimately have "loop_inv ?g (auth_states a) (enqueued a i)"
    by (simp add: loop_inv_def len count)
  from propagate_loop [OF g this] obtain a' where a': "propagate (enqueued a i) = Inr a'"
      "loop_inv ?g (auth_states a) a'" "propagation_queue a' = []"
      "remaining_dependencies a' = remaining_dependencies a" "ready_notifications a' = ready_notifications a"
    by auto
  have "a' = a\<lparr>auth_states := auth_states a', terminal_nodes := terminal_count (auth_states a')\<rparr>"
    using a'(2-5) q by (simp add: loop_inv_def)
  moreover have "propagated ?g (auth_states a) (auth_states a')"
    using a'(2,3) by (auto simp: loop_inv_def propagated_def changed_ok_def split: if_splits option.splits)
  ultimately show ?thesis
    using a'(1) q enqueue_successors_eq [OF g i(1)]
    by (intro exI [of _ "auth_states a'"]) (simp add: propagate_terminal_cause_from_def)
qed

end
