(* ===== verification/Completion_Authority_Invariant.thy ===== *)
theory Completion_Authority_Invariant
  imports Completion_Propagation
begin

text \<open>
  The invariant of the completion authority and its preservation when a node settles: a failure or
  cancellation propagates, a success releases its successors.
\<close>

section \<open>The invariant of the authority\<close>

definition all_succeeded :: "completion_graph \<Rightarrow> completion_node_state list \<Rightarrow> nat \<Rightarrow> bool" where
  "all_succeeded g S i \<longleftrightarrow> (\<forall>d\<in>set (deps_of g i). S ! d = Succeeded)"

definition unresolved :: "completion_graph \<Rightarrow> completion_node_state list \<Rightarrow> nat \<Rightarrow> nat" where
  "unresolved g S i = length (filter (\<lambda>d. S ! d \<noteq> Succeeded) (deps_of g i))"

fun node_inv :: "completion_graph \<Rightarrow> completion_node_state list \<Rightarrow> nat list \<Rightarrow> nat \<Rightarrow> completion_node_state \<Rightarrow> bool" where
  "node_inv g S R i Blocked \<longleftrightarrow> R ! i = unresolved g S i \<and> 0 < R ! i \<and> cause_of g S i = None"
| "node_inv g S R i Ready \<longleftrightarrow> all_succeeded g S i"
| "node_inv g S R i (CancelRequested _) \<longleftrightarrow> all_succeeded g S i"
| "node_inv g S R i Succeeded \<longleftrightarrow> all_succeeded g S i"
| "node_inv g S R i (Failed origin _) \<longleftrightarrow> origin = node_id (graph_nodes g ! i) \<and> all_succeeded g S i"
| "node_inv g S R i (Cancelled origin _) \<longleftrightarrow> origin = node_id (graph_nodes g ! i)"
| "node_inv g S R i (DependencyFailed origin e) \<longleftrightarrow>
     (\<exists>d\<in>set (deps_of g i). dependency_cause (S ! d) = Some (DependencyFailed origin e))"
| "node_inv g S R i (DependencyCancelled origin e) \<longleftrightarrow>
     (\<exists>d\<in>set (deps_of g i). dependency_cause (S ! d) = Some (DependencyCancelled origin e))"

definition authority_inv :: "completion_authority \<Rightarrow> bool" where
  "authority_inv a \<longleftrightarrow> compiled (auth_graph a) \<and>
     length (auth_states a) = node_count (auth_graph a) \<and>
     length (remaining_dependencies a) = node_count (auth_graph a) \<and>
     terminal_nodes a = terminal_count (auth_states a) \<and> propagation_queue a = [] \<and>
     (\<forall>i<node_count (auth_graph a).
        node_inv (auth_graph a) (auth_states a) (remaining_dependencies a) i (auth_states a ! i))"

text \<open>Outcomes other than success.\<close>

fun bad_outcome :: "completion_graph \<Rightarrow> completion_node_state list \<Rightarrow> nat \<Rightarrow> completion_node_state \<Rightarrow> bool" where
  "bad_outcome g S i (Failed origin _) \<longleftrightarrow> origin = node_id (graph_nodes g ! i) \<and> S ! i \<noteq> Blocked"
| "bad_outcome g S i (Cancelled origin _) \<longleftrightarrow> origin = node_id (graph_nodes g ! i)"
| "bad_outcome g S i _ \<longleftrightarrow> False"

lemma bad_outcome_state:
  "bad_outcome g S i s \<Longrightarrow> state_is_terminal s \<and> s \<noteq> Blocked \<and> s \<noteq> Succeeded \<and> dependency_cause s \<noteq> None"
  by (cases s) auto

lemma dependency_cause_cases:
  "dependency_cause s = Some c \<Longrightarrow> (\<exists>x e. c = DependencyFailed x e) \<or> (\<exists>x e. c = DependencyCancelled x e)"
  by (cases s) auto

lemma cause_of_cases:
  "cause_of g S i = Some c \<Longrightarrow>
   (\<exists>d\<in>set (deps_of g i). dependency_cause (S ! d) = Some c) \<and>
   ((\<exists>x e. c = DependencyFailed x e) \<or> (\<exists>x e. c = DependencyCancelled x e))"
  unfolding cause_of_def by (drule find_map_Some) (auto dest: dependency_cause_cases)

lemma unresolved_cong:
  assumes "compiled g" and "i < node_count g"
    and "\<And>d. d < node_count g \<Longrightarrow> S' ! d = Succeeded \<longleftrightarrow> S ! d = Succeeded"
  shows "unresolved g S' i = unresolved g S i" "all_succeeded g S' i \<longleftrightarrow> all_succeeded g S i"
proof -
  have "S' ! d = Succeeded \<longleftrightarrow> S ! d = Succeeded" if "d \<in> set (deps_of g i)" for d
    using assms(3) compiled_dependency [OF assms(1,2) that] by blast
  then show "unresolved g S' i = unresolved g S i" "all_succeeded g S' i \<longleftrightarrow> all_succeeded g S i"
    by (auto simp: unresolved_def all_succeeded_def cong: filter_cong)
qed

lemma propagated_states:
  assumes fp: "propagated g (S[i := s]) S'" and len: "length S = node_count g" and i: "i < node_count g"
    and s: "bad_outcome g S i s" and nonterm: "\<not> state_is_terminal (S ! i)" and j: "j < node_count g"
  shows "S' ! j = (if j = i then s else if S ! j \<noteq> Blocked then S ! j
      else case cause_of g S' j of None \<Rightarrow> Blocked | Some c \<Rightarrow> c)"
    and "S' ! j = Succeeded \<longleftrightarrow> S ! j = Succeeded"
proof -
  show eq: "S' ! j = (if j = i then s else if S ! j \<noteq> Blocked then S ! j
      else case cause_of g S' j of None \<Rightarrow> Blocked | Some c \<Rightarrow> c)"
    using fp bad_outcome_state [OF s] j i len by (auto simp: propagated_def nth_list_update)
  show "S' ! j = Succeeded \<longleftrightarrow> S ! j = Succeeded"
    using eq bad_outcome_state [OF s] nonterm cause_of_cases [of g S' j]
    by (cases "j = i") (auto split: option.splits)
qed

lemma propagated_node_inv:
  assumes inv: "authority_inv a" and i: "i < node_count (auth_graph a)"
    and s: "bad_outcome (auth_graph a) (auth_states a) i s" and nonterm: "\<not> state_is_terminal (auth_states a ! i)"
    and fp: "propagated (auth_graph a) ((auth_states a)[i := s]) S'" and j: "j < node_count (auth_graph a)"
  shows "node_inv (auth_graph a) S' (remaining_dependencies a) j (S' ! j)"
proof -
  let ?g = "auth_graph a" and ?S = "auth_states a" and ?R = "remaining_dependencies a"
  have g: "compiled ?g" and len: "length ?S = node_count ?g"
    and old: "node_inv ?g ?S ?R j (?S ! j)" "node_inv ?g ?S ?R i (?S ! i)"
    using inv i j by (simp_all add: authority_inv_def)
  note st = propagated_states(1) [OF fp len i s nonterm]
  note succ = propagated_states(2) [OF fp len i s nonterm]
  note same = unresolved_cong [OF g _ succ]
  have kept: "dependency_cause (S' ! d) = Some c"
    if "d \<in> set (deps_of ?g j)" "dependency_cause (?S ! d) = Some c" for d c
  proof -
    have "d < node_count ?g" "?S ! d \<noteq> Blocked" "d \<noteq> i"
      using that compiled_dependency [OF g j that(1)] nonterm by (auto elim: dependency_cause.elims)
    then show ?thesis
      using st [of d] that(2) by simp
  qed
  consider "j = i" | "j \<noteq> i" "?S ! j \<noteq> Blocked" | "j \<noteq> i" "?S ! j = Blocked"
    by blast
  then show ?thesis
  proof cases
    case 1
    then show ?thesis
      using s old(2) nonterm st [OF j] same(2) [OF i] by (cases s; cases "?S ! i") auto
  next
    case 2
    then show ?thesis
      using st [OF j] old(1) same [OF j] kept by (cases "?S ! j") auto
  next
    case 3
    then have "S' ! j = (case cause_of ?g S' j of None \<Rightarrow> Blocked | Some c \<Rightarrow> c)"
      using st [OF j] by simp
    then show ?thesis
      using 3 old(1) same(1) [OF j] cause_of_cases [of ?g S' j]
      by (cases "cause_of ?g S' j") auto
  qed
qed

lemma settle_fields [simp]:
  "auth_graph (settle a i s) = auth_graph a" "auth_states (settle a i s) = (auth_states a)[i := s]"
  "remaining_dependencies (settle a i s) = remaining_dependencies a"
  "terminal_nodes (settle a i s) = Suc (terminal_nodes a)"
  "propagation_queue (settle a i s) = propagation_queue a"
  "ready_notifications (settle a i s) = ready_notifications a"
  by (simp_all add: settle_def)

lemma settle_propagates:
  assumes inv: "authority_inv a" and i: "i < node_count (auth_graph a)"
    and s: "bad_outcome (auth_graph a) (auth_states a) i s" and nonterm: "\<not> state_is_terminal (auth_states a ! i)"
  shows "\<exists>S. propagate_terminal_cause_from (settle a i s) i =
      Inr (a\<lparr>auth_states := S, terminal_nodes := terminal_count S\<rparr>) \<and>
    propagated (auth_graph a) ((auth_states a)[i := s]) S \<and>
    authority_inv (a\<lparr>auth_states := S, terminal_nodes := terminal_count S\<rparr>)"
proof -
  let ?g = "auth_graph a" and ?S = "auth_states a"
  have g: "compiled ?g" and len: "length ?S = node_count ?g" "propagation_queue a = []"
    and blocked: "\<And>j. \<lbrakk>j < node_count ?g; ?S ! j = Blocked\<rbrakk> \<Longrightarrow> cause_of ?g ?S j = None"
    using inv by (auto simp: authority_inv_def)
  have "\<exists>S. propagate_terminal_cause_from (settle a i s) i =
      Inr (settle a i s\<lparr>auth_states := S, terminal_nodes := terminal_count S\<rparr>) \<and>
      propagated (auth_graph (settle a i s)) (auth_states (settle a i s)) S"
  proof (rule propagate_from_spec)
    show "terminal_nodes (settle a i s) = terminal_count (auth_states (settle a i s))"
      using inv i len bad_outcome_state [OF s] nonterm terminal_count_update [of i ?S s]
      by (simp add: authority_inv_def)
    show "cause_of (auth_graph (settle a i s)) (auth_states (settle a i s)) j = None"
      if "j < node_count (auth_graph (settle a i s))" "auth_states (settle a i s) ! j = Blocked"
        "i \<notin> set (deps_of (auth_graph (settle a i s)) j)" for j
    proof -
      have "j \<noteq> i"
        using that(2) bad_outcome_state [OF s] i len by auto
      then show ?thesis
        using that blocked by (simp add: cause_of_update)
    qed
  qed (use g len i bad_outcome_state [OF s] in auto)
  then obtain S where S: "propagate_terminal_cause_from (settle a i s) i =
      Inr (settle a i s\<lparr>auth_states := S, terminal_nodes := terminal_count S\<rparr>)" "propagated ?g (?S[i := s]) S"
    by auto
  moreover have "settle a i s\<lparr>auth_states := S, terminal_nodes := terminal_count S\<rparr> =
      a\<lparr>auth_states := S, terminal_nodes := terminal_count S\<rparr>"
    by (simp add: settle_def)
  moreover have "authority_inv (a\<lparr>auth_states := S, terminal_nodes := terminal_count S\<rparr>)"
    using inv propagated_node_inv [OF inv i s nonterm S(2)] S(2)
    by (simp add: authority_inv_def propagated_def)
  ultimately show ?thesis
    by auto
qed

section \<open>Release\<close>

text \<open>The effect of visiting the successors \<open>js\<close>.\<close>

definition released :: "completion_authority \<Rightarrow> nat \<Rightarrow> bool" where
  "released a j \<longleftrightarrow> auth_states a ! j = Blocked \<and> remaining_dependencies a ! j = 1"

definition visit :: "completion_authority \<Rightarrow> nat list \<Rightarrow> completion_authority" where
  "visit a js = a\<lparr>
     auth_states := map (\<lambda>j. if j \<in> set js \<and> released a j then Ready else auth_states a ! j)
       [0..<length (auth_states a)],
     remaining_dependencies := map (\<lambda>j. if j \<in> set js \<and> auth_states a ! j = Blocked
       then remaining_dependencies a ! j - 1 else remaining_dependencies a ! j)
       [0..<length (remaining_dependencies a)],
     ready_notifications := ready_notifications a @
       map (\<lambda>j. node_id (graph_nodes (auth_graph a) ! j)) (filter (released a) js)\<rparr>"

lemma visit_Nil [simp]: "visit a [] = a"
  by (simp add: visit_def map_nth)

lemma release_successor_visit:
  assumes "j < length (auth_states a)" and "length (remaining_dependencies a) = length (auth_states a)"
    and "node_count (auth_graph a) = length (auth_states a)"
    and "auth_states a ! j = Blocked \<Longrightarrow> 0 < remaining_dependencies a ! j"
  shows "release_successor a j = Inr (visit a [j])"
proof -
  consider "auth_states a ! j \<noteq> Blocked" | "released a j"
    | "auth_states a ! j = Blocked" "1 < remaining_dependencies a ! j"
    using assms(4) unfolding released_def by (metis One_nat_def Suc_lessI)
  then show ?thesis
    by cases (use assms in \<open>auto simp: release_successor_def visit_def released_def Let_def nth_list_update
        intro!: completion_authority.equality nth_equalityI\<close>)
qed

lemma visit_visit:
  assumes "j \<notin> set js" and "j < length (auth_states a)" and "length (remaining_dependencies a) = length (auth_states a)"
    and "set js \<subseteq> {..<length (auth_states a)}"
  shows "visit (visit a [j]) js = visit a (j # js)"
proof -
  have rel: "released (visit a [j]) k \<longleftrightarrow> released a k" if "k \<noteq> j" "k < length (auth_states a)" for k
    using that assms(3) by (simp add: released_def visit_def)
  have queued: "filter (released (visit a [j])) js = filter (released a) js"
    using assms(1,4) by (intro filter_cong) (auto intro!: rel)
  have state: "auth_states (visit (visit a [j]) js) = auth_states (visit a (j # js))"
  proof (rule nth_equalityI)
    fix k assume "k < length (auth_states (visit (visit a [j]) js))"
    then have k: "k < length (auth_states a)"
      by (simp add: visit_def)
    show "auth_states (visit (visit a [j]) js) ! k = auth_states (visit a (j # js)) ! k"
      using k assms(1) rel [OF _ k] by (cases "k = j") (simp_all add: visit_def)
  qed (simp add: visit_def)
  have rem: "remaining_dependencies (visit (visit a [j]) js) = remaining_dependencies (visit a (j # js))"
  proof (rule nth_equalityI)
    fix k assume "k < length (remaining_dependencies (visit (visit a [j]) js))"
    then have k: "k < length (auth_states a)"
      using assms(3) by (simp add: visit_def)
    show "remaining_dependencies (visit (visit a [j]) js) ! k = remaining_dependencies (visit a (j # js)) ! k"
      using k assms(1,3) by (cases "k = j") (simp_all add: visit_def)
  qed (simp add: visit_def)
  show ?thesis
    by (rule completion_authority.equality) (use state rem queued in \<open>simp_all add: visit_def\<close>)
qed

lemma release_fold:
  assumes "distinct js" and "\<And>j. j \<in> set js \<Longrightarrow> j < length (auth_states a)"
    and "length (remaining_dependencies a) = length (auth_states a)"
    and "node_count (auth_graph a) = length (auth_states a)"
    and "\<And>j. \<lbrakk>j \<in> set js; auth_states a ! j = Blocked\<rbrakk> \<Longrightarrow> 0 < remaining_dependencies a ! j"
  shows "try_fold release_successor a js = Inr (visit a js)"
  using assms
proof (induction js arbitrary: a)
  case (Cons j js)
  have first: "release_successor a j = Inr (visit a [j])"
    using Cons.prems by (intro release_successor_visit) auto
  have "try_fold release_successor (visit a [j]) js = Inr (visit (visit a [j]) js)"
  proof (rule Cons.IH)
    show "0 < remaining_dependencies (visit a [j]) ! k"
      if "k \<in> set js" "auth_states (visit a [j]) ! k = Blocked" for k
    proof -
      have "k < length (auth_states a)" "k \<noteq> j"
        using that(1) Cons.prems by auto
      then show ?thesis
        using that Cons.prems(3) Cons.prems(5) [of k] by (simp add: visit_def)
    qed
  qed (use Cons.prems in \<open>auto simp: visit_def\<close>)
  also have "visit (visit a [j]) js = visit a (j # js)"
    using Cons.prems by (intro visit_visit) auto
  finally show ?case
    by (simp add: first)
qed simp

lemma terminal_count_cong:
  assumes "length S = length S'"
    and "\<And>k. k < length S \<Longrightarrow> state_is_terminal (S ! k) \<longleftrightarrow> state_is_terminal (S' ! k)"
  shows "terminal_count S = terminal_count S'"
  using assms unfolding terminal_count_def length_filter_conv_card by (metis (lifting))

lemma unresolved_0: "unresolved g S i = 0 \<longleftrightarrow> all_succeeded g S i"
  by (auto simp: unresolved_def all_succeeded_def filter_empty_conv)

lemma filter_unaffected:
  "i \<notin> set ds \<Longrightarrow> filter (\<lambda>d. S[i := s] ! d \<noteq> t) ds = filter (\<lambda>d. S ! d \<noteq> t) ds"
  by (intro filter_cong refl) (metis nth_list_update_neq)

lemma unresolved_succeeds:
  assumes "compiled g" and "j < node_count g" and "i < length S" and "S ! i \<noteq> Succeeded"
    and "i \<in> set (deps_of g j)"
  shows "unresolved g S j = Suc (unresolved g (S[i := Succeeded]) j)"
proof -
  obtain xs ys where deps: "deps_of g j = xs @ i # ys"
    using assms(5) by (metis split_list)
  then have "i \<notin> set xs" "i \<notin> set ys"
    using compiled_distinct_dependencies [OF assms(1,2)] by auto
  then show ?thesis
    using assms(3,4) by (simp add: unresolved_def deps filter_unaffected)
qed

lemma settle_releases:
  assumes inv: "authority_inv a" and i: "i < node_count (auth_graph a)"
    and st: "auth_states a ! i = Ready \<or> (\<exists>r. auth_states a ! i = CancelRequested r)"
  defines "b \<equiv> visit (settle a i Succeeded) (succs_of (auth_graph a) i)"
  shows "release_successors (settle a i Succeeded) i = Inr b"
    and "\<And>j. j < node_count (auth_graph a) \<Longrightarrow> auth_states b ! j =
      (if j = i then Succeeded
       else if auth_states a ! j = Blocked \<and> all_succeeded (auth_graph a) ((auth_states a)[i := Succeeded]) j
       then Ready else auth_states a ! j)"
    and "authority_inv b"
proof -
  let ?g = "auth_graph a" and ?S = "auth_states a" and ?R = "remaining_dependencies a"
  let ?S1 = "(auth_states a)[i := Succeeded]" and ?succ = "succs_of (auth_graph a) i"
  have g: "compiled ?g" and len: "length ?S = node_count ?g" "length ?R = node_count ?g"
    and old: "\<And>j. j < node_count ?g \<Longrightarrow> node_inv ?g ?S ?R j (?S ! j)"
    using inv by (simp_all add: authority_inv_def)
  note succ = compiled_successors [OF g i]
  have ne: "?S ! i \<noteq> Succeeded" "?S ! i \<noteq> Blocked" "\<not> state_is_terminal (?S ! i)"
    using st by auto
  have blocked: "?R ! j = unresolved ?g ?S j \<and> 0 < ?R ! j \<and> cause_of ?g ?S j = None"
    if "j < node_count ?g" "?S ! j = Blocked" for j
    using old [OF that(1)] that(2) by simp
  have count: "?R ! j = unresolved ?g ?S1 j + (if j \<in> set ?succ then 1 else 0)"
    if j: "j < node_count ?g" "?S ! j = Blocked" for j
  proof (cases "i \<in> set (deps_of ?g j)")
    case True
    then show ?thesis
      using unresolved_succeeds [OF g j(1) _ ne(1) True] blocked [OF j] succ(2) i j len by simp
  next
    case False
    then have "unresolved ?g ?S1 j = unresolved ?g ?S j"
      by (simp add: unresolved_def filter_unaffected)
    then show ?thesis
      using False blocked [OF j] succ(2) by simp
  qed
  show "release_successors (settle a i Succeeded) i = Inr b"
  proof -
    have "0 < ?R ! j" if "j < node_count ?g" "?S1 ! j = Blocked" for j
      using that i len blocked [OF that(1)] by (cases "j = i") auto
    then have "try_fold release_successor (settle a i Succeeded) ?succ = Inr b"
      unfolding b_def using succ len by (intro release_fold) auto
    then show ?thesis
      using g i by (simp add: release_successors_def compiled_accessors)
  qed
  have rel: "released (settle a i Succeeded) j \<longleftrightarrow> ?S ! j = Blocked \<and> ?R ! j = 1" if "j < node_count ?g" for j
    using ne i len that by (auto simp: released_def nth_list_update)
  show states: "auth_states b ! j = (if j = i then Succeeded
      else if ?S ! j = Blocked \<and> all_succeeded ?g ?S1 j then Ready else ?S ! j)" if j: "j < node_count ?g" for j
  proof -
    have "auth_states b ! j = (if j \<in> set ?succ \<and> ?S ! j = Blocked \<and> ?R ! j = 1 then Ready else ?S1 ! j)"
      using j len by (simp add: b_def visit_def rel)
    moreover have "j \<in> set ?succ \<and> ?R ! j = 1 \<longleftrightarrow> all_succeeded ?g ?S1 j" if "?S ! j = Blocked"
      using count [OF j that] blocked [OF j that] unresolved_0 [of ?g ?S1 j] by auto
    ultimately show ?thesis
      using ne i len by (auto simp: nth_list_update)
  qed
  have succeeded: "auth_states b ! d = Succeeded \<longleftrightarrow> ?S1 ! d = Succeeded" if "d < node_count ?g" for d
    using states [OF that] i len by (auto simp: nth_list_update)
  have grows: "all_succeeded ?g ?S j \<Longrightarrow> all_succeeded ?g (auth_states b) j" if "j < node_count ?g" for j
    using compiled_dependency [OF g that] states ne by (fastforce simp: all_succeeded_def)
  have cause: "dependency_cause (auth_states b ! d) = dependency_cause (?S ! d)" if "d < node_count ?g" for d
    using states [OF that] st by auto
  have causes: "cause_of ?g (auth_states b) j = cause_of ?g ?S j" if "j < node_count ?g" for j
    unfolding cause_of_def using compiled_dependency [OF g that] cause by (intro find_map_cong) auto
  have rem: "remaining_dependencies b ! j = (if j \<in> set ?succ \<and> ?S ! j = Blocked then ?R ! j - 1 else ?R ! j)"
    if "j < node_count ?g" for j
    using that len ne(2) i by (auto simp: b_def visit_def nth_list_update)
  have "node_inv ?g (auth_states b) (remaining_dependencies b) j (auth_states b ! j)" if j: "j < node_count ?g" for j
  proof -
    have un: "unresolved ?g (auth_states b) j = unresolved ?g ?S1 j"
      "all_succeeded ?g (auth_states b) j \<longleftrightarrow> all_succeeded ?g ?S1 j"
      using unresolved_cong [OF g j succeeded] by auto
    consider "j = i" | "j \<noteq> i" "?S ! j = Blocked" "all_succeeded ?g ?S1 j"
      | "j \<noteq> i" "?S ! j = Blocked" "\<not> all_succeeded ?g ?S1 j" | "j \<noteq> i" "?S ! j \<noteq> Blocked"
      by blast
    then show ?thesis
    proof cases
      case 1
      then show ?thesis
        using states [OF j] grows [OF j] old [OF j] st by auto
    next
      case 2
      then show ?thesis
        using states [OF j] un by simp
    next
      case 3
      then have "0 < unresolved ?g ?S1 j"
        using unresolved_0 [of ?g ?S1 j] by simp
      then show ?thesis
        using 3 states [OF j] rem [OF j] count [OF j] blocked [OF j] causes [OF j] un by auto
    next
      case 4
      have "auth_states b ! j = ?S ! j"
        using states [OF j] 4 by simp
      moreover have "\<exists>d\<in>set (deps_of ?g j). dependency_cause (auth_states b ! d) = c"
        if "\<exists>d\<in>set (deps_of ?g j). dependency_cause (?S ! d) = c" for c
        using that cause compiled_dependency [OF g j] by metis
      ultimately show ?thesis
        using 4 old [OF j] grows [OF j] by (cases "?S ! j") auto
    qed
  qed
  moreover have "terminal_count (auth_states b) = terminal_count ?S1"
    by (rule terminal_count_cong) (use states i len in \<open>auto simp: b_def visit_def nth_list_update\<close>)
  moreover have "terminal_count ?S1 = Suc (terminal_count ?S)"
    using terminal_count_update [of i ?S Succeeded] i len ne by simp
  ultimately show "authority_inv b"
    using inv by (simp add: authority_inv_def b_def visit_def)
qed

end
