(* ===== verification/Completion_Authority_Steps.thy ===== *)
theory Completion_Authority_Steps
  imports Completion_Authority_Invariant
begin

text \<open>
  Steps and runs of the completion authority. Every operation either fails without a panic or is a
  step that keeps the invariant, never changes a terminal state and queues a notification for
  exactly the nodes that leave \<open>Blocked\<close> for \<open>Ready\<close>.
\<close>

section \<open>Construction\<close>

lemma authority_new_inv:
  assumes "compiled g"
  shows "authority_inv (authority_new g)"
proof -
  have len: "length (dependency_indices g) = node_count g"
    using assms by (simp add: compiled_def)
  let ?S = "auth_states (authority_new g)"
  have st: "?S ! i = (if deps_of g i = [] then Ready else Blocked)" if "i < node_count g" for i
    using that len by (simp add: authority_new_def Let_def deps_of_def)
  have dep: "?S ! d \<noteq> Succeeded \<and> dependency_cause (?S ! d) = None"
    if "i < node_count g" "d \<in> set (deps_of g i)" for i d
    using st [of d] compiled_dependency [OF assms that] by simp
  have "unresolved g ?S i = length (deps_of g i)" "cause_of g ?S i = None" if "i < node_count g" for i
    using dep [OF that] by (simp_all add: unresolved_def cause_of_def find_map_None filter_id_conv cong: filter_cong)
  moreover have "terminal_count ?S = 0"
    by (auto simp: terminal_count_def authority_new_def Let_def filter_empty_conv)
  ultimately show ?thesis
    using assms len st
    by (simp add: authority_inv_def authority_new_def Let_def all_succeeded_def deps_of_def)
qed

section \<open>Steps\<close>

text \<open>The operations that change node states, and runs that also record the notifications taken.\<close>

inductive authority_step :: "completion_authority \<Rightarrow> completion_authority \<Rightarrow> bool" where
  step_request: "request_cancel a node reason = Inr (changed, a') \<Longrightarrow> authority_step a a'"
| step_cancel_blocked: "cancel_blocked a node reason = Inr a' \<Longrightarrow> authority_step a a'"
| step_succeeded: "mark_succeeded a node = Inr a' \<Longrightarrow> authority_step a a'"
| step_failed: "mark_failed a node error = Inr a' \<Longrightarrow> authority_step a a'"
| step_cancelled: "mark_cancelled a node = Inr a' \<Longrightarrow> authority_step a a'"

inductive authority_run :: "completion_graph \<Rightarrow> completion_authority \<Rightarrow> completion_node_id list \<Rightarrow> bool"
  for g where
  run_start: "authority_run g (authority_new g) []"
| run_step: "\<lbrakk>authority_run g a taken; authority_step a a'\<rbrakk> \<Longrightarrow> authority_run g a' taken"
| run_pop: "\<lbrakk>authority_run g a taken; pop_ready_notification a = (Some node, a')\<rbrakk> \<Longrightarrow>
     authority_run g a' (taken @ [node])"

fun activated :: "completion_node_state \<Rightarrow> bool" where
  "activated Ready = True"
| "activated (CancelRequested _) = True"
| "activated Succeeded = True"
| "activated (Failed _ _) = True"
| "activated _ = False"

text \<open>What every step does, with \<open>js\<close> the nodes it makes ready.\<close>

definition step_ok :: "completion_authority \<Rightarrow> completion_authority \<Rightarrow> nat list \<Rightarrow> bool" where
  "step_ok a a' js \<longleftrightarrow> authority_inv a' \<and> auth_graph a' = auth_graph a \<and>
     ready_notifications a' = ready_notifications a @
       map (\<lambda>j. node_id (graph_nodes (auth_graph a) ! j)) js \<and> distinct js \<and>
     (\<forall>j\<in>set js. j < node_count (auth_graph a) \<and> auth_states a ! j = Blocked \<and> auth_states a' ! j = Ready) \<and>
     (\<forall>j<node_count (auth_graph a).
        (state_is_terminal (auth_states a ! j) \<longrightarrow> auth_states a' ! j = auth_states a ! j) \<and>
        (auth_states a' ! j = Blocked \<longrightarrow> auth_states a ! j = Blocked) \<and>
        (activated (auth_states a' ! j) \<longrightarrow> activated (auth_states a ! j) \<or> j \<in> set js))"

lemma step_okD:
  assumes "step_ok a a' js"
  shows "authority_inv a'" "auth_graph a' = auth_graph a"
    "ready_notifications a' = ready_notifications a @ map (\<lambda>j. node_id (graph_nodes (auth_graph a) ! j)) js"
    "distinct js"
    "\<And>j. j \<in> set js \<Longrightarrow> j < node_count (auth_graph a) \<and> auth_states a ! j = Blocked \<and> auth_states a' ! j = Ready"
    "\<And>j. \<lbrakk>j < node_count (auth_graph a); state_is_terminal (auth_states a ! j)\<rbrakk> \<Longrightarrow>
      auth_states a' ! j = auth_states a ! j"
    "\<And>j. \<lbrakk>j < node_count (auth_graph a); auth_states a' ! j = Blocked\<rbrakk> \<Longrightarrow> auth_states a ! j = Blocked"
    "\<And>j. \<lbrakk>j < node_count (auth_graph a); activated (auth_states a' ! j)\<rbrakk> \<Longrightarrow>
      activated (auth_states a ! j) \<or> j \<in> set js"
  using assms unfolding step_ok_def by blast+

lemma settle_propagates_step:
  assumes inv: "authority_inv a" and i: "i < node_count (auth_graph a)"
    and s: "bad_outcome (auth_graph a) (auth_states a) i s" and nonterm: "\<not> state_is_terminal (auth_states a ! i)"
    and act: "activated s \<Longrightarrow> activated (auth_states a ! i)"
  shows "\<exists>a'. propagate_terminal_cause_from (settle a i s) i = Inr a' \<and> step_ok a a' [] \<and>
    propagated (auth_graph a) ((auth_states a)[i := s]) (auth_states a') \<and>
    remaining_dependencies a' = remaining_dependencies a"
proof -
  let ?g = "auth_graph a" and ?S = "auth_states a"
  have len: "length ?S = node_count ?g"
    using inv by (simp add: authority_inv_def)
  obtain S where S: "propagate_terminal_cause_from (settle a i s) i =
      Inr (a\<lparr>auth_states := S, terminal_nodes := terminal_count S\<rparr>)" "propagated ?g (?S[i := s]) S"
      "authority_inv (a\<lparr>auth_states := S, terminal_nodes := terminal_count S\<rparr>)"
    using settle_propagates [OF inv i s nonterm] by (elim exE conjE) (rule that)
  let ?a' = "a\<lparr>auth_states := S, terminal_nodes := terminal_count S\<rparr>"
  have "(state_is_terminal (?S ! j) \<longrightarrow> auth_states ?a' ! j = ?S ! j) \<and>
      (auth_states ?a' ! j = Blocked \<longrightarrow> ?S ! j = Blocked) \<and>
      (activated (auth_states ?a' ! j) \<longrightarrow> activated (?S ! j) \<or> j \<in> set [])" if j: "j < node_count ?g" for j
  proof -
    note st = propagated_states(1) [OF S(2) len i s nonterm j]
    consider "j = i" | "j \<noteq> i" "?S ! j \<noteq> Blocked" | "j \<noteq> i" "?S ! j = Blocked" "cause_of ?g S j = None"
      | c where "j \<noteq> i" "?S ! j = Blocked" "cause_of ?g S j = Some c"
      by (cases "cause_of ?g S j") auto
    then show ?thesis
    proof cases
      case 1
      then show ?thesis
        using st nonterm act bad_outcome_state [OF s] by simp
    next
      case 4
      then show ?thesis
        using st cause_of_cases [OF 4(3)] by auto
    qed (use st in auto)
  qed
  then have key: "\<forall>j<node_count ?g. (state_is_terminal (?S ! j) \<longrightarrow> auth_states ?a' ! j = ?S ! j) \<and>
      (auth_states ?a' ! j = Blocked \<longrightarrow> ?S ! j = Blocked) \<and>
      (activated (auth_states ?a' ! j) \<longrightarrow> activated (?S ! j) \<or> j \<in> set [])"
    by blast
  have "step_ok a ?a' []"
    unfolding step_ok_def by (intro conjI key) (use S(3) in simp_all)
  then show ?thesis
    using S(1,2) by (intro exI [of _ ?a']) simp
qed

lemma settle_releases_step:
  assumes inv: "authority_inv a" and i: "i < node_count (auth_graph a)"
    and st: "auth_states a ! i = Ready \<or> (\<exists>r. auth_states a ! i = CancelRequested r)"
  shows "\<exists>a' js. release_successors (settle a i Succeeded) i = Inr a' \<and> step_ok a a' js \<and>
    (\<forall>j<node_count (auth_graph a). auth_states a' ! j =
      (if j = i then Succeeded
       else if auth_states a ! j = Blocked \<and> all_succeeded (auth_graph a) ((auth_states a)[i := Succeeded]) j
       then Ready else auth_states a ! j))"
proof -
  let ?g = "auth_graph a" and ?S = "auth_states a" and ?succ = "succs_of (auth_graph a) i"
  define b where "b = visit (settle a i Succeeded) ?succ"
  define js where "js = filter (released (settle a i Succeeded)) ?succ"
  note rel = settle_releases [OF inv i st, folded b_def]
  have len: "length ?S = node_count ?g" and g: "compiled ?g"
    using inv by (simp_all add: authority_inv_def)
  note succ = compiled_successors [OF g i]
  have mem: "j \<in> set js \<Longrightarrow> j < node_count ?g \<and> ?S ! j = Blocked \<and> auth_states b ! j = Ready" for j
    using succ(2) len i by (auto simp: js_def released_def b_def visit_def nth_list_update split: if_splits)
  have new: "j \<in> set js" if "j < node_count ?g" "j \<noteq> i" "auth_states b ! j \<noteq> ?S ! j" for j
    using that len by (auto simp: js_def released_def b_def visit_def split: if_splits)
  have key: "\<forall>j<node_count ?g. (state_is_terminal (?S ! j) \<longrightarrow> auth_states b ! j = ?S ! j) \<and>
      (auth_states b ! j = Blocked \<longrightarrow> ?S ! j = Blocked) \<and>
      (activated (auth_states b ! j) \<longrightarrow> activated (?S ! j) \<or> j \<in> set js)"
  proof (intro allI impI)
    fix j assume j: "j < node_count ?g"
    show "(state_is_terminal (?S ! j) \<longrightarrow> auth_states b ! j = ?S ! j) \<and>
      (auth_states b ! j = Blocked \<longrightarrow> ?S ! j = Blocked) \<and>
      (activated (auth_states b ! j) \<longrightarrow> activated (?S ! j) \<or> j \<in> set js)"
    proof (cases "j = i")
      case True
      then show ?thesis
        using st rel(2) [OF j] by auto
    next
      case False
      then show ?thesis
        using new [OF j False] rel(2) [OF j] by (cases "auth_states b ! j = ?S ! j") (auto split: if_splits)
    qed
  qed
  have "distinct js"
    using succ(1) by (simp add: js_def)
  then have "step_ok a b js"
    unfolding step_ok_def using mem rel(3)
    by (intro conjI key) (simp_all add: js_def b_def visit_def)
  then show ?thesis
    using rel(1,2) by blast
qed

section \<open>Operations\<close>

lemma node_inv_cong:
  assumes g: "compiled g" and j: "j < node_count g"
    and same: "\<And>d. d < node_count g \<Longrightarrow> (S' ! d = Succeeded \<longleftrightarrow> S ! d = Succeeded) \<and>
      dependency_cause (S' ! d) = dependency_cause (S ! d)"
  shows "node_inv g S' R j s \<longleftrightarrow> node_inv g S R j s"
proof -
  have dep: "dependency_cause (S' ! d) = dependency_cause (S ! d)" if "d \<in> set (deps_of g j)" for d
    using same compiled_dependency [OF g j that] by blast
  then have "cause_of g S' j = cause_of g S j"
    unfolding cause_of_def by (intro find_map_cong) auto
  moreover have "unresolved g S' j = unresolved g S j" "all_succeeded g S' j \<longleftrightarrow> all_succeeded g S j"
    using unresolved_cong [OF g j, of S' S] same by auto
  ultimately show ?thesis
    using dep by (cases s) auto
qed

lemma require_node_Inr:
  "compiled (auth_graph a) \<Longrightarrow> require_node a node = Inr i \<longleftrightarrow>
     i < node_count (auth_graph a) \<and> node_id (graph_nodes (auth_graph a) ! i) = node"
  by (simp add: require_node_def ok_or_Inr node_index_Some)

lemma request_cancel_step:
  assumes inv: "authority_inv a" and req: "request_cancel a node reason = Inr (changed, a')"
  shows "step_ok a a' []"
proof -
  let ?g = "auth_graph a" and ?S = "auth_states a"
  have g: "compiled ?g" and len: "length ?S = node_count ?g"
    using inv by (simp_all add: authority_inv_def)
  consider "a' = a" | i where "i < node_count ?g" "?S ! i = Ready" "a' = a\<lparr>auth_states := ?S[i := CancelRequested reason]\<rparr>"
  proof -
    obtain i where i: "i < node_count ?g" "require_node a node = Inr i"
      using req by (auto simp: request_cancel_def and_then_Inr require_node_Inr [OF g])
    have "a' = a \<or> ?S ! i = Ready \<and> a' = a\<lparr>auth_states := ?S[i := CancelRequested reason]\<rparr>"
      using req i len by (cases "?S ! i") (simp_all add: request_cancel_def split: if_splits)
    then show thesis
      using that i(1) by blast
  qed
  then show ?thesis
  proof cases
    case 1
    then show ?thesis
      using inv by (simp add: step_ok_def)
  next
    case 2
    have upd: "auth_states a' ! j = (if j = i then CancelRequested reason else ?S ! j)" for j
      using 2 len by (cases "j = i") simp_all
    have "node_inv ?g (auth_states a') R j s \<longleftrightarrow> node_inv ?g ?S R j s" if "j < node_count ?g" for R j s
      using 2(2) upd by (intro node_inv_cong [OF g that]) auto
    moreover have "terminal_count (auth_states a') = terminal_count ?S"
      by (rule terminal_count_cong) (use 2 upd in auto)
    ultimately have "authority_inv a'"
      using inv 2 upd by (auto simp: authority_inv_def)
    moreover have key: "\<forall>j<node_count ?g. (state_is_terminal (?S ! j) \<longrightarrow> auth_states a' ! j = ?S ! j) \<and>
      (auth_states a' ! j = Blocked \<longrightarrow> ?S ! j = Blocked) \<and>
      (activated (auth_states a' ! j) \<longrightarrow> activated (?S ! j) \<or> j \<in> set [])"
      using 2(2) by (simp add: upd)
    ultimately show ?thesis
      unfolding step_ok_def by (intro conjI key) (simp_all add: 2(3))
  qed
qed

text \<open>An operation on a node either settles it, with the given effect, or fails without a panic.\<close>

definition plain_result :: "completion_transition_error + 'b \<Rightarrow> bool" where
  "plain_result r \<longleftrightarrow> (\<exists>e. r = Inl e \<and> e \<noteq> AuthorityPanic)"

lemma plain_result_simps [simp]: "plain_result (Inl e) \<longleftrightarrow> e \<noteq> AuthorityPanic" "\<not> plain_result (Inr x)"
  by (simp_all add: plain_result_def)

lemma settle_op_cases:
  assumes inv: "authority_inv a" and r: "r = and_then (require_node a node) f"
    and f: "\<And>i. \<lbrakk>i < node_count (auth_graph a); node_id (graph_nodes (auth_graph a) ! i) = node;
        checked_nth (auth_states a) i = Some (auth_states a ! i)\<rbrakk> \<Longrightarrow>
      plain_result (f i) \<or> (\<exists>s. P i s \<and> f i = propagate_terminal_cause_from (settle a i s) i \<and>
        bad_outcome (auth_graph a) (auth_states a) i s \<and> \<not> state_is_terminal (auth_states a ! i) \<and>
        (activated s \<longrightarrow> activated (auth_states a ! i)))"
  obtains "plain_result r"
  | i s a' where "i < node_count (auth_graph a)" "node_id (graph_nodes (auth_graph a) ! i) = node" "P i s"
      "r = Inr a'" "step_ok a a' []" "propagated (auth_graph a) ((auth_states a)[i := s]) (auth_states a')"
proof (cases "require_node a node")
  case (Inl e)
  then have "plain_result r"
    by (auto simp: r require_node_def ok_or_def split: option.splits)
  then show thesis
    by (rule that(1))
next
  case (Inr i)
  then have i: "i < node_count (auth_graph a)" "node_id (graph_nodes (auth_graph a) ! i) = node"
    using inv by (simp_all add: authority_inv_def require_node_Inr)
  have r: "r = f i"
    by (simp add: r Inr)
  have "checked_nth (auth_states a) i = Some (auth_states a ! i)"
    using inv i(1) by (simp add: authority_inv_def)
  from f [OF i this] show thesis
  proof (elim disjE exE conjE)
    fix s assume s: "P i s" "f i = propagate_terminal_cause_from (settle a i s) i"
      "bad_outcome (auth_graph a) (auth_states a) i s" "\<not> state_is_terminal (auth_states a ! i)"
      "activated s \<longrightarrow> activated (auth_states a ! i)"
    then obtain a' where "f i = Inr a'" "step_ok a a' []"
      "propagated (auth_graph a) ((auth_states a)[i := s]) (auth_states a')"
      using settle_propagates_step [OF inv i(1) s(3,4)] by auto
    then show thesis
      using that(2) [OF i s(1)] r by simp
  qed (use that(1) r in simp)
qed

lemma cancel_blocked_cases:
  assumes "authority_inv a"
  obtains "plain_result (cancel_blocked a node reason)"
  | i s a' where "i < node_count (auth_graph a)" "node_id (graph_nodes (auth_graph a) ! i) = node"
      "auth_states a ! i = Blocked \<and> s = Cancelled node reason"
      "cancel_blocked a node reason = Inr a'" "step_ok a a' []"
      "propagated (auth_graph a) ((auth_states a)[i := s]) (auth_states a')"
  by (rule settle_op_cases [where P = "\<lambda>i s. auth_states a ! i = Blocked \<and> s = Cancelled node reason",
        OF assms cancel_blocked_def _ that]) (auto split: completion_node_state.split)

lemma mark_failed_cases:
  assumes "authority_inv a"
  obtains "plain_result (mark_failed a node error)"
  | i s a' where "i < node_count (auth_graph a)" "node_id (graph_nodes (auth_graph a) ! i) = node"
      "(auth_states a ! i = Ready \<or> (\<exists>r. auth_states a ! i = CancelRequested r)) \<and> s = Failed node error"
      "mark_failed a node error = Inr a'" "step_ok a a' []"
      "propagated (auth_graph a) ((auth_states a)[i := s]) (auth_states a')"
  by (rule settle_op_cases [where P = "\<lambda>i s. (auth_states a ! i = Ready \<or>
        (\<exists>r. auth_states a ! i = CancelRequested r)) \<and> s = Failed node error",
        OF assms mark_failed_def _ that]) (auto split: completion_node_state.split)

lemma mark_cancelled_cases:
  assumes "authority_inv a"
  obtains "plain_result (mark_cancelled a node)"
  | i s a' where "i < node_count (auth_graph a)" "node_id (graph_nodes (auth_graph a) ! i) = node"
      "\<exists>r. auth_states a ! i = CancelRequested r \<and> s = Cancelled node r"
      "mark_cancelled a node = Inr a'" "step_ok a a' []"
      "propagated (auth_graph a) ((auth_states a)[i := s]) (auth_states a')"
  by (rule settle_op_cases [where P = "\<lambda>i s. \<exists>r. auth_states a ! i = CancelRequested r \<and>
        s = Cancelled node r", OF assms mark_cancelled_def _ that]) (auto split: completion_node_state.split)

lemma mark_succeeded_cases:
  assumes inv: "authority_inv a"
  obtains "plain_result (mark_succeeded a node)"
  | i a' js where "i < node_count (auth_graph a)" "node_id (graph_nodes (auth_graph a) ! i) = node"
      "auth_states a ! i = Ready \<or> (\<exists>r. auth_states a ! i = CancelRequested r)"
      "mark_succeeded a node = Inr a'" "step_ok a a' js"
      "\<forall>j<node_count (auth_graph a). auth_states a' ! j =
        (if j = i then Succeeded
         else if auth_states a ! j = Blocked \<and> all_succeeded (auth_graph a) ((auth_states a)[i := Succeeded]) j
         then Ready else auth_states a ! j)"
proof (cases "require_node a node")
  case (Inl e)
  then have "plain_result (mark_succeeded a node)"
    by (auto simp: mark_succeeded_def require_node_def ok_or_def split: option.splits)
  then show thesis
    by (rule that(1))
next
  case (Inr i)
  then have i: "i < node_count (auth_graph a)" "node_id (graph_nodes (auth_graph a) ! i) = node"
    using inv by (simp_all add: authority_inv_def require_node_Inr)
  have state: "checked_nth (auth_states a) i = Some (auth_states a ! i)"
    using inv i(1) by (simp add: authority_inv_def)
  show thesis
  proof (cases "auth_states a ! i = Ready \<or> (\<exists>r. auth_states a ! i = CancelRequested r)")
    case True
    moreover from this have "mark_succeeded a node = release_successors (settle a i Succeeded) i"
      using Inr by (auto simp: mark_succeeded_def state)
    ultimately show thesis
      using settle_releases_step [OF inv i(1) True] that(2) [OF i True] by auto
  next
    case False
    then have "plain_result (mark_succeeded a node)"
      using Inr by (cases "auth_states a ! i") (simp_all add: mark_succeeded_def state)
    then show thesis
      by (rule that(1))
  qed
qed

lemma step_ok_step:
  assumes "authority_inv a" and "authority_step a a'"
  obtains js where "step_ok a a' js"
  using assms(2)
proof cases
  case (step_request node reason changed)
  then show thesis
    using request_cancel_step [OF assms(1)] that by blast
next
  case (step_cancel_blocked node reason)
  then show thesis
    using that by (cases rule: cancel_blocked_cases [OF assms(1), of node reason]) auto
next
  case (step_succeeded node)
  then show thesis
    using that by (cases rule: mark_succeeded_cases [OF assms(1), of node]) auto
next
  case (step_failed node error)
  then show thesis
    using that by (cases rule: mark_failed_cases [OF assms(1), of node error]) auto
next
  case (step_cancelled node)
  then show thesis
    using that by (cases rule: mark_cancelled_cases [OF assms(1), of node]) auto
qed

end
