(* ===== verification/Completion_Example.thy ===== *)
theory Completion_Example
  imports Completion_Graph_Valid
begin

text \<open>
  A concrete completion graph, evaluated through the constructor, at which the properties of
  graphs and of the authority are instantiated.
\<close>

text \<open>Two streams. The first runs a future and records an event; the second waits for that event
  and runs another future.\<close>

definition demo_ctx :: context_identity where
  "demo_ctx = ContextIdentityV1 (fill32 1) (fill32 2)"
definition demo_stream :: "u8 \<Rightarrow> stream_identity" where
  "demo_stream i = StreamIdentityV1 demo_ctx (fill32 i)"
definition demo_event :: event_identity where
  "demo_event = EventIdentityV1 demo_ctx (fill32 9)"

definition demo_node :: "u32 \<Rightarrow> completion_node" where
  "demo_node i =
     (if i = 1 then node_future (nz 1) (FutureIdentityV1 (demo_stream 1) (fill32 5)) None
      else if i = 2 then node_record_event (nz 2) (demo_stream 1) demo_event (Some (nz 1))
      else if i = 3 then node_wait_event (nz 3) (demo_stream 2) demo_event (nz 2) None
      else node_future (nz 4) (FutureIdentityV1 (demo_stream 2) (fill32 6)) (Some (nz 3)))"

definition demo_graph :: completion_graph where
  "demo_graph =
     \<lparr>graph_context = demo_ctx, graph_streams = [demo_stream 1, demo_stream 2],
      graph_nodes = [demo_node 1, demo_node 2, demo_node 3, demo_node 4],
      topological_order = [nz 1, nz 2, nz 3, nz 4],
      dependency_indices = [[], [0], [1], [2]],
      successor_offsets = [0, 1, 2, 3, 3], successor_indices = [1, 2, 3],
      topological_ranks = [0, 1, 2, 3]\<rparr>"

lemmas demo_graph_defs = demo_ctx_def demo_stream_def demo_event_def demo_node_def
  node_future_def node_record_event_def node_wait_event_def

lemma demo_streams_sorted: "sort [demo_stream 2, demo_stream 1] = [demo_stream 1, demo_stream 2]"
  by (simp add: demo_stream_def less_eq_stream_identity_def word_le_nat_alt)

lemma demo_nodes_sorted:
  "sort_key node_id [demo_node 4, demo_node 3, demo_node 2, demo_node 1] =
   [demo_node 1, demo_node 2, demo_node 3, demo_node 4]"
  by (simp add: demo_graph_defs nz_le word_le_nat_alt)

lemma demo_indices:
  "build_node_indices [demo_node 1, demo_node 2, demo_node 3, demo_node 4] =
   [nz 1 \<mapsto> 0, nz 2 \<mapsto> 1, nz 3 \<mapsto> 2, nz 4 \<mapsto> 3]"
  by (simp add: build_node_indices_def demo_graph_defs) (simp only: numeral_2_eq_2 numeral_3_eq_3)

lemma demo_dependencies:
  "build_dependency_indices [demo_node 1, demo_node 2, demo_node 3, demo_node 4]
     [nz 1 \<mapsto> 0, nz 2 \<mapsto> 1, nz 3 \<mapsto> 2, nz 4 \<mapsto> 3] = [[], [0], [1], [2]]"
  by (simp add: build_dependency_indices_def node_dependencies_def demo_graph_defs nz_eq)

lemma demo_successors: "successor_index [[], [0], [1], [2]] = ([0, 1, 2, 3, 3], [1, 2, 3])"
  by code_simp

lemma demo_order:
  "deterministic_topological_order [demo_node 1, demo_node 2, demo_node 3, demo_node 4]
     [[], [0], [1], [2]] [0, 1, 2, 3, 3] [1, 2, 3] = Inr [0, 1, 2, 3]"
  by (simp add: deterministic_topological_order_def initial_ready_def set_insert_def
      successors_of_def demo_graph_defs Let_def)

lemma demo_compile:
  "compile_graph demo_ctx [demo_stream 1, demo_stream 2]
     [demo_node 1, demo_node 2, demo_node 3, demo_node 4]
     [nz 1 \<mapsto> 0, nz 2 \<mapsto> 1, nz 3 \<mapsto> 2, nz 4 \<mapsto> 3] = Inr demo_graph"
  unfolding compile_graph_def demo_dependencies demo_successors Let_def prod.case demo_order
  by (simp add: demo_graph_def MAX_GRAPH_EDGES_def ranks_of_order_def) (simp add: demo_graph_defs)

lemma demo_graph_new:
  "graph_new demo_ctx [demo_stream 2, demo_stream 1]
     [demo_node 4, demo_node 3, demo_node 2, demo_node 1] = Inr demo_graph"
proof -
  have dup: "adjacent_duplicate [demo_stream 1, demo_stream 2] = None"
    "adjacent_duplicate (map node_id [demo_node 1, demo_node 2, demo_node 3, demo_node 4]) = None"
    by (simp_all add: adjacent_duplicate_def demo_graph_defs nz_eq)
  have streams: "for_each (\<lambda>stream. if stream_context stream \<noteq> demo_ctx
      then Inl (ForeignStreamContext stream) else Inr ()) [demo_stream 1, demo_stream 2] = Inr ()"
    by (simp add: demo_stream_def)
  obtain acc where scan: "try_fold (scan_node demo_ctx [demo_stream 1, demo_stream 2]
       [demo_node 1, demo_node 2, demo_node 3, demo_node 4]
       [nz 1 \<mapsto> 0, nz 2 \<mapsto> 1, nz 3 \<mapsto> 2, nz 4 \<mapsto> 3]) empty_scan
       [demo_node 1, demo_node 2, demo_node 3, demo_node 4] = Inr acc"
     and heads: "for_each (check_stream_heads acc) [demo_stream 1, demo_stream 2] = Inr ()"
    by (simp add: scan_node_def scan_kind_def scan_predecessor_def check_stream_heads_def empty_scan_def
        bump_def demo_graph_defs nz_eq)
  have wait: "for_each (check_event_wait [demo_node 1, demo_node 2, demo_node 3, demo_node 4]
       [nz 1 \<mapsto> 0, nz 2 \<mapsto> 1, nz 3 \<mapsto> 2, nz 4 \<mapsto> 3])
       [demo_node 1, demo_node 2, demo_node 3, demo_node 4] = Inr ()"
    by (simp add: check_event_wait_def demo_graph_defs nz_eq)
  show ?thesis
    unfolding graph_new_def Let_def demo_streams_sorted demo_nodes_sorted dup demo_indices option.case
      streams scan and_then.simps heads wait demo_compile
    by (simp add: MAX_GRAPH_STREAMS_def MAX_GRAPH_NODES_def)
qed

end
