(* ===== verification/Completion_Authority_Runs.thy ===== *)
theory Completion_Authority_Runs
  imports Completion_Authority_Steps Completion_Example
begin

text \<open>
  Runs of the completion authority: what holds in every reachable state, the reference sweep that
  propagation is compared with, and a concrete run.
\<close>

section \<open>Runs\<close>

abbreviation id_at :: "completion_graph \<Rightarrow> nat \<Rightarrow> completion_node_id" where
  "id_at g i \<equiv> node_id (graph_nodes g ! i)"

lemma id_at_inj: "compiled g \<Longrightarrow> inj_on (id_at g) {..<node_count g}"
  using inj_on_nth [of "map node_id (graph_nodes g)" "{..<node_count g}"]
  by (auto simp: compiled_def strict_sorted_iff inj_on_def)

lemma id_at_eq: "\<lbrakk>compiled g; i < node_count g; j < node_count g\<rbrakk> \<Longrightarrow> id_at g i = id_at g j \<longleftrightarrow> i = j"
  using inj_on_eq_iff [OF id_at_inj, of g i j] by simp

text \<open>Every notification is queued once, for a node that has left \<open>Blocked\<close>.\<close>

definition notified_inv :: "completion_authority \<Rightarrow> completion_node_id list \<Rightarrow> bool" where
  "notified_inv a taken \<longleftrightarrow> distinct (taken @ ready_notifications a) \<and>
     set (taken @ ready_notifications a) \<subseteq> id_at (auth_graph a) ` {..<node_count (auth_graph a)} \<and>
     (\<forall>i<node_count (auth_graph a).
        (activated (auth_states a ! i) \<longrightarrow> id_at (auth_graph a) i \<in> set (taken @ ready_notifications a)) \<and>
        (auth_states a ! i = Blocked \<longrightarrow> id_at (auth_graph a) i \<notin> set (taken @ ready_notifications a)))"

lemma notified_new:
  assumes "compiled g"
  shows "notified_inv (authority_new g) []"
proof -
  have len: "length (dependency_indices g) = node_count g"
    using assms by (simp add: compiled_def)
  have queued: "ready_notifications (authority_new g) =
      map (id_at g) (filter (\<lambda>i. deps_of g i = []) [0..<node_count g])"
  proof -
    have "zip (graph_nodes g) (map length (dependency_indices g)) =
        map (\<lambda>i. (graph_nodes g ! i, length (deps_of g i))) [0..<node_count g]"
      by (rule nth_equalityI) (simp_all add: len deps_of_def)
    then show ?thesis
      by (simp add: authority_new_def Let_def filter_map o_def)
  qed
  have st: "auth_states (authority_new g) ! i = (if deps_of g i = [] then Ready else Blocked)"
    if "i < node_count g" for i
    using that len by (simp add: authority_new_def Let_def deps_of_def)
  have "inj_on (id_at g) {i. i < node_count g \<and> deps_of g i = []}"
    by (rule inj_on_subset [OF id_at_inj [OF assms]]) auto
  then show ?thesis
    unfolding notified_inv_def queued using st id_at_eq [OF assms]
    by (auto simp: distinct_map authority_new_def Let_def) 
qed

lemma notified_step:
  assumes inv: "authority_inv a" and noted: "notified_inv a taken" and step: "step_ok a a' js"
  shows "notified_inv a' taken"
proof -
  let ?g = "auth_graph a" and ?old = "taken @ ready_notifications a"
  let ?new = "?old @ map (id_at ?g) js"
  note ok = step_okD [OF step]
  have g: "compiled ?g"
    using inv by (simp add: authority_inv_def)
  have old: "distinct ?old" "set ?old \<subseteq> id_at ?g ` {..<node_count ?g}"
    "\<And>i. \<lbrakk>i < node_count ?g; activated (auth_states a ! i)\<rbrakk> \<Longrightarrow> id_at ?g i \<in> set ?old"
    "\<And>i. \<lbrakk>i < node_count ?g; auth_states a ! i = Blocked\<rbrakk> \<Longrightarrow> id_at ?g i \<notin> set ?old"
    using noted unfolding notified_inv_def by blast+
  have "inj_on (id_at ?g) (set js)"
    by (rule inj_on_subset [OF id_at_inj [OF g]]) (use ok(5) in auto)
  moreover have "id_at ?g j \<notin> set ?old" if "j \<in> set js" for j
    using old(4) ok(5) that by blast
  ultimately have "distinct ?new"
    using old(1) ok(4) by (auto simp: distinct_map)
  moreover have "set ?new \<subseteq> id_at ?g ` {..<node_count ?g}"
    using old(2) ok(5) by auto
  moreover have "id_at ?g i \<in> set ?new" if "i < node_count ?g" "activated (auth_states a' ! i)" for i
    using old(3) [OF that(1)] ok(8) [OF that] by auto
  moreover have "id_at ?g i \<notin> set ?new" if i: "i < node_count ?g" "auth_states a' ! i = Blocked" for i
  proof -
    have "i \<notin> set js"
      using ok(5) [of i] i(2) by auto
    then have "id_at ?g i \<notin> id_at ?g ` set js"
      using id_at_eq [OF g i(1)] ok(5) by auto
    then show ?thesis
      using old(4) [OF i(1) ok(7) [OF i]] by auto
  qed
  ultimately show ?thesis
    unfolding notified_inv_def ok(2,3) append_assoc [symmetric] by blast
qed

lemma run_inv:
  assumes g: "compiled g" and run: "authority_run g a taken"
  shows "authority_inv a \<and> auth_graph a = g \<and> notified_inv a taken"
  using run
proof induction
  case run_start
  then show ?case
    using authority_new_inv [OF g] notified_new [OF g] by (simp add: authority_new_def Let_def)
next
  case (run_step a taken a')
  then obtain js where "step_ok a a' js"
    using step_ok_step by blast
  then show ?case
    using run_step.IH notified_step step_okD(1,2) by blast
next
  case (run_pop a taken node a')
  then show ?case
    by (auto simp: pop_ready_notification_def authority_inv_def notified_inv_def split: list.splits)
qed

section \<open>Propagation by a full sweep\<close>

text \<open>The reference for propagation: visit all nodes once, in topological order.\<close>

definition sweep_node :: "completion_graph \<Rightarrow> completion_node_state list \<Rightarrow> nat \<Rightarrow> completion_node_state list" where
  "sweep_node g S i =
     (if S ! i = Blocked then (case cause_of g S i of None \<Rightarrow> S | Some c \<Rightarrow> S[i := c]) else S)"

definition sweep :: "completion_graph \<Rightarrow> completion_node_state list \<Rightarrow> completion_node_state list" where
  "sweep g S = foldl (sweep_node g) S (map (\<lambda>key. the (node_index g key)) (topological_order g))"

lemma propagated_unique:
  assumes g: "compiled g" and "propagated g S0 S" and "propagated g S0 S'"
  shows "S = S'"
proof (rule nth_equalityI)
  have "i < node_count g \<Longrightarrow> S ! i = S' ! i" for i
  proof (induction "rank_of g i" arbitrary: i rule: less_induct)
    case less
    have "cause_of g S i = cause_of g S' i"
      unfolding cause_of_def
      using less compiled_dependency [OF g less.prems] by (intro find_map_cong) auto
    then show ?case
      using assms(2,3) less.prems by (simp add: propagated_def)
  qed
  then show "S ! i = S' ! i" if "i < length S" for i
    using that assms(2) by (simp add: propagated_def)
qed (use assms in \<open>simp add: propagated_def\<close>)

lemma sweep_prefix:
  assumes g: "compiled g" and "length S0 = node_count g"
    and "sorted_wrt (\<lambda>a b. rank_of g a < rank_of g b) xs" and "set xs \<subseteq> {..<node_count g}"
  shows "length (foldl (sweep_node g) S0 xs) = node_count g \<and>
    (\<forall>j<node_count g. foldl (sweep_node g) S0 xs ! j =
      (if j \<notin> set xs \<or> S0 ! j \<noteq> Blocked then S0 ! j
       else case cause_of g (foldl (sweep_node g) S0 xs) j of None \<Rightarrow> Blocked | Some c \<Rightarrow> c))"
  using assms(3,4)
proof (induction xs rule: rev_induct)
  case Nil
  then show ?case
    using assms(2) by simp
next
  case (snoc i xs)
  define T where "T = foldl (sweep_node g) S0 xs"
  have i: "i < node_count g" "i \<notin> set xs"
    using snoc.prems by (auto simp: sorted_wrt_append)
  have T: "length T = node_count g" "\<And>j. j < node_count g \<Longrightarrow> T ! j =
      (if j \<notin> set xs \<or> S0 ! j \<noteq> Blocked then S0 ! j
       else case cause_of g T j of None \<Rightarrow> Blocked | Some c \<Rightarrow> c)"
    using snoc by (simp_all add: T_def sorted_wrt_append)
  have out: "i \<notin> set (deps_of g j)" if "j \<in> set xs \<or> j = i" for j
  proof -
    have "rank_of g j \<le> rank_of g i" "j < node_count g"
      using that snoc.prems by (auto simp: sorted_wrt_append intro: less_imp_le)
    then show ?thesis
      using compiled_dependency [OF g, of j i] by auto
  qed
  have Ti: "T ! i = S0 ! i"
    using T(2) [OF i(1)] i(2) by simp
  show ?case
  proof (cases "S0 ! i = Blocked \<and> cause_of g T i \<noteq> None")
    case False
    then have "sweep_node g T i = T"
      by (auto simp: sweep_node_def Ti)
    then show ?thesis
      using T False i by (auto simp: T_def [symmetric])
  next
    case True
    then obtain c where c: "S0 ! i = Blocked" "cause_of g T i = Some c" "sweep_node g T i = T[i := c]"
      by (auto simp: sweep_node_def Ti)
    have same: "cause_of g (T[i := c]) j = cause_of g T j" if "j \<in> set xs \<or> j = i" for j
      by (rule cause_of_update [OF out [OF that]])
    have "T[i := c] ! j = (if j \<notin> set (xs @ [i]) \<or> S0 ! j \<noteq> Blocked then S0 ! j
       else case cause_of g (T[i := c]) j of None \<Rightarrow> Blocked | Some c \<Rightarrow> c)" if "j < node_count g" for j
      using T(2) [OF that] T(1) c same [of j] i by (cases "j = i") auto
    then show ?thesis
      using T(1) by (simp add: T_def [symmetric] c(3))
  qed
qed

lemma sweep_propagated:
  assumes g: "compiled g" and len: "length S = node_count g"
  shows "propagated g S (sweep g S)"
proof -
  obtain order where order: "distinct order" "set order = {..<node_count g}"
      "topological_order g = map (id_at g) order" "\<forall>k<length order. rank_of g (order ! k) = k"
    using g by (auto simp: compiled_def)
  have "map (\<lambda>key. the (node_index g key)) (topological_order g) = order"
  proof -
    have "the (node_index g (id_at g i)) = i" if "i < node_count g" for i
      using node_index_Some [OF g, of "id_at g i" i] that by simp
    then show ?thesis
      unfolding order(3) using order(2) by (auto intro!: map_idI)
  qed
  moreover have "sorted_wrt (\<lambda>a b. rank_of g a < rank_of g b) order"
    using order(4) by (simp add: sorted_wrt_iff_nth_less)
  ultimately show ?thesis
    using sweep_prefix [OF g len, of order] order(2) by (simp add: sweep_def propagated_def)
qed

lemma propagated_sweep:
  "\<lbrakk>compiled g; length S0 = node_count g; propagated g S0 S\<rbrakk> \<Longrightarrow> S = sweep g S0"
  using propagated_unique sweep_propagated by blast

section \<open>An example run\<close>

definition demo_authority :: completion_authority where
  "demo_authority = authority_new demo_graph"

lemma demo_authority_eq:
  "demo_authority =
     \<lparr>auth_graph = demo_graph, auth_states = [Ready, Blocked, Blocked, Blocked],
      remaining_dependencies = [0, 1, 1, 1], terminal_nodes = 0, propagation_queue = [],
      ready_notifications = [nz 1]\<rparr>"
  by (simp add: demo_authority_def authority_new_def demo_graph_def demo_graph_defs)

lemma demo_index: "node_index demo_graph (nz 1) = Some 0" "node_index demo_graph (nz 2) = Some 1"
  "node_index demo_graph (nz 3) = Some 2" "node_index demo_graph (nz 4) = Some 3"
proof -
  have g: "compiled demo_graph"
    using graph_new_compiled [OF demo_graph_new] by simp
  show "node_index demo_graph (nz 1) = Some 0" "node_index demo_graph (nz 2) = Some 1"
    "node_index demo_graph (nz 3) = Some 2" "node_index demo_graph (nz 4) = Some 3"
    unfolding node_index_Some [OF g] by (simp_all add: demo_graph_def demo_graph_defs)
qed

lemma demo_links:
  "graph_successors demo_graph 0 = Some [1]" "graph_successors demo_graph (Suc 0) = Some [2]"
  "graph_successors demo_graph 2 = Some [3]" "graph_successors demo_graph 3 = Some []"
  "graph_dependencies demo_graph (Suc 0) = Some [0]" "graph_dependencies demo_graph 2 = Some [1]"
  "graph_dependencies demo_graph 3 = Some [2]"
  "topological_rank demo_graph (Suc 0) = Some 1" "topological_rank demo_graph 2 = Some 2"
  "topological_rank demo_graph 3 = Some 3"
  "checked_nth (graph_nodes demo_graph) (Suc 0) = Some (demo_node 2)" "node_id (demo_node 2) = nz 2"
  by (simp_all add: graph_successors_def graph_dependencies_def topological_rank_def demo_graph_def demo_graph_defs)

definition demo_succeeded :: completion_authority where
  "demo_succeeded =
     \<lparr>auth_graph = demo_graph, auth_states = [Succeeded, Ready, Blocked, Blocked],
      remaining_dependencies = [0, 0, 1, 1], terminal_nodes = 1, propagation_queue = [],
      ready_notifications = [nz 1, nz 2]\<rparr>"

lemma demo_succeed: "mark_succeeded demo_authority (nz 1) = Inr demo_succeeded"
  by (simp add: mark_succeeded_def demo_authority_eq require_node_def demo_index ok_or_def settle_def
      release_successors_def release_successor_def demo_links Let_def demo_succeeded_def)

definition demo_failed :: completion_authority where
  "demo_failed =
     \<lparr>auth_graph = demo_graph,
      auth_states = [Failed (nz 1) (nz 7), DependencyFailed (nz 1) (nz 7), DependencyFailed (nz 1) (nz 7),
        DependencyFailed (nz 1) (nz 7)],
      remaining_dependencies = [0, 1, 1, 1], terminal_nodes = 4, propagation_queue = [],
      ready_notifications = [nz 1]\<rparr>"

lemma demo_fail: "mark_failed demo_authority (nz 1) (nz 7) = Inr demo_failed"
  by (simp add: mark_failed_def demo_authority_eq require_node_def demo_index ok_or_def settle_def
      propagate_terminal_cause_from_def enqueue_successors_def enqueue_successor_def demo_links propagate.simps node_cause_def
      demo_failed_def)

lemma demo_authority_run: "authority_run demo_graph demo_authority []"
  unfolding demo_authority_def by (rule run_start)

lemma demo_run_succeeded: "authority_run demo_graph demo_succeeded []"
  by (rule run_step [OF demo_authority_run step_succeeded [OF demo_succeed]])

lemma demo_run_failed: "authority_run demo_graph demo_failed []"
  by (rule run_step [OF demo_authority_run step_failed [OF demo_fail]])

end
