(* ===== verification/Completion_Wire_Codec.thy ===== *)
theory Completion_Wire_Codec
  imports Completion_Wire
begin

text \<open>
  The readers of \<open>wire.rs\<close> accept exactly what the writers produce. The locale \<open>wire_codec\<close>
  states this contract for one item and lifts it to counted sequences; it is interpreted for the
  32-byte identities and for the nodes of a context.
\<close>

section \<open>Exact codecs\<close>

text \<open>A reader that accepts exactly the bytes its writer produces.\<close>

locale wire_codec =
  fixes valid :: "'a \<Rightarrow> bool" and put :: "'a \<Rightarrow> u8 list" and get :: "'a reader"
  assumes exact: "get bs = Inr (x, rest) \<longleftrightarrow> valid x \<and> bs = put x @ rest"
begin

lemma read_many_exact:
  "read_many n get bs = Inr (xs, rest) \<longleftrightarrow>
     length xs = n \<and> (\<forall>x\<in>set xs. valid x) \<and> bs = concat (map put xs) @ rest"
proof (induction n arbitrary: bs xs)
  case (Suc n)
  have "read_many (Suc n) get bs = Inr (xs, rest) \<longleftrightarrow>
      (\<exists>x ys mid. get bs = Inr (x, mid) \<and> read_many n get mid = Inr (ys, rest) \<and> xs = x # ys)"
    by (auto simp: and_then_Inr)
  also have "\<dots> \<longleftrightarrow> (\<exists>x ys. xs = x # ys \<and> length ys = n \<and> valid x \<and> (\<forall>y\<in>set ys. valid y) \<and>
      bs = put x @ concat (map put ys) @ rest)"
    by (auto simp: exact Suc.IH)
  finally show ?case
    by (auto simp: length_Suc_conv)
qed auto

end

lemma read_fixed_Inr: "read_fixed n bs = Inr (x, rest) \<longleftrightarrow> length x = n \<and> bs = x @ rest"
  by (auto simp: read_fixed_def)

lemma read_bytes32_Inr: "read_bytes32 bs = Inr (x, rest) \<longleftrightarrow> bs = as_bytes x @ rest"
  by (auto simp: read_bytes32_def and_then_Inr read_fixed_Inr ok_or_Inr to_bytes32_Some)

lemma read_u8_Inr: "read_u8 bs = Inr (x, rest) \<longleftrightarrow> bs = x # rest"
  by (auto simp: read_u8_def and_then_Inr read_fixed_Inr length_Suc_conv)

lemma read_word_Inr:
  assumes "8 * n = LENGTH('a::len)"
  shows "and_then (read_fixed n bs) (\<lambda>(bytes, remaining). Inr (from_le_bytes bytes :: 'a word, remaining)) =
    Inr (x, rest) \<longleftrightarrow> bs = to_le_bytes n x @ rest"
  using to_from_le_bytes [OF assms] from_to_le_bytes [OF assms]
  by (auto simp: and_then_Inr read_fixed_Inr)

lemma read_u16_Inr: "read_u16 bs = Inr (x, rest) \<longleftrightarrow> bs = to_le_bytes 2 x @ rest"
  unfolding read_u16_def by (rule read_word_Inr) simp

lemma read_u32_Inr: "read_u32 bs = Inr (x, rest) \<longleftrightarrow> bs = to_le_bytes 4 x @ rest"
  unfolding read_u32_def by (rule read_word_Inr) simp

lemmas reader_simps = read_bytes32_Inr read_u8_Inr read_u16_Inr read_u32_Inr

interpretation bytes32_codec: wire_codec "\<lambda>_. True" as_bytes read_bytes32
  by unfold_locales (simp add: read_bytes32_Inr)

lemma bounded_count_Inr:
  assumes "maximum < 2 ^ 32"
  shows "bounded_count field maximum bs = Inr (n, rest) \<longleftrightarrow>
    n \<le> maximum \<and> bs = to_le_bytes 4 (of_nat n :: u32) @ rest"
proof -
  have "unat (of_nat n :: u32) = n" if "n \<le> maximum"
    using that assms by (simp add: unat_of_nat)
  then show ?thesis
    by (auto simp: bounded_count_def and_then_Inr read_u32_Inr Let_def not_less
        intro!: exI [of _ "of_nat n :: u32"])
qed

section \<open>Nodes\<close>

text \<open>The bytes of a node, and the nodes that a reader in the context \<open>ctx\<close> can return.\<close>

definition node_bytes :: "completion_node \<Rightarrow> u8 list" where
  "node_bytes node =
     to_le_bytes 4 (nz_get (node_id node)) @ [kind_tag (node_kind node)] @
     [if node_stream_predecessor node \<noteq> None then 1 else 0] @ to_le_bytes 2 (0 :: u16) @
     to_le_bytes 4 (case node_stream_predecessor node of None \<Rightarrow> 0 | Some p \<Rightarrow> nz_get p) @
     as_bytes (stream_local (node_stream node)) @
     (case node_kind node of
        Future future \<Rightarrow> as_bytes (future_local future) @ to_le_bytes 4 (0 :: u32)
      | EventRecord _ event \<Rightarrow> as_bytes (event_local event) @ to_le_bytes 4 (0 :: u32)
      | EventWait _ event recorded_by \<Rightarrow> as_bytes (event_local event) @ to_le_bytes 4 (nz_get recorded_by))"

definition node_in :: "context_identity \<Rightarrow> completion_node \<Rightarrow> bool" where
  "node_in ctx node \<longleftrightarrow> stream_context (node_stream node) = ctx \<and>
     (\<forall>e. named_event (node_kind node) = Some e \<longrightarrow> event_context e = ctx)"

lemma push_u32_word: "push_u32 (unat (w :: u32)) = Some (to_le_bytes 4 w)"
  using unat_less_2p [of w] by (simp add: push_u32_def)

lemma encode_node_bytes: "encode_node node = Some (node_bytes node)"
proof -
  have "push_u32 0 = Some (to_le_bytes 4 (0 :: u32))"
    using push_u32_word [of 0] by simp
  then show ?thesis
    by (cases "node_kind node"; cases "node_stream_predecessor node")
      (simp_all add: encode_node_def node_bytes_def push_u32_word)
qed

lemma length_node_bytes [simp]: "length (node_bytes node) = NODE_WIRE_BYTES"
  by (simp add: node_bytes_def NODE_WIRE_BYTES_def split: completion_node_kind.split)

fun kind_payload :: "completion_node_kind \<Rightarrow> bytes32" where
  "kind_payload (Future future) = future_local future"
| "kind_payload (EventRecord _ event) = event_local event"
| "kind_payload (EventWait _ event _) = event_local event"

fun kind_record :: "completion_node_kind \<Rightarrow> u32" where
  "kind_record (EventWait _ _ recorded_by) = nz_get recorded_by"
| "kind_record _ = 0"

lemma node_bytes_split:
  "node_bytes node = to_le_bytes 4 (nz_get (node_id node)) @ [kind_tag (node_kind node)] @
     [if node_stream_predecessor node \<noteq> None then 1 else 0] @ to_le_bytes 2 (0 :: u16) @
     to_le_bytes 4 (case node_stream_predecessor node of None \<Rightarrow> 0 | Some p \<Rightarrow> nz_get p) @
     as_bytes (stream_local (node_stream node)) @ as_bytes (kind_payload (node_kind node)) @
     to_le_bytes 4 (kind_record (node_kind node))"
  by (cases "node_kind node") (simp_all add: node_bytes_def)

lemma decode_node_id_Inr: "decode_node_id raw field = Inr n \<longleftrightarrow> raw = nz_get n"
  by (simp add: decode_node_id_def ok_or_Inr nz_new_Some)

lemma decode_predecessor_Inr:
  "decode_predecessor tag raw = Inr p \<longleftrightarrow> tag = (if p \<noteq> None then 1 else 0) \<and>
     raw = (case p of None \<Rightarrow> 0 | Some n \<Rightarrow> nz_get n)"
  by (cases p) (auto simp: decode_predecessor_def and_then_Inr decode_node_id_Inr)

lemma decode_kind_Inr:
  "decode_kind ctx key kind pred (StreamIdentityV1 ctx s) payload raw = Inr node \<longleftrightarrow>
     node_in ctx node \<and> node_id node = key \<and> node_stream_predecessor node = pred \<and>
     kind = kind_tag (node_kind node) \<and> s = stream_local (node_stream node) \<and>
     payload = kind_payload (node_kind node) \<and> raw = kind_record (node_kind node)"
  (is "?l \<longleftrightarrow> ?r")
proof
  assume ?l
  then show ?r
    by (auto simp: decode_kind_def and_then_Inr decode_node_id_Inr node_in_def node_future_def
        node_record_event_def node_wait_event_def split: if_splits)
next
  assume ?r
  then show ?l
    by (cases node; cases "node_kind node")
      (auto simp: decode_kind_def and_then_Inr decode_node_id_Inr node_in_def node_future_def
        node_record_event_def node_wait_event_def FUTURE_TAG_def EVENT_RECORD_TAG_def EVENT_WAIT_TAG_def
        intro!: stream_identity.expand event_identity.expand future_identity.expand)
qed

lemma decode_node_exact:
  "decode_node ctx bs = Inr (node, rest) \<longleftrightarrow> node_in ctx node \<and> bs = node_bytes node @ rest"
proof
  assume "decode_node ctx bs = Inr (node, rest)"
  then show "node_in ctx node \<and> bs = node_bytes node @ rest"
    unfolding decode_node_def
    by (clarsimp simp: and_then_Inr if_Inl_Inr reader_simps decode_node_id_Inr decode_predecessor_Inr
        decode_kind_Inr node_bytes_split)
next
  have reads: "read_u32 (to_le_bytes 4 w @ r) = Inr (w, r)" "read_u16 (to_le_bytes 2 v @ r) = Inr (v, r)"
    "read_bytes32 (as_bytes b @ r) = Inr (b, r)" "read_u8 (c # r) = Inr (c, r)" for w v b c r
    by (simp_all add: reader_simps)
  assume node: "node_in ctx node \<and> bs = node_bytes node @ rest"
  let ?pred = "node_stream_predecessor node"
  have "decode_predecessor (if ?pred \<noteq> None then 1 else 0)
      (case ?pred of None \<Rightarrow> 0 | Some p \<Rightarrow> nz_get p) = Inr ?pred"
    by (simp only: decode_predecessor_Inr)
  moreover have "decode_kind ctx (node_id node) (kind_tag (node_kind node)) ?pred
      (StreamIdentityV1 ctx (stream_local (node_stream node))) (kind_payload (node_kind node))
      (kind_record (node_kind node)) = Inr node"
    using node by (simp only: decode_kind_Inr)
  moreover have "decode_node_id (nz_get (node_id node)) ''node identity'' = Inr (node_id node)"
    by (simp only: decode_node_id_Inr)
  ultimately show "decode_node ctx bs = Inr (node, rest)"
    using node unfolding decode_node_def node_bytes_split
    by (simp only: append_assoc append_Cons append_Nil reads and_then.simps prod.case not_True_eq_False
        if_False if_True simp_thms)
qed

interpretation node_codec: wire_codec "node_in ctx" node_bytes "decode_node ctx" for ctx
  by unfold_locales (rule decode_node_exact)

section \<open>Whole graphs\<close>

definition wire_size :: "stream_identity list \<Rightarrow> completion_node list \<Rightarrow> nat" where
  "wire_size streams nodes = GRAPH_HEADER_BYTES + length streams * STREAM_WIRE_BYTES +
     length nodes * NODE_WIRE_BYTES"

definition wire_bytes :: "context_identity \<Rightarrow> stream_identity list \<Rightarrow> completion_node list \<Rightarrow> u8 list" where
  "wire_bytes ctx streams nodes =
     WIRE_DOMAIN @ to_le_bytes 4 (of_nat (wire_size streams nodes) :: u32) @ to_le_bytes 4 (0 :: u32) @
     as_bytes (ctx_device ctx) @ as_bytes (ctx_local ctx) @
     to_le_bytes 4 (of_nat (length streams) :: u32) @ to_le_bytes 4 (of_nat (length nodes) :: u32) @
     concat (map (\<lambda>s. as_bytes (stream_local s)) streams) @ concat (map node_bytes nodes)"

text \<open>What the wire can carry.\<close>

definition wire_fits :: "context_identity \<Rightarrow> stream_identity list \<Rightarrow> completion_node list \<Rightarrow> bool" where
  "wire_fits ctx streams nodes \<longleftrightarrow> length streams \<le> MAX_GRAPH_STREAMS \<and> length nodes \<le> MAX_GRAPH_NODES \<and>
     (\<forall>s\<in>set streams. stream_context s = ctx) \<and> (\<forall>n\<in>set nodes. node_in ctx n)"

lemma length_concat_const: "(\<And>x. x \<in> set xs \<Longrightarrow> length (f x) = k) \<Longrightarrow> length (concat (map f xs)) = length xs * k"
  by (induction xs) auto

lemma length_wire_bytes: "length (wire_bytes ctx streams nodes) = wire_size streams nodes"
  by (simp add: wire_bytes_def wire_size_def length_concat_const [of _ _ 32]
      length_concat_const [of _ _ NODE_WIRE_BYTES] GRAPH_HEADER_BYTES_def STREAM_WIRE_BYTES_def)

lemma MAX_GRAPH_BYTES_eq: "MAX_GRAPH_BYTES = 5374058"
  by (simp add: MAX_GRAPH_BYTES_def GRAPH_HEADER_BYTES_def WIRE_DOMAIN_def ascii_def
      STREAM_WIRE_BYTES_def NODE_WIRE_BYTES_def MAX_GRAPH_STREAMS_def MAX_GRAPH_NODES_def)

lemma wire_size_le: "wire_fits ctx streams nodes \<Longrightarrow> wire_size streams nodes \<le> MAX_GRAPH_BYTES"
  unfolding wire_fits_def wire_size_def MAX_GRAPH_BYTES_def by (intro add_mono mult_mono) auto

lemma wire_size_unat:
  "wire_fits ctx streams nodes \<Longrightarrow> unat (of_nat (wire_size streams nodes) :: u32) = wire_size streams nodes"
  using wire_size_le [of ctx streams nodes] by (simp add: unat_of_nat MAX_GRAPH_BYTES_eq)

lemma extend_all_Some: "extend_all (map Some xs) = Some (concat xs)"
  by (induction xs) auto

lemma encode_graph_bytes:
  assumes "wire_fits (graph_context g) (graph_streams g) (graph_nodes g)"
  shows "encode_graph g = Some (wire_bytes (graph_context g) (graph_streams g) (graph_nodes g))"
proof -
  let ?s = "graph_streams g" and ?n = "graph_nodes g"
  have size: "wire_size ?s ?n < 2 ^ 32" "wire_size ?s ?n \<le> MAX_GRAPH_BYTES"
    using wire_size_le [OF assms] by (simp_all add: MAX_GRAPH_BYTES_eq)
  have counts: "length ?s < 2 ^ 32" "length ?n < 2 ^ 32"
    using assms by (simp_all add: wire_fits_def MAX_GRAPH_STREAMS_def MAX_GRAPH_NODES_def)
  have segs: "map (\<lambda>stream. Some (as_bytes (stream_local stream))) ?s @ map encode_node ?n =
      map Some (map (\<lambda>s. as_bytes (stream_local s)) ?s @ map node_bytes ?n)"
    by (simp add: encode_node_bytes)
  have seg: "extend_all
      ([Some WIRE_DOMAIN, push_u32 (wire_size ?s ?n), push_u32 0,
        Some (as_bytes (ctx_device (graph_context g))), Some (as_bytes (ctx_local (graph_context g))),
        push_u32 (length ?s), push_u32 (length ?n)] @
       map (\<lambda>stream. Some (as_bytes (stream_local stream))) ?s @ map encode_node ?n) =
      Some (wire_bytes (graph_context g) ?s ?n)"
    unfolding segs using size counts
    by (simp add: push_u32_def extend_all_Some wire_bytes_def del: map_append map_map)
  show ?thesis
    using size length_wire_bytes [of "graph_context g" ?s ?n]
    unfolding encode_graph_def wire_size_def [symmetric] Let_def seg option.case by simp
qed

lemma decode_parts_exact:
  "decode_parts bytes = Inr (ctx, streams, nodes) \<longleftrightarrow>
     wire_fits ctx streams nodes \<and> bytes = wire_bytes ctx streams nodes"
proof
  have max: "MAX_GRAPH_STREAMS < 2 ^ 32" "MAX_GRAPH_NODES < 2 ^ 32"
    by (simp_all add: MAX_GRAPH_STREAMS_def MAX_GRAPH_NODES_def)
  assume "decode_parts bytes = Inr (ctx, streams, nodes)"
  then obtain size device local locals where
      size: "unat (size :: u32) = length bytes" "wire_size (map (StreamIdentityV1 ctx) locals) nodes = length bytes"
    and ctx: "ctx = ContextIdentityV1 device local" and streams: "streams = map (StreamIdentityV1 ctx) locals"
    and bounds: "length locals \<le> MAX_GRAPH_STREAMS" "length nodes \<le> MAX_GRAPH_NODES" "\<forall>n\<in>set nodes. node_in ctx n"
    and bytes: "bytes = WIRE_DOMAIN @ to_le_bytes 4 size @ to_le_bytes 4 (0 :: u32) @
      as_bytes device @ as_bytes local @ to_le_bytes 4 (of_nat (length locals) :: u32) @
      to_le_bytes 4 (of_nat (length nodes) :: u32) @ concat (map as_bytes locals) @ concat (map node_bytes nodes)"
    unfolding decode_parts_def Let_def
    by (clarsimp simp: and_then_Inr if_Inl_Inr read_fixed_Inr reader_simps bounded_count_Inr [OF max(1)]
        bounded_count_Inr [OF max(2)] bytes32_codec.read_many_exact node_codec.read_many_exact wire_size_def)
  have "size = of_nat (unat size)"
    by simp
  also have "unat size = wire_size streams nodes"
    using size by (simp add: streams)
  finally show "wire_fits ctx streams nodes \<and> bytes = wire_bytes ctx streams nodes"
    using bounds by (simp add: wire_fits_def wire_bytes_def bytes streams ctx o_def)
next
  assume "wire_fits ctx streams nodes \<and> bytes = wire_bytes ctx streams nodes"
  then have fits: "wire_fits ctx streams nodes" and bytes: "bytes = wire_bytes ctx streams nodes"
    by simp_all
  have len: "length bytes = wire_size streams nodes"
    by (simp add: bytes length_wire_bytes)
  have reads: "read_fixed (length d) (d @ r) = Inr (d, r)" "read_u32 (to_le_bytes 4 w @ r) = Inr (w, r)"
    "read_bytes32 (as_bytes b @ r) = Inr (b, r)" for d w b r
    by (simp_all add: read_fixed_Inr reader_simps)
  have counts: "bounded_count field MAX_GRAPH_STREAMS (to_le_bytes 4 (of_nat (length streams) :: u32) @ r) =
      Inr (length streams, r)"
    "bounded_count field MAX_GRAPH_NODES (to_le_bytes 4 (of_nat (length nodes) :: u32) @ r) =
      Inr (length nodes, r)" for field r
    using fits by (simp_all add: wire_fits_def bounded_count_Inr MAX_GRAPH_STREAMS_def MAX_GRAPH_NODES_def)
  have streams: "map (StreamIdentityV1 ctx) (map stream_local streams) = streams"
    using fits by (auto simp: wire_fits_def intro!: map_idI stream_identity.expand)
  have many: "read_many (length streams) read_bytes32
      (concat (map (\<lambda>s. as_bytes (stream_local s)) streams) @ r) = Inr (map stream_local streams, r)"
    "read_many (length nodes) (decode_node ctx) (concat (map node_bytes nodes)) = Inr (nodes, [])" for r
    using fits by (simp_all add: bytes32_codec.read_many_exact node_codec.read_many_exact wire_fits_def o_def)
  show "decode_parts bytes = Inr (ctx, streams, nodes)"
    using wire_size_le [OF fits] wire_size_unat [OF fits] streams
    unfolding decode_parts_def len wire_size_def [symmetric] unfolding bytes wire_bytes_def
    by (simp add: reads counts many Let_def wire_size_def [symmetric] not_less del: map_map)
qed

end
