(* ===== verification/Completion_Graph_Theorems.thy ===== *)
theory Completion_Graph_Theorems
  imports Completion_Example "HOL-Library.Sublist"
begin

text \<open>
  Properties of \<open>CompletionGraphV1::new\<close>: what it accepts, which errors it reports, and what the
  compiled order, chains, successor slices and lookups are.
\<close>

section \<open>Order of the inputs\<close>

text \<open>C18: The order in which streams and nodes are supplied does not matter: permuted inputs
  compile to the same graph or fail with the same error.\<close>

theorem graph_new_permutation:
  assumes "mset streams = mset streams'" and "mset nodes = mset nodes'"
  shows "graph_new ctx streams nodes = graph_new ctx streams' nodes'"
  by (rule graph_new_mset [OF assms])

theorem graph_new_permutation_witness:
  "graph_new demo_ctx [demo_stream 1, demo_stream 2]
     [demo_node 1, demo_node 2, demo_node 3, demo_node 4] = Inr demo_graph"
  using graph_new_permutation [of "[demo_stream 1, demo_stream 2]" "[demo_stream 2, demo_stream 1]"
      "[demo_node 1, demo_node 2, demo_node 3, demo_node 4]"
      "[demo_node 4, demo_node 3, demo_node 2, demo_node 1]" demo_ctx] demo_graph_new by simp

section \<open>Streams are chains\<close>

lemma chain_list:
  assumes "\<And>us x vs. xs = us @ x # vs \<Longrightarrow> p x = None \<or> (\<exists>y\<in>set us. p x = Some (f y))"
    and inj: "inj_on p (set xs)" and dist: "distinct xs"
  shows "k < length xs \<Longrightarrow> p (xs ! k) = (if k = 0 then None else Some (f (xs ! (k - 1))))"
proof (induction k rule: less_induct)
  case (less k)
  have xs: "xs = take k xs @ xs ! k # drop (Suc k) xs"
    using less.prems by (rule id_take_nth_drop)
  show ?case
  proof (cases "k = 0")
    case True
    then show ?thesis
      using assms(1) [OF xs] by simp
  next
    case False
    have "xs \<noteq> []"
      using less.prems by auto
    from False have "p (xs ! 0) = None"
      using less.IH [of 0] less.prems by (cases xs) auto
    then have "p (xs ! k) \<noteq> None"
      using inj_onD [OF inj, of "xs ! k" "xs ! 0"] nth_eq_iff_index_eq [OF dist, of 0 k] False less.prems
        \<open>xs \<noteq> []\<close> by (auto simp: nth_mem)
    then obtain y where "y \<in> set (take k xs)" and "p (xs ! k) = Some (f y)"
      using assms(1) [OF xs] by auto
    then obtain j where j: "j < k" "p (xs ! k) = Some (f (xs ! j))"
      using less.prems by (auto simp: in_set_conv_nth)
    have "Suc j = k"
    proof (rule ccontr)
      assume "Suc j \<noteq> k"
      then have "p (xs ! Suc j) = Some (f (xs ! j))"
        using less.IH [of "Suc j"] j(1) less.prems by simp
      then have "xs ! Suc j = xs ! k"
        using inj_onD [OF inj, of "xs ! Suc j" "xs ! k"] j less.prems by (auto simp: nth_mem)
      then show False
        using nth_eq_iff_index_eq [OF dist, of "Suc j" k] j(1) less.prems \<open>Suc j \<noteq> k\<close> by simp
    qed
    with j show ?thesis
      using False by auto
  qed
qed

lemma inj_on_stream:
  assumes "graph_shape ctx streams nodes" and "s \<in> set streams"
  shows "inj_on node_stream_predecessor {n \<in> set nodes. node_stream n = s}"
proof (rule inj_onI)
  fix n n' assume "n \<in> {n \<in> set nodes. node_stream n = s}" "n' \<in> {n \<in> set nodes. node_stream n = s}"
  then have nn: "n \<in> set nodes" "n' \<in> set nodes" "node_stream n = s" "node_stream n' = s"
    by auto
  assume eq: "node_stream_predecessor n = node_stream_predecessor n'"
  show "n = n'"
  proof (cases "node_stream_predecessor n'")
    case None
    then show ?thesis
      using assms nn eq unfolding graph_shape_def by metis
  next
    case (Some p)
    then have "\<not> clash_free n n'"
      using eq by (simp add: clash_free_def)
    then show ?thesis
      using assms(1) nn unfolding graph_shape_def by blast
  qed
qed

lemma predecessor_earlier:
  assumes shape: "graph_shape ctx streams nodes" and dist: "distinct (map node_id ns)"
    and ns: "set ns = set nodes" and len: "set order = {..<length ns}"
    and greedy: "greedy ns (build_dependency_indices ns (build_node_indices ns)) order"
    and split: "map ((!) ns) order = us @ x # vs" and pred: "node_stream_predecessor x = Some q"
  shows "\<exists>y\<in>set us. node_id y = q \<and> node_stream y = node_stream x"
proof -
  let ?deps = "build_dependency_indices ns (build_node_indices ns)"
  have k: "length us < length order"
    using arg_cong [OF split, of length] by simp
  define i where "i = order ! length us"
  have i: "i < length ns" "ns ! i = x"
    using k len arg_cong [OF split, of "\<lambda>xs. xs ! length us"] nth_mem [OF k]
    by (auto simp: i_def)
  have res: "resolved ns"
    using shape_resolved [OF shape] by (simp add: resolved_def ns)
  have "q \<in> prerequisites x"
    using pred by (simp add: prerequisites_def)
  also have "prerequisites x = (\<lambda>i. node_id (ns ! i)) ` set (?deps ! i)"
    using dependency_ids [OF res dist, of x] i nth_mem [OF i(1)] by (simp add: build_dependency_indices_def)
  finally obtain d where d: "d \<in> set (?deps ! i)" "node_id (ns ! d) = q"
    by auto
  then obtain k' where k': "k' < length us" "order ! k' = d"
    using greedy_before [OF greedy k, of d] by (auto simp: i_def)
  have y: "us ! k' = ns ! d"
    using k' k arg_cong [OF split, of "\<lambda>xs. xs ! k'"] by (simp add: nth_append)
  have "d < length ns"
    using k' k len nth_mem [of k' order] by auto
  then have y_in: "ns ! d \<in> set nodes" and x_in: "x \<in> set nodes"
    using ns i nth_mem by auto
  obtain m where "m \<in> set nodes" "node_id m = q" "node_stream m = node_stream x"
    using shape x_in pred unfolding graph_shape_def by blast
  moreover have "inj_on node_id (set nodes)"
    using shape by (simp add: graph_shape_def distinct_map)
  ultimately have "node_stream (ns ! d) = node_stream x"
    using d(2) y_in by (metis inj_onD)
  then show ?thesis
    using y k'(1) d(2) nth_mem by metis
qed

lemma filter_split:
  "filter P zs = us @ x # vs \<Longrightarrow> \<exists>us' vs'. zs = us' @ x # vs' \<and> us = filter P us' \<and> P x"
proof (induction zs arbitrary: us)
  case (Cons z zs)
  show ?case
  proof (cases "P z \<and> us = []")
    case True
    then show ?thesis
      using Cons.prems by (intro exI [of _ "[]"] exI [of _ zs]) auto
  next
    case False
    then obtain us1 where "filter P zs = us1 @ x # vs" and us: "us = (if P z then z # us1 else us1)"
      using Cons.prems by (cases us) (auto split: if_splits)
    from Cons.IH [OF this(1)] obtain us' vs' where "zs = us' @ x # vs'" "us1 = filter P us'" "P x"
      by blast
    then show ?thesis
      using us by (intro exI [of _ "z # us'"] exI [of _ vs']) auto
  qed
qed simp

text \<open>In an accepted graph the nodes of every declared stream form one chain from its head: each node's
  stream predecessor is the node before it, and the topological order keeps the order of the
  chain.\<close>

theorem stream_chain:
  assumes new: "graph_new ctx streams nodes = Inr g" and s: "s \<in> set streams"
  shows "\<exists>xs. set xs = {n \<in> set nodes. node_stream n = s} \<and> distinct xs \<and> xs \<noteq> [] \<and>
    map node_stream_predecessor xs = None # map (\<lambda>n. Some (node_id n)) (butlast xs) \<and>
    subseq (map node_id xs) (topological_order g)"
proof -
  define ns where "ns = sort_key node_id nodes"
  have shape: "graph_shape ctx streams nodes"
    using new by (simp add: graph_new_shape)
  have ns: "set ns = set nodes" "distinct (map node_id ns)"
    using shape_sorted(2) [OF shape] by (simp_all add: ns_def strict_sorted_iff)
  obtain order where order: "greedy ns (build_dependency_indices ns (build_node_indices ns)) order"
      "distinct order" "set order = {..<length ns}"
      "topological_order g = map (\<lambda>i. node_id (ns ! i)) order"
    using graph_new_compiled [OF new] by (auto simp: compiled_def ns_def)
  have nth_image_indices: "(!) ns ` {..<length ns} = set ns"
    by (auto simp: set_conv_nth)
  let ?P = "\<lambda>n. node_stream n = s"
  define xs where "xs = filter ?P (map ((!) ns) order)"
  have set_xs: "set xs = {n \<in> set nodes. node_stream n = s}"
    using order(3) ns(1) by (auto simp: xs_def nth_image_indices)
  have dist: "distinct xs"
    unfolding xs_def using order(2,3) ns(2)
    by (intro distinct_filter) (simp add: distinct_map inj_on_nth)
  have earlier: "node_stream_predecessor x = None \<or> (\<exists>y\<in>set us. node_stream_predecessor x = Some (node_id y))"
    if xs: "xs = us @ x # vs" for us x vs
  proof (cases "node_stream_predecessor x")
    case (Some q)
    obtain us' vs' where split: "map ((!) ns) order = us' @ x # vs'" and us: "us = filter ?P us'" and "?P x"
      using filter_split [OF xs [unfolded xs_def]] by (elim exE conjE) (rule that)
    from predecessor_earlier [OF shape ns(2,1) order(3,1) split Some]
    show ?thesis
      using us \<open>?P x\<close> Some by auto
  qed simp
  have ne: "xs \<noteq> []"
  proof -
    have "\<exists>!n. n \<in> set nodes \<and> node_stream n = s \<and> node_stream_predecessor n = None"
      using shape s unfolding graph_shape_def by blast
    then show ?thesis
      using set_xs by (auto simp del: set_empty simp: set_empty [symmetric])
  qed
  have nth: "node_stream_predecessor (xs ! k) = (if k = 0 then None else Some (node_id (xs ! (k - 1))))"
    if "k < length xs" for k
    by (rule chain_list [OF earlier _ dist that])
      (simp_all add: set_xs inj_on_stream [OF shape s])
  have "map node_stream_predecessor xs = None # map (\<lambda>n. Some (node_id n)) (butlast xs)"
    using ne by (intro nth_equalityI) (auto simp: nth nth_Cons' nth_butlast)
  moreover have "subseq (map node_id xs) (topological_order g)"
    unfolding order(4) xs_def using subseq_map [OF subseq_filter_left, of node_id ?P "map ((!) ns) order"]
    by (simp add: comp_def)
  ultimately show ?thesis
    using set_xs dist ne by (intro exI [of _ xs] conjI)
qed

theorem stream_chain_witness:
  "\<exists>xs. set xs = {demo_node 3, demo_node 4} \<and> xs \<noteq> [] \<and>
    map node_stream_predecessor xs = None # map (\<lambda>n. Some (node_id n)) (butlast xs)"
proof -
  have "{n \<in> set [demo_node 4, demo_node 3, demo_node 2, demo_node 1]. node_stream n = demo_stream 2} =
      {demo_node 3, demo_node 4}"
    by (auto simp: demo_graph_defs)
  then show ?thesis
    using stream_chain [OF demo_graph_new, of "demo_stream 2"] by auto
qed

section \<open>Errors\<close>

lemma try_fold_Inl: "try_fold f acc xs = Inl e \<Longrightarrow> \<exists>acc x. f acc x = Inl e"
  by (induction xs arbitrary: acc) (auto simp: and_then_Inl split: sum.splits)

text \<open>Every check before the compilation reports an error of its own.\<close>

definition early_error :: "completion_graph_error \<Rightarrow> bool" where
  "early_error e \<longleftrightarrow> e \<noteq> Cycle \<and> e \<noteq> GraphPanic \<and> (\<forall>n m. e \<noteq> TooManyEdges n m)"

lemma early_simps [simp]:
  "early_error EmptyStreams" "early_error EmptyNodes" "early_error (TooManyStreams n m)"
  "early_error (TooManyNodes n m)" "early_error (DuplicateStream s)"
  "early_error (ForeignStreamContext s)" "early_error (DuplicateNode k)"
  by (simp_all add: early_error_def)

lemma early_scan: "scan_node ctx streams nodes idx acc node = Inl e \<Longrightarrow> early_error e"
  by (auto simp: scan_node_def scan_kind_def scan_predecessor_def early_error_def and_then_Inl
      split: if_splits option.splits completion_node_kind.splits)

lemma early_heads: "check_stream_heads acc stream = Inl e \<Longrightarrow> early_error e"
  by (auto simp: check_stream_heads_def early_error_def Let_def split: if_splits option.splits)

lemma early_wait: "check_event_wait nodes idx node = Inl e \<Longrightarrow> early_error e"
  by (auto simp: check_event_wait_def early_error_def
      split: if_splits option.splits completion_node_kind.splits)

lemma graph_new_late:
  assumes "graph_new ctx streams nodes = Inl e" and late: "\<not> early_error e"
  shows "graph_shape ctx streams nodes \<and>
    compile_graph ctx (sort streams) (sort_key node_id nodes)
      (build_node_indices (sort_key node_id nodes)) = Inl e"
proof -
  have no: "try_fold (scan_node ctx ss ns idx) acc xs \<noteq> Inl e" "for_each (check_stream_heads a) ys \<noteq> Inl e"
    "for_each (check_event_wait ns idx) xs \<noteq> Inl e"
    "for_each (\<lambda>s. if stream_context s \<noteq> ctx then Inl (ForeignStreamContext s) else Inr ()) ys \<noteq> Inl e"
    for ss ns idx acc xs a ys
    using late by (auto dest!: try_fold_Inl for_each_Inl_elem dest: early_scan early_heads early_wait split: if_splits)
  have dist: "distinct streams" "distinct (map node_id nodes)"
    using assms(1) late adjacent_duplicate_sorted [of "sort streams"]
      adjacent_duplicate_sorted [of "map node_id (sort_key node_id nodes)"]
    by (auto simp: graph_new_def Let_def and_then_Inl no split: if_splits option.splits)
  define ss ns where "ss = sort streams" and "ns = sort_key node_id nodes"
  have sets: "set ss = set streams" "set ns = set nodes"
    by (simp_all add: ss_def ns_def)
  have "streams \<noteq> [] \<and> length streams \<le> MAX_GRAPH_STREAMS \<and> nodes \<noteq> [] \<and> length nodes \<le> MAX_GRAPH_NODES \<and>
     (\<forall>s\<in>set streams. stream_context s = ctx) \<and> sorted_wrt clash_free ns \<and>
     (\<forall>n\<in>set nodes. node_ok ctx ss ns (build_node_indices ns) n) \<and>
     (\<forall>s\<in>set streams.
        length (filter (\<lambda>n. node_stream n = s \<and> node_stream_predecessor n = None) ns) = 1) \<and>
     (\<forall>n\<in>set nodes. \<forall>e r. awaited (node_kind n) = Some (e, r) \<longrightarrow>
        (\<exists>i. build_node_indices ns r = Some i \<and> recorded_event (node_kind (ns ! i)) = Some e)) \<and>
     compile_graph ctx ss ns (build_node_indices ns) = Inl e"
    using assms(1) late sets unfolding graph_new_def ss_def [symmetric] ns_def [symmetric] Let_def
    by (auto simp: result_simps and_then_Inl no scan_Inr check_stream_heads_Inr check_event_wait_Inr
        split: if_splits option.splits)
  then show ?thesis
    using dist unfolding ss_def ns_def graph_new_cases(1-3) [OF dist(2)]
      graph_new_cases(4) [OF dist(2), of _ "\<lambda>m. recorded_event (node_kind m) = Some _"]
    by (simp add: graph_shape_def)
qed

lemma graph_new_eq_compile:
  assumes shape: "graph_shape ctx streams nodes"
  shows "graph_new ctx streams nodes = compile_graph ctx (sort streams) (sort_key node_id nodes)
      (build_node_indices (sort_key node_id nodes))"
proof -
  define ss ns where "ss = sort streams" and "ns = sort_key node_id nodes"
  have sets: "set ss = set streams" "set ns = set nodes"
    by (simp_all add: ss_def ns_def)
  have dist: "distinct streams" "distinct (map node_id nodes)"
    using shape by (simp_all add: graph_shape_def)
  have dup: "adjacent_duplicate ss = None" "adjacent_duplicate (map node_id ns) = None"
    using adjacent_duplicate_sorted [of ss] adjacent_duplicate_sorted [of "map node_id ns"] dist
    by (simp_all add: ss_def ns_def)
  have ctx: "for_each (\<lambda>stream. if stream_context stream \<noteq> ctx
      then Inl (ForeignStreamContext stream) else Inr ()) ss = Inr ()"
    using shape by (simp add: for_each_Inr sets graph_shape_def)
  note cases = graph_new_cases [OF dist(2), folded ns_def]
  note ok = graph_new_cases(2) [OF dist(2), of ctx streams, folded ns_def ss_def]
  have scan: "try_fold (scan_node ctx ss ns (build_node_indices ns)) empty_scan ns = Inr (scan_of ns)"
    using shape unfolding scan_Inr by (simp add: cases(1) ok sets graph_shape_def)
  have heads: "for_each (check_stream_heads (scan_of ns)) ss = Inr ()"
    using shape unfolding for_each_Inr check_stream_heads_Inr cases(3) sets by (simp add: graph_shape_def)
  have wait: "for_each (check_event_wait ns (build_node_indices ns)) ns = Inr ()"
    using shape unfolding for_each_Inr check_event_wait_Inr sets
      cases(4) [of _ "\<lambda>m. recorded_event (node_kind m) = Some _"] by (simp add: graph_shape_def)
  show ?thesis
    using shape unfolding graph_new_def ss_def [symmetric] ns_def [symmetric] Let_def
    by (simp add: dup ctx scan heads wait) (auto simp: graph_shape_def)
qed

lemma compile_graph_Inl:
  assumes res: "resolved nodes" and sorted: "sorted_wrt (<) (map node_id nodes)"
  shows "compile_graph ctx streams nodes (build_node_indices nodes) = Inl e \<longleftrightarrow>
    (let edges = sum_list (map (\<lambda>n. card (prerequisites n)) nodes)
     in if MAX_GRAPH_EDGES < edges then e = TooManyEdges edges MAX_GRAPH_EDGES
        else \<not> acyclic (prerequisite_relation nodes) \<and> e = Cycle)"
proof -
  let ?deps = "build_dependency_indices nodes (build_node_indices nodes)"
  obtain off succ where idx: "successor_index ?deps = (off, succ)"
    by (cases "successor_index ?deps")
  have dist: "distinct (map node_id nodes)"
    using sorted by (simp add: strict_sorted_iff)
  have wf: "deps_wf ?deps" and len: "length nodes = length ?deps"
    using deps_wf_build [OF res dist] by (simp_all add: build_dependency_indices_def)
  have count: "sum_list (map length ?deps) = sum_list (map (\<lambda>n. card (prerequisites n)) nodes)"
    using length_node_dependencies [OF res dist]
    by (simp add: build_dependency_indices_def o_def cong: map_cong)
  note defs = compile_graph_def Let_def idx count prod.case
  consider order where "acyclic (prerequisite_relation nodes)"
      "deterministic_topological_order nodes ?deps off succ = Inr order"
    | "\<not> acyclic (prerequisite_relation nodes)"
      "deterministic_topological_order nodes ?deps off succ = Inl Cycle"
    using topological_order_spec [OF wf idx len] acyclic_dependencies_iff [OF res dist] by metis
  then show ?thesis
    by cases (auto simp: defs)
qed

lemma graph_new_late_iff:
  assumes "\<not> early_error e"
  shows "graph_new ctx streams nodes = Inl e \<longleftrightarrow> graph_shape ctx streams nodes \<and>
    (let edges = sum_list (map (\<lambda>n. card (prerequisites n)) nodes)
     in if MAX_GRAPH_EDGES < edges then e = TooManyEdges edges MAX_GRAPH_EDGES
        else \<not> acyclic (prerequisite_relation nodes) \<and> e = Cycle)"
proof (cases "graph_shape ctx streams nodes")
  case True
  then show ?thesis
    using compile_graph_Inl [OF shape_sorted [OF True], of ctx "sort streams" e]
    by (simp add: graph_new_eq_compile sum_list_sort_key)
next
  case False
  then show ?thesis
    using graph_new_late [OF _ assms, of ctx streams nodes] by blast
qed

section \<open>The order, by identities\<close>

text \<open>Nodes not yet ordered whose prerequisites all are, by identity.\<close>

definition ready_ids :: "completion_node list \<Rightarrow> completion_node_id set \<Rightarrow> completion_node_id set" where
  "ready_ids nodes done = node_id ` {n \<in> set nodes. node_id n \<notin> done \<and> prerequisites n \<subseteq> done}"

lemma ready_ids_eligible:
  assumes res: "resolved ns" and dist: "distinct (map node_id ns)" and X: "X \<subseteq> {..<length ns}"
  shows "ready_ids ns ((\<lambda>i. node_id (ns ! i)) ` X) =
    (\<lambda>i. node_id (ns ! i)) ` eligible (build_dependency_indices ns (build_node_indices ns)) X"
    (is "_ = ?f ` eligible ?deps X")
proof -
  have inj: "inj_on ?f {..<length ns}"
    using inj_on_nth [OF dist, of "{..<length ns}"] by (auto simp: inj_on_def)
  have len: "length ?deps = length ns"
    by (simp add: build_dependency_indices_def)
  have wf: "deps_wf ?deps"
    by (rule deps_wf_build [OF res dist])
  have iff: "j \<in> eligible ?deps X \<longleftrightarrow> ?f j \<notin> ?f ` X \<and> prerequisites (ns ! j) \<subseteq> ?f ` X"
    if j: "j < length ns" for j
  proof -
    have pre: "prerequisites (ns ! j) = ?f ` set (?deps ! j)"
      using dependency_ids [OF res dist nth_mem [OF j]] j by (simp add: build_dependency_indices_def)
    have lt: "d < length ns" if "d \<in> set (?deps ! j)" for d
      using deps_wfD [OF wf _ that] j len by simp
    have mem: "?f a \<in> ?f ` X \<longleftrightarrow> a \<in> X" if "a < length ns" for a
      using inj_on_image_mem_iff [OF inj _ X, of a] that by simp
    have "prerequisites (ns ! j) \<subseteq> ?f ` X \<longleftrightarrow> set (?deps ! j) \<subseteq> X"
      unfolding pre image_subset_iff using mem lt by (auto simp: subset_iff)
    then show ?thesis
      using j mem [OF j] by (simp add: eligible_def len)
  qed
  have "{n \<in> set ns. node_id n \<notin> ?f ` X \<and> prerequisites n \<subseteq> ?f ` X} = (!) ns ` eligible ?deps X"
  proof (intro set_eqI iffI)
    fix n assume "n \<in> {n \<in> set ns. node_id n \<notin> ?f ` X \<and> prerequisites n \<subseteq> ?f ` X}"
    then obtain j where "j < length ns" "ns ! j = n" "j \<in> eligible ?deps X"
      using iff by (auto simp: in_set_conv_nth)
    then show "n \<in> (!) ns ` eligible ?deps X"
      by blast
  next
    fix n assume "n \<in> (!) ns ` eligible ?deps X"
    then obtain j where "j \<in> eligible ?deps X" "n = ns ! j" "j < length ns"
      by (auto simp: eligible_def len)
    then show "n \<in> {n \<in> set ns. node_id n \<notin> ?f ` X \<and> prerequisites n \<subseteq> ?f ` X}"
      using iff [of j] by simp
  qed
  then show ?thesis
    unfolding ready_ids_def by (simp add: image_image)
qed

text \<open>C16: The topological order of an accepted graph lists every node once, and at each position
  stands the least identity among the nodes not yet listed whose prerequisites all are. This
  determines the order completely, so two adapters that compile the same graph agree on it.\<close>

theorem graph_topological_order:
  assumes new: "graph_new ctx streams nodes = Inr g"
  defines "order \<equiv> topological_order g"
  shows "distinct order \<and> set order = node_id ` set nodes \<and>
    (\<forall>k<length order. order ! k \<in> ready_ids nodes (set (take k order)) \<and>
      (\<forall>j\<in>ready_ids nodes (set (take k order)). order ! k \<le> j))"
proof -
  define ns where "ns = sort_key node_id nodes"
  let ?f = "\<lambda>i. node_id (ns ! i)"
  have shape: "graph_shape ctx streams nodes"
    using new by (simp add: graph_new_shape)
  have ns: "set ns = set nodes" "distinct (map node_id ns)" "resolved ns"
    using shape_sorted [OF shape] by (simp_all add: ns_def strict_sorted_iff)
  obtain idx where idx: "greedy ns (build_dependency_indices ns (build_node_indices ns)) idx"
      "distinct idx" "set idx = {..<length ns}" "order = map ?f idx"
    using graph_new_compiled [OF new] by (auto simp: compiled_def ns_def order_def)
  have inj: "inj_on ?f {..<length ns}"
    using inj_on_nth [OF ns(2), of "{..<length ns}"] by (auto simp: inj_on_def)
  have ready: "ready_ids nodes (set (take k order)) =
      ?f ` eligible (build_dependency_indices ns (build_node_indices ns)) (set (take k idx))" for k
    using ready_ids_eligible [OF ns(3,2), of "set (take k idx)"] idx(3) set_take_subset [of k idx] ns(1)
    by (simp add: idx(4) take_map ready_ids_def)
  have "set order = node_id ` set nodes"
    unfolding ns(1) [symmetric] by (force simp: idx(3,4) in_set_conv_nth)
  moreover have "distinct order"
    using idx inj by (simp add: distinct_map)
  moreover have "order ! k \<in> ready_ids nodes (set (take k order)) \<and>
      (\<forall>j\<in>ready_ids nodes (set (take k order)). order ! k \<le> j)" if "k < length order" for k
  proof -
    have "idx ! k \<in> eligible (build_dependency_indices ns (build_node_indices ns)) (set (take k idx)) \<and>
        (\<forall>j\<in>eligible (build_dependency_indices ns (build_node_indices ns)) (set (take k idx)).
          ready_key ns (idx ! k) \<le> ready_key ns j)"
      using idx(1) that by (simp add: greedy_def idx(4))
    then show ?thesis
      using that unfolding ready by (fastforce simp: idx(4) ready_key_def intro: less_imp_le)
  qed
  ultimately show ?thesis
    by blast
qed

theorem graph_topological_order_witness:
  "distinct [nz 1, nz 2, nz 3, nz 4] \<and> set [nz 1, nz 2, nz 3, nz 4] =
     node_id ` set [demo_node 4, demo_node 3, demo_node 2, demo_node 1]"
  using graph_topological_order [OF demo_graph_new] by (simp add: demo_graph_def)

text \<open>C11: The constructor accepts exactly the valid graphs: bounded, with distinct streams, node
  identities, futures, recorded events and predecessors, every stream declared, in the context
  and with one head, predecessors on the same stream, waits for the event their record node
  records, and no cycle among the prerequisites.\<close>

theorem graph_new_accepts:
  "(\<exists>g. graph_new ctx streams nodes = Inr g) \<longleftrightarrow> graph_valid ctx streams nodes"
  by (rule graph_new_Inr_iff)

text \<open>C17: \<open>Cycle\<close> is reported exactly when the graph has the right shape and size and its
  prerequisites are cyclic; no other defect is reported as a cycle and no cycle as another
  defect.\<close>

theorem cycle_reported_iff:
  "graph_new ctx streams nodes = Inl Cycle \<longleftrightarrow> graph_shape ctx streams nodes \<and>
     sum_list (map (\<lambda>n. card (prerequisites n)) nodes) \<le> MAX_GRAPH_EDGES \<and>
     \<not> acyclic (prerequisite_relation nodes)"
  by (auto simp: graph_new_late_iff early_error_def Let_def)

text \<open>The constructor never decrements an in-degree that is zero or out of range, whatever the input.\<close>

theorem graph_new_never_panics: "graph_new ctx streams nodes \<noteq> Inl GraphPanic"
  by (simp add: graph_new_late_iff early_error_def Let_def)

text \<open>The offsets and the flat index array of an accepted graph are the transposed dependency
  lists: the slice of a node is the ascending list of the nodes that depend on it.\<close>

theorem successor_slices_transpose:
  assumes "graph_new ctx streams nodes = Inr g" and "i < length nodes"
  shows "graph_successors g i = Some (filter (\<lambda>j. \<exists>ds. graph_dependencies g j = Some ds \<and> i \<in> set ds) [0..<length nodes])"
proof -
  have g: "compiled g" "length (graph_nodes g) = length nodes"
    using graph_new_compiled [OF assms(1)] by simp_all
  have "filter (\<lambda>j. \<exists>ds. graph_dependencies g j = Some ds \<and> i \<in> set ds) [0..<length nodes] =
      filter (\<lambda>j. i \<in> set (deps_of g j)) [0..<length nodes]"
    using g by (intro filter_cong) (auto simp: compiled_accessors)
  moreover have "succs_of g i = filter (\<lambda>j. i \<in> set (deps_of g j)) [0..<length nodes]"
    using g assms(2) by (simp add: compiled_def)
  ultimately show ?thesis
    using g assms(2) by (simp add: compiled_accessors)
qed

theorem successor_slices_transpose_witness:
  "graph_successors demo_graph 1 = Some [2]"
  using successor_slices_transpose [OF demo_graph_new, of 1]
  by (simp add: graph_dependencies_def checked_nth_def demo_graph_def upt_rec)

text \<open>Looking up a node by binary search finds it exactly when a linear search does, at the
  same index.\<close>

theorem node_index_is_search:
  assumes "graph_new ctx streams nodes = Inr g"
  shows "node_index g key = find (\<lambda>i. node_id (graph_nodes g ! i) = key) [0..<length (graph_nodes g)]"
proof -
  have "compiled g"
    using graph_new_compiled [OF assms] by simp
  note iff = node_index_Some [OF this, of key]
  show ?thesis
  proof (cases "find (\<lambda>i. node_id (graph_nodes g ! i) = key) [0..<length (graph_nodes g)]")
    case None
    then have "node_index g key \<noteq> Some i" for i
      using iff [of i] by (auto simp: find_None_iff)
    then show ?thesis
      using None by (cases "node_index g key") auto
  next
    case (Some i)
    then have "node_index g key = Some i"
      using iff [of i] by (auto simp: find_Some_iff)
    then show ?thesis
      using Some by simp
  qed
qed

theorem node_index_is_search_witness: "node_index demo_graph (nz 3) = Some 2"
  using node_index_is_search [OF demo_graph_new, of "nz 3"]
  by (simp add: demo_graph_def demo_graph_defs upt_rec nz_eq)

end
