(* ===== verification/Completion_Wire_Theorems.thy ===== *)
theory Completion_Wire_Theorems
  imports Completion_Wire_Codec Completion_Graph_Theorems
begin

text \<open>
  Properties of the canonical encoding: the decoder inverts the encoder, which inputs it rejects
  as noncanonical, that it never panics, and what equal identities mean.
\<close>

lemma accepted_fits:
  assumes "graph_new ctx streams nodes = Inr g"
  shows "wire_fits (graph_context g) (graph_streams g) (graph_nodes g)"
proof -
  have "graph_shape ctx streams nodes"
    using assms by (simp add: graph_new_shape)
  then show ?thesis
    using graph_new_compiled [OF assms] by (auto simp: wire_fits_def graph_shape_def node_in_def)
qed

lemma graph_new_again:
  assumes "graph_new ctx streams nodes = Inr g"
  shows "graph_new (graph_context g) (graph_streams g) (graph_nodes g) = Inr g"
  using graph_new_mset [of streams "graph_streams g" nodes "graph_nodes g" ctx] graph_new_compiled [OF assms] assms
  by simp

lemma encode_accepted:
  assumes "graph_new ctx streams nodes = Inr g"
  shows "encode_graph g = Some (wire_bytes (graph_context g) (graph_streams g) (graph_nodes g))"
  by (rule encode_graph_bytes [OF accepted_fits [OF assms]])

lemma wire_bytes_inject:
  assumes "wire_fits ctx streams nodes" and "wire_fits ctx' streams' nodes'"
    and "wire_bytes ctx streams nodes = wire_bytes ctx' streams' nodes'"
  shows "ctx = ctx' \<and> streams = streams' \<and> nodes = nodes'"
  using decode_parts_exact [of "wire_bytes ctx streams nodes" ctx streams nodes]
    decode_parts_exact [of "wire_bytes ctx streams nodes" ctx' streams' nodes'] assms by auto

lemma encode_bytes_iff:
  assumes new: "graph_new ctx streams nodes = Inr g" and fits: "wire_fits ctx streams nodes"
  shows "encode_graph g = Some (wire_bytes ctx streams nodes) \<longleftrightarrow> sorted streams \<and> sorted (map node_id nodes)"
proof -
  have g: "graph_context g = ctx" "graph_streams g = sort streams" "graph_nodes g = sort_key node_id nodes"
    using graph_new_compiled [OF new] by simp_all
  have "encode_graph g = Some (wire_bytes ctx streams nodes) \<longleftrightarrow>
      sort streams = streams \<and> sort_key node_id nodes = nodes"
    using encode_accepted [OF new] wire_bytes_inject [OF accepted_fits [OF new] fits] by (auto simp: g)
  also have "sort streams = streams \<longleftrightarrow> sorted streams"
    by (metis sorted_sort sort_key_id_if_sorted map_ident)
  also have "sort_key node_id nodes = nodes \<longleftrightarrow> sorted (map node_id nodes)"
    by (metis sorted_sort_key sort_key_id_if_sorted)
  finally show ?thesis .
qed

section \<open>Errors of the reader\<close>

definition parse_error :: "completion_graph_decode_error \<Rightarrow> bool" where
  "parse_error e \<longleftrightarrow> e \<noteq> NonCanonical \<and> e \<noteq> DecodePanic \<and> (\<forall>x. e \<noteq> InvalidGraph x)"

lemma read_fixed_Inl: "read_fixed n bs = Inl e \<Longrightarrow> parse_error e"
  by (auto simp: read_fixed_def parse_error_def split: if_splits)

lemma read_bytes32_Inl: "read_bytes32 bs = Inl e \<Longrightarrow> parse_error e"
  by (auto simp: read_bytes32_def and_then_Inl read_fixed_Inr ok_or_def to_bytes32_def
      dest: read_fixed_Inl split: option.splits if_splits)

lemma read_word_Inl:
  "read_u8 bs = Inl e \<Longrightarrow> parse_error e" "read_u16 bs = Inl e \<Longrightarrow> parse_error e"
  "read_u32 bs = Inl e \<Longrightarrow> parse_error e"
  by (auto simp: read_u8_def read_u16_def read_u32_def and_then_Inl dest: read_fixed_Inl)

lemma bounded_count_Inl: "bounded_count field n bs = Inl e \<Longrightarrow> parse_error e"
  by (auto simp: bounded_count_def and_then_Inl Let_def parse_error_def split: if_splits dest: read_word_Inl)

lemma decode_node_id_Inl: "decode_node_id raw field = Inl e \<Longrightarrow> parse_error e"
  by (auto simp: decode_node_id_def ok_or_def parse_error_def split: option.splits)

lemma decode_predecessor_Inl: "decode_predecessor tag raw = Inl e \<Longrightarrow> parse_error e"
  by (auto simp: decode_predecessor_def and_then_Inl dest: decode_node_id_Inl split: if_splits)
    (simp_all add: parse_error_def)

lemma decode_kind_Inl: "decode_kind ctx key kind pred s payload raw = Inl e \<Longrightarrow> parse_error e"
  by (auto simp: decode_kind_def and_then_Inl dest: decode_node_id_Inl split: if_splits)
    (simp_all add: parse_error_def)

lemma decode_node_Inl: "decode_node ctx bs = Inl e \<Longrightarrow> parse_error e"
  by (auto simp: decode_node_def and_then_Inl split: if_splits
      dest: read_word_Inl read_bytes32_Inl decode_node_id_Inl decode_predecessor_Inl decode_kind_Inl)
    (simp_all add: parse_error_def)

lemma read_many_Inl:
  assumes "\<And>bs. get bs = Inl e \<Longrightarrow> parse_error e"
  shows "read_many n get bs = Inl e \<Longrightarrow> parse_error e"
  by (induction n arbitrary: bs) (auto simp: and_then_Inl dest: assms)

lemma read_items_Inl:
  "read_many n read_bytes32 bs = Inl e \<Longrightarrow> parse_error e"
  "read_many n (decode_node ctx) bs = Inl e \<Longrightarrow> parse_error e"
  using read_many_Inl read_bytes32_Inl decode_node_Inl by blast+

lemma parse_error_simps [simp]:
  "parse_error (TooLarge a b)" "parse_error InvalidDomain" "parse_error (DeclaredLengthMismatch a b)"
  "parse_error (UnsupportedFlags f)" "\<not> parse_error NonCanonical" "\<not> parse_error DecodePanic"
  "\<not> parse_error (InvalidGraph x)"
  by (simp_all add: parse_error_def)

lemma decode_parts_Inl: "decode_parts bytes = Inl e \<Longrightarrow> parse_error e"
  by (auto simp: decode_parts_def and_then_Inl Let_def split: if_splits
      dest: read_word_Inl read_bytes32_Inl read_fixed_Inl bounded_count_Inl read_items_Inl)

section \<open>Properties\<close>

text \<open>C19: Decoding is the exact inverse of encoding: the decoder returns a graph if and only if the
  graph is one the validating constructor builds and the bytes are its canonical encoding. Every
  graph therefore survives the round trip, and no two byte strings decode to the same graph.\<close>

theorem decode_graph_exact:
  "decode_graph bytes = Inr g \<longleftrightarrow>
     (\<exists>ctx streams nodes. graph_new ctx streams nodes = Inr g) \<and> encode_graph g = Some bytes"
proof
  assume "decode_graph bytes = Inr g"
  then show "(\<exists>ctx streams nodes. graph_new ctx streams nodes = Inr g) \<and> encode_graph g = Some bytes"
    by (auto simp: decode_graph_def and_then_Inr map_err_Inr split: option.splits if_splits)
next
  assume g: "(\<exists>ctx streams nodes. graph_new ctx streams nodes = Inr g) \<and> encode_graph g = Some bytes"
  then obtain ctx streams nodes where new: "graph_new ctx streams nodes = Inr g"
    by blast
  then have "decode_parts bytes = Inr (graph_context g, graph_streams g, graph_nodes g)"
    using g encode_accepted [OF new] accepted_fits [OF new] by (simp add: decode_parts_exact)
  then show "decode_graph bytes = Inr g"
    using g graph_new_again [OF new] by (simp add: decode_graph_def)
qed

text \<open>Every accepted graph has an encoding; its length is the header plus 32 bytes for each
  stream and 80 for each node, and never exceeds the decoder's limit.\<close>

theorem encode_graph_size:
  assumes "graph_new ctx streams nodes = Inr g"
  shows "\<exists>bytes. encode_graph g = Some bytes \<and>
    length bytes = 106 + 32 * length streams + 80 * length nodes \<and> length bytes \<le> MAX_GRAPH_BYTES"
proof -
  have "length (graph_streams g) = length streams" "length (graph_nodes g) = length nodes"
    using graph_new_compiled [OF assms] by simp_all
  then show ?thesis
    using encode_accepted [OF assms] wire_size_le [OF accepted_fits [OF assms]]
    by (simp add: length_wire_bytes wire_size_def GRAPH_HEADER_BYTES_def WIRE_DOMAIN_def ascii_def
        STREAM_WIRE_BYTES_def NODE_WIRE_BYTES_def)
qed

theorem encode_graph_size_witness: "\<exists>bytes. encode_graph demo_graph = Some bytes \<and> length bytes = 490"
  using encode_graph_size [OF demo_graph_new] by auto

text \<open>\<open>NonCanonical\<close> is reported exactly for the encodings of valid graphs whose streams or
  nodes are out of order; the check rejects no other bytes.\<close>

theorem noncanonical_iff:
  "decode_graph bytes = Inl NonCanonical \<longleftrightarrow>
     (\<exists>ctx streams nodes. wire_fits ctx streams nodes \<and> bytes = wire_bytes ctx streams nodes \<and>
        graph_valid ctx streams nodes \<and> \<not> (sorted streams \<and> sorted (map node_id nodes)))"
proof -
  have "decode_graph bytes = Inl NonCanonical \<longleftrightarrow>
      (\<exists>ctx streams nodes g. decode_parts bytes = Inr (ctx, streams, nodes) \<and>
        graph_new ctx streams nodes = Inr g \<and> encode_graph g \<noteq> Some bytes)"
    using decode_parts_Inl [of bytes NonCanonical]
    by (auto simp: decode_graph_def and_then_Inl map_err_Inr encode_accepted split: if_splits
        elim!: map_err.elims) 
  also have "\<dots> \<longleftrightarrow> (\<exists>ctx streams nodes g. wire_fits ctx streams nodes \<and> bytes = wire_bytes ctx streams nodes \<and>
        graph_new ctx streams nodes = Inr g \<and> \<not> (sorted streams \<and> sorted (map node_id nodes)))"
    using encode_bytes_iff by (simp add: decode_parts_exact) blast
  finally show ?thesis
    using graph_new_Inr_iff by blast
qed

text \<open>The decoder never panics, whatever bytes it reads.\<close>

theorem decode_never_panics:
  "decode_graph bytes \<noteq> Inl DecodePanic \<and> decode_graph bytes \<noteq> Inl (InvalidGraph GraphPanic)"
proof -
  have "graph_new ctx streams nodes \<noteq> Inl GraphPanic" for ctx streams nodes
    by (simp add: graph_new_late_iff early_error_def Let_def)
  then show ?thesis
    using decode_parts_Inl [of bytes DecodePanic] decode_parts_Inl [of bytes "InvalidGraph GraphPanic"]
    by (auto simp: decode_graph_def and_then_Inl map_err_Inr encode_accepted split: if_splits
        elim!: map_err.elims)
qed

lemma identity_input:
  assumes "graph_new ctx streams nodes = Inr g"
  defines "bytes \<equiv> wire_bytes (graph_context g) (graph_streams g) (graph_nodes g)"
  shows "graph_identity h g = Some \<lparr>gid_sha256 = h (IDENTITY_DOMAIN @ to_le_bytes 8 (of_nat (length bytes) :: u64) @ bytes),
      gid_byte_len = of_nat (length bytes)\<rparr>"
    and "length bytes < 2 ^ 64"
proof -
  show "graph_identity h g = Some \<lparr>gid_sha256 = h (IDENTITY_DOMAIN @ to_le_bytes 8 (of_nat (length bytes) :: u64) @ bytes),
      gid_byte_len = of_nat (length bytes)\<rparr>"
    by (simp add: graph_identity_def encode_accepted [OF assms(1)] calculate_identity_def bytes_def)
  show "length bytes < 2 ^ 64"
    using wire_size_le [OF accepted_fits [OF assms(1)]]
    by (simp add: bytes_def length_wire_bytes MAX_GRAPH_BYTES_eq)
qed

lemma wire_bytes_accepted_inject:
  assumes "graph_new ctx streams nodes = Inr g" and "graph_new ctx' streams' nodes' = Inr g'"
  shows "wire_bytes (graph_context g) (graph_streams g) (graph_nodes g) =
      wire_bytes (graph_context g') (graph_streams g') (graph_nodes g') \<longleftrightarrow> g = g'"
proof
  assume "wire_bytes (graph_context g) (graph_streams g) (graph_nodes g) =
      wire_bytes (graph_context g') (graph_streams g') (graph_nodes g')"
  then have "graph_new (graph_context g) (graph_streams g) (graph_nodes g) =
      graph_new (graph_context g') (graph_streams g') (graph_nodes g')"
    using wire_bytes_inject [OF accepted_fits [OF assms(1)] accepted_fits [OF assms(2)]] by simp
  then show "g = g'"
    by (simp add: graph_new_again [OF assms(1)] graph_new_again [OF assms(2)])
qed simp

text \<open>C20: The identity of an accepted graph is the digest of one byte string that determines the graph.  For accepted
  graphs \<open>g\<close> and \<open>g'\<close> there are byte strings \<open>p\<close> and \<open>p'\<close> such that, whatever the digest function, the
  digest in the identity of \<open>g\<close> is the digest of \<open>p\<close> and that of \<open>g'\<close> the digest of \<open>p'\<close>; both begin with
  the identity domain; they are equal exactly when the graphs are; and if the identities are equal then
  \<open>p\<close> and \<open>p'\<close> have the same length and the same digest.  So different graphs with equal identities are a collision on \<open>p\<close> and \<open>p'\<close>,
  and an identity that leaves out any part of a graph violates the statement.\<close>

theorem graph_identity_binds:
  assumes "graph_new ctx streams nodes = Inr g" and "graph_new ctx' streams' nodes' = Inr g'"
  shows "\<exists>p p'. (\<forall>h. map_option gid_sha256 (graph_identity h g) = Some (h p)) \<and>
    (\<forall>h. map_option gid_sha256 (graph_identity h g') = Some (h p')) \<and>
    take (length IDENTITY_DOMAIN) p = IDENTITY_DOMAIN \<and> take (length IDENTITY_DOMAIN) p' = IDENTITY_DOMAIN \<and>
    (p = p' \<longleftrightarrow> g = g') \<and>
    (\<forall>h. graph_identity h g = graph_identity h g' \<longrightarrow> length p = length p' \<and> h p = h p')"
proof -
  define pre where "pre bs = IDENTITY_DOMAIN @ to_le_bytes 8 (of_nat (length bs) :: u64) @ bs" for bs
  define b b' where "b = wire_bytes (graph_context g) (graph_streams g) (graph_nodes g)"
    and "b' = wire_bytes (graph_context g') (graph_streams g') (graph_nodes g')"
  have id: "graph_identity h g = Some \<lparr>gid_sha256 = h (pre b), gid_byte_len = of_nat (length b)\<rparr>"
    "graph_identity h g' = Some \<lparr>gid_sha256 = h (pre b'), gid_byte_len = of_nat (length b')\<rparr>" for h
    unfolding pre_def b_def b'_def by (rule identity_input(1) [OF assms(1)], rule identity_input(1) [OF assms(2)])
  have "b = b' \<longleftrightarrow> g = g'"
    unfolding b_def b'_def by (rule wire_bytes_accepted_inject [OF assms])
  moreover have "pre b = pre b' \<longleftrightarrow> b = b'"
    by (auto simp: pre_def)
  moreover have "length (pre b) = length (pre b')" if "graph_identity h g = graph_identity h g'" for h
  proof -
    have "(of_nat (length b) :: u64) = of_nat (length b')"
      using that unfolding id by simp
    from arg_cong [OF this, of unat] have "length b = length b'"
      using identity_input(2) [OF assms(1)] identity_input(2) [OF assms(2)] by (simp add: unat_of_nat b_def b'_def)
    then show ?thesis
      by (simp add: pre_def)
  qed
  moreover have "take (length IDENTITY_DOMAIN) (pre bs) = IDENTITY_DOMAIN" for bs
    by (simp add: pre_def)
  ultimately show ?thesis
    by (intro exI [of _ "pre b"] exI [of _ "pre b'"]) (auto simp: id)
qed

text \<open>A second accepted graph: one stream with one future.\<close>

definition small_graph :: completion_graph where
  "small_graph =
     \<lparr>graph_context = demo_ctx, graph_streams = [demo_stream 1], graph_nodes = [demo_node 1],
      topological_order = [nz 1], dependency_indices = [[]], successor_offsets = [0, 0],
      successor_indices = [], topological_ranks = [0]\<rparr>"

lemma small_graph_new: "graph_new demo_ctx [demo_stream 1] [demo_node 1] = Inr small_graph"
proof -
  have succ: "successor_index [[]] = ([0, 0], [])"
    by code_simp
  have "compile_graph demo_ctx [demo_stream 1] [demo_node 1] [nz 1 \<mapsto> 0] = Inr small_graph"
    by (simp add: compile_graph_def build_dependency_indices_def node_dependencies_def succ
        deterministic_topological_order_def initial_ready_def set_insert_def successors_of_def ranks_of_order_def
        small_graph_def demo_graph_defs)
  then show ?thesis
    by (simp add: graph_new_def adjacent_duplicate_def build_node_indices_def scan_node_def scan_kind_def
        scan_predecessor_def check_stream_heads_def check_event_wait_def empty_scan_def bump_def
        MAX_GRAPH_STREAMS_def MAX_GRAPH_NODES_def demo_graph_defs)
qed

theorem graph_identity_binds_witness:
  "\<exists>p p'. (\<forall>h. map_option gid_sha256 (graph_identity h demo_graph) = Some (h p)) \<and>
    (\<forall>h. map_option gid_sha256 (graph_identity h small_graph) = Some (h p')) \<and> p \<noteq> p'"
  using graph_identity_binds [OF demo_graph_new small_graph_new] by (auto simp: demo_graph_def small_graph_def)

end
