(* ===== verification/Completion_Authority_Theorems.thy ===== *)
theory Completion_Authority_Theorems
  imports Completion_Authority_Runs Completion_Wire_Theorems
begin

text \<open>
  Properties of the completion authority in every state reachable from an accepted graph.
\<close>

text \<open>C21: Propagating a failure through the worklist leaves every node in the state that a full sweep
  over the graph in topological order would give it; the same holds for a confirmed cancellation
  and for the cancellation of a blocked node.\<close>

theorem propagation_is_sweep:
  assumes new: "graph_new ctx streams nodes = Inr g" and run: "authority_run g a taken"
    and i: "node_index g node = Some i"
  shows "(mark_failed a node error = Inr a' \<longrightarrow>
      auth_states a' = sweep g ((auth_states a)[i := Failed node error])) \<and>
    (cancel_blocked a node reason = Inr b \<longrightarrow>
      auth_states b = sweep g ((auth_states a)[i := Cancelled node reason])) \<and>
    (mark_cancelled a node = Inr c \<longrightarrow>
      (\<exists>r. auth_states a ! i = CancelRequested r \<and> auth_states c = sweep g ((auth_states a)[i := Cancelled node r])))"
proof -
  have g: "compiled g"
    using graph_new_compiled [OF new] by simp
  then have inv: "authority_inv a" and graph: "auth_graph a = g" and len: "length (auth_states a) = node_count g"
    using run_inv [OF g run] by (auto simp: authority_inv_def)
  have index: "j = i" if "j < node_count g" "id_at g j = node" for j
    using that i node_index_Some [OF g, of node j] by simp
  have sweep: "S = sweep g ((auth_states a)[i := s])"
    if "propagated g ((auth_states a)[j := s]) S" "j < node_count g" "id_at g j = node" for S s j
    using propagated_sweep [OF g _ that(1)] index [OF that(2,3)] len by simp
  have "auth_states a' = sweep g ((auth_states a)[i := Failed node error])" if "mark_failed a node error = Inr a'"
    by (cases rule: mark_failed_cases [OF inv, of node error]) (use that sweep graph in auto)
  moreover have "auth_states b = sweep g ((auth_states a)[i := Cancelled node reason])"
    if "cancel_blocked a node reason = Inr b"
    by (cases rule: cancel_blocked_cases [OF inv, of node reason]) (use that sweep graph in auto)
  moreover have "\<exists>r. auth_states a ! i = CancelRequested r \<and> auth_states c = sweep g ((auth_states a)[i := Cancelled node r])"
    if "mark_cancelled a node = Inr c"
    by (cases rule: mark_cancelled_cases [OF inv, of node]) (use that sweep graph index in auto)
  ultimately show ?thesis
    by blast
qed

theorem propagation_is_sweep_witness:
  "sweep demo_graph [Failed (nz 1) (nz 7), Blocked, Blocked, Blocked] =
     [Failed (nz 1) (nz 7), DependencyFailed (nz 1) (nz 7), DependencyFailed (nz 1) (nz 7),
      DependencyFailed (nz 1) (nz 7)]"
  using propagation_is_sweep [OF demo_graph_new demo_authority_run demo_index(1), THEN conjunct1, rule_format,
      OF demo_fail] by (simp add: demo_authority_eq demo_failed_def)

lemma node_index_less:
  "\<lbrakk>authority_inv a; node_index (auth_graph a) node = Some i\<rbrakk> \<Longrightarrow> i < length (auth_states a)"
  by (simp add: authority_inv_def node_index_Some)

text \<open>C22: No operation on a reachable authority panics.  Every read that an operation makes of the states, the remaining
  counts, the nodes and the compiled arrays of the graph (dependency lists, successor offsets and slices, topological
  ranks) is in range, no count of remaining dependencies underflows and no debug assertion fails.\<close>

theorem authority_never_panics:
  assumes "graph_new ctx streams nodes = Inr g" and "authority_run g a taken"
  shows "request_cancel a node reason \<noteq> Inl AuthorityPanic \<and> cancel_blocked a node reason \<noteq> Inl AuthorityPanic \<and>
    mark_succeeded a node \<noteq> Inl AuthorityPanic \<and> mark_failed a node error \<noteq> Inl AuthorityPanic \<and>
    mark_cancelled a node \<noteq> Inl AuthorityPanic \<and> authority_state a node \<noteq> Inl AuthorityPanic"
proof -
  have inv: "authority_inv a"
    using run_inv assms graph_new_compiled by blast
  have "authority_state a node \<noteq> Inl AuthorityPanic"
    using node_index_less [OF inv] by (auto simp: authority_state_def split: option.splits)
  moreover have "request_cancel a node reason \<noteq> Inl AuthorityPanic"
    using node_index_less [OF inv] by (auto simp: request_cancel_def and_then_Inl require_node_def ok_or_def
        split: option.splits completion_node_state.splits if_splits)
  moreover have "cancel_blocked a node reason \<noteq> Inl AuthorityPanic"
    by (cases rule: cancel_blocked_cases [OF inv, of node reason]) auto
  moreover have "mark_succeeded a node \<noteq> Inl AuthorityPanic"
    by (cases rule: mark_succeeded_cases [OF inv, of node]) auto
  moreover have "mark_failed a node error \<noteq> Inl AuthorityPanic"
    by (cases rule: mark_failed_cases [OF inv, of node error]) auto
  moreover have "mark_cancelled a node \<noteq> Inl AuthorityPanic"
    by (cases rule: mark_cancelled_cases [OF inv, of node]) auto
  ultimately show ?thesis
    by blast
qed

theorem authority_never_panics_witness: "mark_succeeded demo_authority (nz 2) \<noteq> Inl AuthorityPanic"
  using authority_never_panics [OF demo_graph_new demo_authority_run] by blast

lemma authority_state_Inr:
  assumes "authority_inv a"
  shows "authority_state a node = Inr s \<longleftrightarrow>
    (\<exists>i<node_count (auth_graph a). id_at (auth_graph a) i = node \<and> auth_states a ! i = s)"
proof -
  have "authority_state a node = Inr s \<longleftrightarrow> (\<exists>i. node_index (auth_graph a) node = Some i \<and> auth_states a ! i = s)"
    using node_index_less [OF assms] by (auto simp: authority_state_def split: option.splits)
  then show ?thesis
    using assms node_index_Some [of "auth_graph a" node] by (auto simp: authority_inv_def)
qed

text \<open>C23: A terminal state is final: no operation changes it.\<close>

theorem terminal_state_final:
  assumes "graph_new ctx streams nodes = Inr g" and "authority_run g a taken" and "authority_step a a'"
    and "authority_state a node = Inr s" and "state_is_terminal s"
  shows "authority_state a' node = Inr s"
proof -
  have inv: "authority_inv a"
    using run_inv assms(1,2) graph_new_compiled by blast
  then obtain js where ok: "step_ok a a' js"
    using step_ok_step assms(3) by blast
  obtain i where "i < node_count (auth_graph a)" "id_at (auth_graph a) i = node" "auth_states a ! i = s"
    using assms(4) authority_state_Inr [OF inv] by blast
  then show ?thesis
    using step_okD(2) [OF ok] step_okD(6) [OF ok, of i] assms(5)
    by (auto simp: authority_state_Inr [OF step_okD(1) [OF ok]])
qed

theorem terminal_state_final_witness:
  "\<exists>a. request_cancel demo_succeeded (nz 2) (nz 5) = Inr (True, a) \<and> authority_state a (nz 1) = Inr Succeeded"
proof -
  define a where "a = demo_succeeded\<lparr>auth_states := [Succeeded, CancelRequested (nz 5), Blocked, Blocked]\<rparr>"
  have req: "request_cancel demo_succeeded (nz 2) (nz 5) = Inr (True, a)"
    by (simp add: request_cancel_def require_node_def demo_succeeded_def demo_index ok_or_def a_def)
  have "authority_state demo_succeeded (nz 1) = Inr Succeeded"
    by (simp add: authority_state_def demo_succeeded_def demo_index ok_or_def)
  from terminal_state_final [OF demo_graph_new demo_run_succeeded step_request [OF req] this]
  show ?thesis
    using req by auto
qed

lemma accepted_dependencies:
  assumes "graph_new ctx streams nodes = Inr g" and "i < node_count g"
  shows "id_at g ` set (deps_of g i) = prerequisites (graph_nodes g ! i)"
proof -
  have "graph_shape ctx streams nodes"
    using assms(1) by (simp add: graph_new_shape)
  from shape_sorted [OF this] have "resolved (graph_nodes g)" "distinct (map node_id (graph_nodes g))"
    using graph_new_compiled [OF assms(1)] by (simp_all add: strict_sorted_iff)
  from dependency_ids [OF this nth_mem [OF assms(2)]] show ?thesis
    using graph_new_compiled [OF assms(1)] assms(2)
    by (simp add: deps_of_def build_dependency_indices_def)
qed

lemma accepted_node:
  assumes "graph_new ctx streams nodes = Inr g" and "n \<in> set nodes"
  obtains i where "i < node_count g" "graph_nodes g ! i = n"
proof -
  have "n \<in> set (graph_nodes g)"
    using graph_new_compiled [OF assms(1)] assms(2) by simp
  then show thesis
    using that by (auto simp: in_set_conv_nth)
qed

text \<open>C24: A node is ready, being cancelled, succeeded or failed only after all its prerequisites
  succeeded: neither its stream predecessor nor the event it waits for is overtaken.\<close>

theorem prerequisites_succeed_first:
  assumes new: "graph_new ctx streams nodes = Inr g" and run: "authority_run g a taken" and n: "n \<in> set nodes"
    and s: "authority_state a (node_id n) = Inr s" "activated s" and p: "p \<in> prerequisites n"
  shows "authority_state a p = Inr Succeeded"
proof -
  have g: "compiled g" and inv: "authority_inv a" and graph: "auth_graph a = g"
    using graph_new_compiled [OF new] run_inv run by auto
  obtain i where i: "i < node_count g" "graph_nodes g ! i = n"
    using accepted_node [OF new n] .
  then have "auth_states a ! i = s"
    using s(1) id_at_eq [OF g] by (auto simp: authority_state_Inr [OF inv] graph)
  then have "node_inv g (auth_states a) (remaining_dependencies a) i s"
    using inv i(1) graph by (auto simp: authority_inv_def)
  then have "all_succeeded g (auth_states a) i"
    using s(2) by (cases s) auto
  moreover have "p \<in> id_at g ` set (deps_of g i)"
    using p accepted_dependencies [OF new i(1)] i(2) by simp
  then obtain d where d: "d \<in> set (deps_of g i)" "id_at g d = p"
    by blast
  ultimately show ?thesis
    using compiled_dependency [OF g i(1) d(1)]
    by (auto simp: authority_state_Inr [OF inv] graph all_succeeded_def)
qed

theorem prerequisites_succeed_first_witness:
  "authority_state demo_succeeded (nz 2) = Inr Ready \<and> authority_state demo_succeeded (nz 1) = Inr Succeeded"
proof -
  have ready: "authority_state demo_succeeded (node_id (demo_node 2)) = Inr Ready"
    by (simp add: authority_state_def demo_succeeded_def demo_index ok_or_def demo_graph_defs)
  have "nz 1 \<in> prerequisites (demo_node 2)"
    by (simp add: prerequisites_def demo_graph_defs)
  from prerequisites_succeed_first [OF demo_graph_new demo_run_succeeded _ ready _ this]
  show ?thesis
    using ready by (simp add: demo_graph_defs)
qed

lemma terminal_count_full: "terminal_count S = length S \<longleftrightarrow> (\<forall>s\<in>set S. state_is_terminal s)"
  unfolding terminal_count_def by (metis filter_True length_filter_less nat_less_le)

lemma enabled_node:
  assumes inv: "authority_inv a" and "\<not> authority_is_terminal a"
  obtains i where "i < node_count (auth_graph a)"
    "auth_states a ! i = Ready \<or> (\<exists>r. auth_states a ! i = CancelRequested r)"
proof -
  let ?g = "auth_graph a" and ?S = "auth_states a"
  let ?P = "\<lambda>i. i < node_count ?g \<and> \<not> state_is_terminal (?S ! i)"
  have g: "compiled ?g" and "length ?S = node_count ?g" "terminal_nodes a = terminal_count ?S"
    using inv by (simp_all add: authority_inv_def)
  then have "\<exists>i. ?P i"
    using assms(2) terminal_count_full [of ?S] by (auto simp: authority_is_terminal_def in_set_conv_nth)
  then obtain i where i: "?P i" and least: "\<And>j. ?P j \<Longrightarrow> rank_of ?g i \<le> rank_of ?g j"
    using ex_has_least_nat [of ?P _ "rank_of ?g"] by blast
  have "?S ! i \<noteq> Blocked"
  proof
    assume "?S ! i = Blocked"
    then have "0 < unresolved ?g ?S i" "cause_of ?g ?S i = None"
      using inv i by (auto simp: authority_inv_def)
    then obtain d where d: "d \<in> set (deps_of ?g i)" "?S ! d \<noteq> Succeeded" "dependency_cause (?S ! d) = None"
      by (auto simp: unresolved_def cause_of_def find_map_None filter_empty_conv)
    then have "\<not> state_is_terminal (?S ! d)"
      by (cases "?S ! d") auto
    then show False
      using least [of d] compiled_dependency [OF g _ d(1)] i by auto
  qed
  then show thesis
    using i that by (cases "?S ! i") auto
qed

text \<open>C25: A reachable authority is never stuck: while some node is not terminal, some node can be
  marked succeeded, and doing so increases the number of terminal nodes.\<close>

theorem authority_progress:
  assumes new: "graph_new ctx streams nodes = Inr g" and run: "authority_run g a taken"
    and "\<not> authority_is_terminal a"
  shows "\<exists>node a'. mark_succeeded a node = Inr a' \<and> terminal_nodes a < terminal_nodes a'"
proof -
  let ?S = "auth_states a"
  have g: "compiled g" and inv: "authority_inv a" and graph: "auth_graph a = g"
    using graph_new_compiled [OF new] run_inv run by auto
  obtain i where i: "i < node_count g" "?S ! i = Ready \<or> (\<exists>r. ?S ! i = CancelRequested r)"
    using enabled_node [OF inv assms(3)] graph by blast
  have "require_node a (id_at g i) = Inr i"
    using i(1) g graph by (simp add: require_node_Inr)
  then have "mark_succeeded a (id_at g i) = release_successors (settle a i Succeeded) i"
    using i inv graph by (auto simp: mark_succeeded_def authority_inv_def)
  also have "\<dots> = Inr (visit (settle a i Succeeded) (succs_of g i))"
    using settle_releases(1) [OF inv, of i] i graph by simp
  finally show ?thesis
    by (intro exI conjI) (auto simp: visit_def)
qed

theorem authority_progress_witness:
  "\<exists>node a'. mark_succeeded demo_succeeded node = Inr a' \<and> 1 < terminal_nodes a'"
  using authority_progress [OF demo_graph_new demo_run_succeeded]
  by (simp add: authority_is_terminal_def demo_succeeded_def)

text \<open>C26: Every readiness notification is queued exactly once: over a whole run no node is notified
  twice, every node that has become ready has been notified, and no blocked node has.\<close>

theorem notified_exactly_once:
  assumes new: "graph_new ctx streams nodes = Inr g" and run: "authority_run g a taken"
  shows "distinct (taken @ ready_notifications a) \<and>
    (authority_state a node = Inr s \<longrightarrow>
      (activated s \<longrightarrow> node \<in> set (taken @ ready_notifications a)) \<and>
      (s = Blocked \<longrightarrow> node \<notin> set (taken @ ready_notifications a)))"
proof -
  have inv: "authority_inv a" "auth_graph a = g" "notified_inv a taken"
    using graph_new_compiled [OF new] run_inv run by auto
  show ?thesis
    using inv(3) unfolding authority_state_Inr [OF inv(1)] notified_inv_def by blast
qed

theorem notified_exactly_once_witness:
  "authority_state demo_succeeded (nz 2) = Inr Ready \<and> nz 2 \<in> set (ready_notifications demo_succeeded) \<and>
   distinct (ready_notifications demo_succeeded)"
proof -
  have "authority_state demo_succeeded (nz 2) = Inr Ready"
    by (simp add: authority_state_def demo_succeeded_def demo_index ok_or_def)
  then show ?thesis
    using notified_exactly_once [OF demo_graph_new demo_run_succeeded, of "nz 2" Ready] by simp
qed

fun original :: "completion_node_state \<Rightarrow> (completion_node_id \<times> completion_node_state) option" where
  "original (DependencyFailed origin error) = Some (origin, Failed origin error)"
| "original (DependencyCancelled origin reason) = Some (origin, Cancelled origin reason)"
| "original _ = None"

lemma original_cause: "\<lbrakk>dependency_cause s = Some c; original c = Some (origin, t)\<rbrakk> \<Longrightarrow> s = t \<or> s = c"
  by (cases s) auto

lemma inherited_origin:
  assumes new: "graph_new ctx streams nodes = Inr g" and inv: "authority_inv a" and graph: "auth_graph a = g"
  shows "\<lbrakk>i < node_count g; original (auth_states a ! i) = Some (origin, t)\<rbrakk> \<Longrightarrow>
    authority_state a origin = Inr t \<and> (origin, id_at g i) \<in> (prerequisite_relation nodes)\<^sup>+"
proof (induction "rank_of g i" arbitrary: i rule: less_induct)
  case less
  let ?S = "auth_states a"
  have g: "compiled g" and ni: "\<And>j. j < node_count g \<Longrightarrow> node_inv g ?S (remaining_dependencies a) j (?S ! j)"
    using inv graph by (auto simp: authority_inv_def)
  obtain d where d: "d \<in> set (deps_of g i)" "dependency_cause (?S ! d) = Some (?S ! i)"
    using ni [OF less.prems(1)] less.prems(2) by (cases "?S ! i") auto
  have dn: "d < node_count g" "rank_of g d < rank_of g i"
    using compiled_dependency [OF g less.prems(1) d(1)] by auto
  have "graph_nodes g ! i \<in> set nodes" "id_at g d \<in> prerequisites (graph_nodes g ! i)"
    using graph_new_compiled [OF new] nth_mem [OF less.prems(1)]
      accepted_dependencies [OF new less.prems(1)] d(1) by auto
  then have edge: "(id_at g d, id_at g i) \<in> prerequisite_relation nodes"
    by (auto simp: prerequisite_relation_def)
  show ?case
  proof (cases "?S ! d = t")
    case True
    then have "node_inv g ?S (remaining_dependencies a) d t"
      using ni [OF dn(1)] by simp
    then have "origin = id_at g d"
      using less.prems(2) by (cases "?S ! i") auto
    then show ?thesis
      using True dn(1) edge by (auto simp: authority_state_Inr [OF inv] graph)
  next
    case False
    then have "?S ! d = ?S ! i"
      using original_cause [OF d(2) less.prems(2)] by simp
    then show ?thesis
      using less.hyps [OF dn(2,1)] less.prems(2) edge by (auto intro: trancl_into_trancl)
  qed
qed

text \<open>C27: An inherited outcome names its true origin: a node in \<open>DependencyFailed\<close> or
  \<open>DependencyCancelled\<close> carries the identity and the code of an ancestor that failed or was
  cancelled itself.\<close>

theorem inherited_outcome_has_origin:
  assumes new: "graph_new ctx streams nodes = Inr g" and run: "authority_run g a taken"
  shows "(authority_state a node = Inr (DependencyFailed origin error) \<longrightarrow>
      authority_state a origin = Inr (Failed origin error) \<and> (origin, node) \<in> (prerequisite_relation nodes)\<^sup>+) \<and>
    (authority_state a node = Inr (DependencyCancelled origin reason) \<longrightarrow>
      authority_state a origin = Inr (Cancelled origin reason) \<and> (origin, node) \<in> (prerequisite_relation nodes)\<^sup>+)"
proof -
  have inv: "authority_inv a" "auth_graph a = g"
    using graph_new_compiled [OF new] run_inv run by auto
  show ?thesis
    using inherited_origin [OF new inv] inv(2) by (auto simp: authority_state_Inr [OF inv(1)])
qed

theorem inherited_outcome_has_origin_witness:
  "authority_state demo_failed (nz 4) = Inr (DependencyFailed (nz 1) (nz 7)) \<and>
   authority_state demo_failed (nz 1) = Inr (Failed (nz 1) (nz 7))"
proof -
  have "authority_state demo_failed (nz 4) = Inr (DependencyFailed (nz 1) (nz 7))"
    by (simp add: authority_state_def demo_failed_def demo_index ok_or_def)
  then show ?thesis
    using inherited_outcome_has_origin [OF demo_graph_new demo_run_failed, of "nz 4" "nz 1" "nz 7"] by simp
qed

text \<open>The authority is terminal exactly when every node is. A terminal authority becomes a report
  with one entry per node, in ascending identity order, each with the node's terminal state; any
  other is handed back unchanged.\<close>

theorem report_complete:
  assumes new: "graph_new ctx streams nodes = Inr g" and run: "authority_run g a taken"
  shows "(authority_is_terminal a \<longleftrightarrow> (\<forall>s\<in>set (auth_states a). state_is_terminal s)) \<and>
    (\<not> authority_is_terminal a \<longrightarrow> try_into_report sha256 a = Some (Inl a)) \<and>
    (authority_is_terminal a \<longrightarrow> (\<exists>report. try_into_report sha256 a = Some (Inr report) \<and>
      map entry_node (report_entries report) = sort (map node_id nodes) \<and>
      (\<forall>e\<in>set (report_entries report). state_is_terminal (entry_state e) \<and>
        authority_state a (entry_node e) = Inr (entry_state e))))"
proof -
  have g: "compiled g" and inv: "authority_inv a" and graph: "auth_graph a = g"
    and nodes: "graph_nodes g = sort_key node_id nodes"
    using graph_new_compiled [OF new] run_inv run by auto
  have len: "length (auth_states a) = node_count g"
    using inv graph by (simp add: authority_inv_def)
  have iff: "authority_is_terminal a \<longleftrightarrow> (\<forall>s\<in>set (auth_states a). state_is_terminal s)"
    unfolding terminal_count_full [symmetric] authority_is_terminal_def
    using inv by (simp add: authority_inv_def)
  obtain identity where "graph_identity sha256 g = Some identity"
    using encode_accepted [OF new] by (simp add: graph_identity_def)
  moreover have "map (node_id \<circ> fst) (zip (graph_nodes g) (auth_states a)) = sort (map node_id nodes)"
    using len by (simp flip: map_map add: nodes map_sort_key)
  moreover have "state_is_terminal s \<and> authority_state a (node_id n) = Inr s"
    if "authority_is_terminal a" "(n, s) \<in> set (zip (graph_nodes g) (auth_states a))" for n s
    using that iff len graph by (auto simp: authority_state_Inr [OF inv] in_set_zip)
  ultimately show ?thesis
    using iff by (auto simp: try_into_report_def graph o_def case_prod_beta)
qed

theorem report_complete_witness:
  "\<exists>report. try_into_report (\<lambda>_. fill32 0) demo_failed = Some (Inr report) \<and> length (report_entries report) = 4"
proof -
  have "authority_is_terminal demo_failed"
    by (simp add: authority_is_terminal_def demo_failed_def)
  then obtain report where report: "try_into_report (\<lambda>_. fill32 0) demo_failed = Some (Inr report)"
    and "map entry_node (report_entries report) =
      sort (map node_id [demo_node 4, demo_node 3, demo_node 2, demo_node 1])"
    using report_complete [OF demo_graph_new demo_run_failed, of "\<lambda>_. fill32 0"] by blast
  from arg_cong [OF this(2), of length] report show ?thesis
    by auto
qed

end
