(* ===== verification/Completion_Policy.thy ===== *)
theory Completion_Policy
  imports Fe2o3_Prelude
begin

text \<open>
  The completion policy of \<open>fe2o3-completion/src/lib.rs\<close>: wrappers that run an asynchronous backend
  operation and hand back, destroy or deliberately forget the resources it uses.  A closure is a function of the world
  it runs in; it returns, fails or panics.  Unwinding and aborting the process are values, and what became of a
  resource is part of the result.  A destructor may panic as well: which values have one that does is a parameter.
\<close>

section \<open>Closures and retained values\<close>

datatype 'e reply = Reply_Ok | Reply_Err 'e | Reply_Panic

type_synonym ('w, 'e) closure = "'w \<Rightarrow> 'e reply \<times> 'w"

datatype 'a process = Finished 'a | Unwinding | Aborted

datatype 'r fate = Handed_Back 'r | Destroyed 'r | Forgotten 'r

type_synonym 'r retained = "'r option"

definition retained_new :: "'r \<Rightarrow> 'r retained" where
  "retained_new r = Some r"

definition try_take :: "'r retained \<Rightarrow> 'r option \<times> 'r retained" where
  "try_take x = (x, None)"

definition retained_take :: "'r retained \<Rightarrow> 'r process \<times> 'r retained" where
  "retained_take x = (case x of None \<Rightarrow> Unwinding | Some r \<Rightarrow> Finished r, None)"

text \<open>Dropping a retained value forgets what it still holds.\<close>

definition retained_drop :: "'r retained \<Rightarrow> 'r fate list" where
  "retained_drop x = (case x of None \<Rightarrow> [] | Some r \<Rightarrow> [Forgotten r])"

text \<open>The guard \<open>AbortOnDrop\<close>: while armed, leaving the scope by unwinding aborts.\<close>

definition unwind_guarded :: "bool \<Rightarrow> 'a process" where
  "unwind_guarded armed = (if armed then Aborted else Unwinding)"

section \<open>Owned and borrowed completion\<close>

datatype ('o, 's) completion_error =
    Operation 'o
  | Synchronization 's
  | OperationAndSynchronization 'o 's

datatype 'e completion_failure = Quiescent 'e | Ambiguous 'e

text \<open>\<open>complete_owned\<close>: a panic of either closure drops the retained resources, which forgets them.\<close>

definition complete_owned :: "('r \<Rightarrow> bool) \<Rightarrow> 'r \<Rightarrow> ('w, 'o) closure \<Rightarrow> ('w, 's) closure \<Rightarrow> 'w \<Rightarrow>
    (('o, 's) completion_error + 'r) process \<times> 'r fate \<times> 'w" where
  "complete_owned drop_panics r run synchronize w =
     (case run w of
        (Reply_Panic, w) \<Rightarrow> (Unwinding, Forgotten r, w)
      | (Reply_Ok, w) \<Rightarrow>
          (case synchronize w of
             (Reply_Panic, w) \<Rightarrow> (Unwinding, Forgotten r, w)
           | (Reply_Ok, w) \<Rightarrow> (Finished (Inr r), Handed_Back r, w)
           | (Reply_Err s, w) \<Rightarrow> (Finished (Inl (Synchronization s)), Forgotten r, w))
      | (Reply_Err e, w) \<Rightarrow>
          (case synchronize w of
             (Reply_Panic, w) \<Rightarrow> (Unwinding, Forgotten r, w)
           | (Reply_Ok, w) \<Rightarrow>
               (if drop_panics r then Unwinding else Finished (Inl (Operation e)), Destroyed r, w)
           | (Reply_Err s, w) \<Rightarrow> (Finished (Inl (OperationAndSynchronization e s)), Forgotten r, w)))"

definition complete_borrowed :: "('w, 'o) closure \<Rightarrow> ('w, 's) closure \<Rightarrow> 'w \<Rightarrow>
    (('o, 's) completion_error + unit) process \<times> 'w" where
  "complete_borrowed run synchronize w =
     (case run w of
        (Reply_Panic, w) \<Rightarrow> (unwind_guarded True, w)
      | (ended, w) \<Rightarrow>
          (case synchronize w of
             (Reply_Panic, w) \<Rightarrow> (unwind_guarded True, w)
           | (Reply_Err _, w) \<Rightarrow> (Aborted, w)
           | (Reply_Ok, w) \<Rightarrow>
               (case ended of Reply_Err e \<Rightarrow> (Finished (Inl (Operation e)), w) | _ \<Rightarrow> (Finished (Inr ()), w))))"

definition settle_borrowed :: "('w, 'e completion_failure) closure \<Rightarrow> 'w \<Rightarrow> ('e + unit) process \<times> 'w" where
  "settle_borrowed synchronize w =
     (case synchronize w of
        (Reply_Ok, w) \<Rightarrow> (Finished (Inr ()), w)
      | (Reply_Err (Quiescent e), w) \<Rightarrow> (Finished (Inl e), w)
      | (Reply_Err (Ambiguous _), w) \<Rightarrow> (Aborted, w)
      | (Reply_Panic, w) \<Rightarrow> (unwind_guarded True, w))"

definition synchronize_with_fallback :: "('w, 'e) closure \<Rightarrow> ('w, 'e) closure \<Rightarrow> ('e \<Rightarrow> 'e \<Rightarrow> 'e) \<Rightarrow>
    ('w, 'e completion_failure) closure" where
  "synchronize_with_fallback primary fallback combine w =
     (case primary w of
        (Reply_Ok, w) \<Rightarrow> (Reply_Ok, w)
      | (Reply_Panic, w) \<Rightarrow> (Reply_Panic, w)
      | (Reply_Err p, w) \<Rightarrow>
          (case fallback w of
             (Reply_Ok, w) \<Rightarrow> (Reply_Err (Quiescent p), w)
           | (Reply_Panic, w) \<Rightarrow> (Reply_Panic, w)
           | (Reply_Err f, w) \<Rightarrow> (Reply_Err (Ambiguous (combine p f)), w)))"

section \<open>Pending operations\<close>

record ('r, 'c) pending_owned =
  pending_resources :: "'r retained"
  pending_completion :: "'c retained"
  pending_active :: bool

definition pending_new :: "'r \<Rightarrow> 'c \<Rightarrow> ('r, 'c) pending_owned" where
  "pending_new r c = \<lparr>pending_resources = retained_new r, pending_completion = retained_new c,
     pending_active = True\<rparr>"

text \<open>Both end with the fields dropped, in declaration order; what they still hold is forgotten.\<close>

definition drop_fields :: "('r, 'c) pending_owned \<Rightarrow> 'r fate list \<times> 'c fate list" where
  "drop_fields p = (retained_drop (pending_resources p), retained_drop (pending_completion p))"

text \<open>\<open>drop(self.completion.take()); drop(self.resources.take())\<close>: a value that is not there panics, and so
  may either destructor; a panic leaves what is still retained to be forgotten.\<close>

definition destroy_both :: "('r \<Rightarrow> bool) \<Rightarrow> ('c \<Rightarrow> bool) \<Rightarrow> ('r, 'c) pending_owned \<Rightarrow> unit process \<times> 'r fate list \<times> 'c fate list" where
  "destroy_both drop_r drop_c p =
     (case retained_take (pending_completion p) of
        (Finished c, _) \<Rightarrow>
          if drop_c c then (Unwinding, retained_drop (pending_resources p), [Destroyed c])
          else (case retained_take (pending_resources p) of
             (Finished r, _) \<Rightarrow> (if drop_r r then Unwinding else Finished (), [Destroyed r], [Destroyed c])
           | _ \<Rightarrow> (Unwinding, [], [Destroyed c]))
      | _ \<Rightarrow> (Unwinding, retained_drop (pending_resources p), []))"

text \<open>\<open>Drop for PendingOwned\<close>, followed by the drop of the fields.\<close>

definition pending_drop :: "('r \<Rightarrow> bool) \<Rightarrow> ('c \<Rightarrow> bool) \<Rightarrow> ('c \<Rightarrow> ('w, 'e completion_failure) closure) \<Rightarrow> ('r, 'c) pending_owned \<Rightarrow> 'w \<Rightarrow>
    unit process \<times> ('r fate list \<times> 'c fate list) \<times> 'w" where
  "pending_drop drop_r drop_c synchronize p w =
     (if \<not> pending_active p then (Finished (), drop_fields p, w)
      else (case pending_completion p of
          None \<Rightarrow> (Unwinding, drop_fields p, w)
        | Some c \<Rightarrow>
            (case synchronize c w of
               (Reply_Ok, w) \<Rightarrow> (case destroy_both drop_r drop_c p of (r, fates) \<Rightarrow> (r, fates, w))
             | (Reply_Err (Quiescent _), w) \<Rightarrow> (case destroy_both drop_r drop_c p of (r, fates) \<Rightarrow> (r, fates, w))
             | (Reply_Err (Ambiguous _), w) \<Rightarrow> (Finished (), drop_fields p, w)
             | (Reply_Panic, w) \<Rightarrow> (Unwinding, drop_fields p, w))))"

text \<open>\<open>wait\<close> clears \<open>active\<close> first, so the drop of \<open>self\<close> that ends it never synchronizes again.\<close>

definition pending_wait :: "('r \<Rightarrow> bool) \<Rightarrow> ('c \<Rightarrow> bool) \<Rightarrow> ('c \<Rightarrow> ('w, 'e completion_failure) closure) \<Rightarrow> ('r, 'c) pending_owned \<Rightarrow> 'w \<Rightarrow>
    ('e + 'r) process \<times> ('r fate list \<times> 'c fate list) \<times> 'w" where
  "pending_wait drop_r drop_c synchronize p w =
     (case pending_completion p of
        None \<Rightarrow> (Unwinding, drop_fields p, w)
      | Some c \<Rightarrow>
          (case synchronize c w of
             (Reply_Ok, w) \<Rightarrow>
               if drop_c c then (Unwinding, (retained_drop (pending_resources p), [Destroyed c]), w)
               else (case retained_take (pending_resources p) of
                  (Finished r, _) \<Rightarrow> (Finished (Inr r), ([Handed_Back r], [Destroyed c]), w)
                | _ \<Rightarrow> (Unwinding, ([], [Destroyed c]), w))
           | (Reply_Err (Quiescent e), w) \<Rightarrow>
               (case destroy_both drop_r drop_c p of
                  (Finished _, fates) \<Rightarrow> (Finished (Inl e), fates, w)
                | (_, fates) \<Rightarrow> (Unwinding, fates, w))
           | (Reply_Err (Ambiguous e), w) \<Rightarrow> (Finished (Inl e), drop_fields p, w)
           | (Reply_Panic, w) \<Rightarrow> (Unwinding, drop_fields p, w)))"

definition pending_query :: "('c \<Rightarrow> 'w \<Rightarrow> ('e + bool) process \<times> 'w) \<Rightarrow> ('r, 'c) pending_owned \<Rightarrow> 'w \<Rightarrow>
    ('e + bool) process \<times> 'w" where
  "pending_query query p w = (case pending_completion p of None \<Rightarrow> (Unwinding, w) | Some c \<Rightarrow> query c w)"

end
