(* ===== verification/Completion_Policy_Theorems.thy ===== *)
theory Completion_Policy_Theorems
  imports Completion_Policy
begin

text \<open>
  The completion policy never releases resources while the backend may still use them.  The backend's part of the
  contract is \<open>idle_after\<close>: a synchronization that reports success leaves the backend idle.
\<close>

section \<open>The backend's contract\<close>

definition idle_after :: "('w \<Rightarrow> bool) \<Rightarrow> ('w, 'e) closure \<Rightarrow> bool" where
  "idle_after busy synchronize \<longleftrightarrow> (\<forall>w w'. synchronize w = (Reply_Ok, w') \<longrightarrow> \<not> busy w')"

definition idle_or_ambiguous :: "('w \<Rightarrow> bool) \<Rightarrow> ('w, 'e completion_failure) closure \<Rightarrow> bool" where
  "idle_or_ambiguous busy synchronize \<longleftrightarrow> idle_after busy synchronize \<and>
     (\<forall>w w' e. synchronize w = (Reply_Err (Quiescent e), w') \<longrightarrow> \<not> busy w')"

lemma fallback_idle_or_ambiguous:
  assumes "idle_after busy primary" and "idle_after busy fallback"
  shows "idle_or_ambiguous busy (synchronize_with_fallback primary fallback combine)"
  using assms unfolding idle_or_ambiguous_def idle_after_def synchronize_with_fallback_def
  by (fastforce split: prod.splits reply.splits)

lemma idle_or_ambiguousD:
  "\<lbrakk>idle_or_ambiguous busy synchronize; synchronize w = (Reply_Ok, w')\<rbrakk> \<Longrightarrow> \<not> busy w'"
  "\<lbrakk>idle_or_ambiguous busy synchronize; synchronize w = (Reply_Err (Quiescent e), w')\<rbrakk> \<Longrightarrow> \<not> busy w'"
  unfolding idle_or_ambiguous_def idle_after_def by blast+

lemma complete_owned_safe:
  "\<lbrakk>idle_after busy synchronize; complete_owned drop_r r run synchronize w = (result, fate, w'); busy w'\<rbrakk> \<Longrightarrow> fate = Forgotten r"
  unfolding complete_owned_def idle_after_def
  by (auto split: prod.splits reply.splits)

lemma complete_owned_fate:
  "complete_owned drop_r r run synchronize w = (result, fate, w') \<Longrightarrow>
     (fate = Handed_Back r) = (result = Finished (Inr r)) \<and>
     fate \<in> {Handed_Back r, Destroyed r, Forgotten r}"
  unfolding complete_owned_def by (auto split: prod.splits reply.splits if_splits)

lemma complete_borrowed_safe:
  "\<lbrakk>idle_after busy synchronize; complete_borrowed run synchronize w = (result, w'); busy w'\<rbrakk> \<Longrightarrow> result = Aborted"
  unfolding complete_borrowed_def idle_after_def unwind_guarded_def
  by (auto split: prod.splits reply.splits)

lemma settle_borrowed_safe:
  "\<lbrakk>idle_or_ambiguous busy synchronize; settle_borrowed synchronize w = (result, w'); busy w'\<rbrakk> \<Longrightarrow> result = Aborted"
  unfolding settle_borrowed_def unwind_guarded_def
  by (auto dest: idle_or_ambiguousD split: prod.splits reply.splits completion_failure.splits)

lemma pending_drop_safe:
  "\<lbrakk>idle_or_ambiguous busy (synchronize c);
    pending_drop drop_r drop_c synchronize (pending_new r c) w = (result, fates, w')\<rbrakk> \<Longrightarrow>
     fates = ([Destroyed r], [Destroyed c]) \<and> \<not> busy w' \<or> fates = ([Forgotten r], [Forgotten c]) \<or>
     fates = ([Forgotten r], [Destroyed c]) \<and> drop_c c \<and> \<not> busy w'"
  unfolding pending_drop_def pending_new_def
  by (auto dest: idle_or_ambiguousD simp: destroy_both_def drop_fields_def retained_new_def retained_take_def retained_drop_def
      split: prod.splits reply.splits completion_failure.splits if_splits)

lemma pending_wait_safe:
  "\<lbrakk>idle_or_ambiguous busy (synchronize c);
    pending_wait drop_r drop_c synchronize (pending_new r c) w = (result, fates, w')\<rbrakk> \<Longrightarrow>
     result = Finished (Inr r) \<and> fates = ([Handed_Back r], [Destroyed c]) \<and> \<not> busy w' \<or>
     result \<noteq> Finished (Inr r) \<and> (fates = ([Destroyed r], [Destroyed c]) \<and> \<not> busy w' \<or>
       fates = ([Forgotten r], [Forgotten c]) \<or> fates = ([Forgotten r], [Destroyed c]) \<and> drop_c c \<and> \<not> busy w')"
  unfolding pending_wait_def pending_new_def
  by (auto dest: idle_or_ambiguousD simp: destroy_both_def drop_fields_def retained_new_def retained_take_def retained_drop_def
      split: prod.splits reply.splits completion_failure.splits process.splits if_splits)

section \<open>Property\<close>

text \<open>C40: resources are never released under a running backend.  If the synchronization primitives that
  report success really leave the backend idle, then in a world where the backend may still be busy the completion
  policy has forgotten the owned resources and has aborted the process rather than return over borrowed ones; this
  covers closures that fail or panic, waiting for and dropping a pending operation, and synchronization with a stronger
  fallback.  A pending operation that settles idle hands back or destroys its resources, and leaks them only when the
  destructor of its completion panics.\<close>

theorem policy_never_releases_while_busy:
  assumes "idle_after busy primary" and "idle_after busy fallback"
  shows "let synchronize = synchronize_with_fallback primary fallback combine in
    (case complete_owned drop_r r run primary w of (result, fate, w') \<Rightarrow>
       (\<not> busy w' \<or> fate = Forgotten r) \<and> (fate = Handed_Back r) = (result = Finished (Inr r))) \<and>
    (case complete_borrowed run primary w of (result, w') \<Rightarrow> \<not> busy w' \<or> result = Aborted) \<and>
    (case settle_borrowed synchronize w of (result, w') \<Rightarrow> \<not> busy w' \<or> result = Aborted) \<and>
    (case pending_drop drop_r drop_c (\<lambda>_. synchronize) (pending_new r c) w of (result, fates, w') \<Rightarrow>
       fates = ([Destroyed r], [Destroyed c]) \<and> \<not> busy w' \<or> fates = ([Forgotten r], [Forgotten c]) \<or>
       fates = ([Forgotten r], [Destroyed c]) \<and> drop_c c \<and> \<not> busy w') \<and>
    (case pending_wait drop_r drop_c (\<lambda>_. synchronize) (pending_new r c) w of (result, fates, w') \<Rightarrow>
       fates = ([if result = Finished (Inr r) then Handed_Back r else Destroyed r], [Destroyed c]) \<and> \<not> busy w' \<or>
       result \<noteq> Finished (Inr r) \<and>
         (fates = ([Forgotten r], [Forgotten c]) \<or> fates = ([Forgotten r], [Destroyed c]) \<and> drop_c c \<and> \<not> busy w'))"
proof -
  note sync = fallback_idle_or_ambiguous [OF assms, of combine]
  show ?thesis
    unfolding Let_def
    using complete_owned_safe [OF assms(1), of drop_r r run w] complete_owned_fate [of drop_r r run primary w]
      complete_borrowed_safe [OF assms(1), of run w] settle_borrowed_safe [OF sync, of w]
      pending_drop_safe [where synchronize = "\<lambda>_. synchronize_with_fallback primary fallback combine", OF sync, of drop_r drop_c r c w]
      pending_wait_safe [where synchronize = "\<lambda>_. synchronize_with_fallback primary fallback combine", OF sync, of drop_r drop_c r c w]
    by (auto split: prod.splits)
qed

definition demo_primary :: "(bool, nat) closure" where
  "demo_primary w = (Reply_Err 7, w)"

definition demo_fallback :: "(bool, nat) closure" where
  "demo_fallback w = (Reply_Ok, False)"

theorem policy_never_releases_while_busy_witness:
  "idle_after (\<lambda>w. w) demo_primary \<and> idle_after (\<lambda>w. w) demo_fallback \<and>
   complete_owned (\<lambda>_. False) ''buffer'' (\<lambda>w. (Reply_Err (), True)) demo_primary False =
     (Finished (Inl (OperationAndSynchronization () 7)), Forgotten ''buffer'', True) \<and>
   (case pending_wait (\<lambda>_. False) (\<lambda>_. False) (\<lambda>_. synchronize_with_fallback demo_primary demo_fallback (+)) (pending_new ''buffer'' ''event'') True of
      (result, fates, w') \<Rightarrow> fates = ([Destroyed ''buffer''], [Destroyed ''event'']) \<and> \<not> w')"
proof -
  have idle: "idle_after (\<lambda>w. w) demo_primary" "idle_after (\<lambda>w. w) demo_fallback"
    by (simp_all add: idle_after_def demo_primary_def demo_fallback_def)
  have run: "complete_owned (\<lambda>_. False) ''buffer'' (\<lambda>w. (Reply_Err (), True)) demo_primary False =
     (Finished (Inl (OperationAndSynchronization () 7)), Forgotten ''buffer'', True)"
    by (simp add: complete_owned_def demo_primary_def)
  have "pending_wait (\<lambda>_. False) (\<lambda>_. False) (\<lambda>_. synchronize_with_fallback demo_primary demo_fallback (+)) (pending_new ''buffer'' ''event'') True =
     (Finished (Inl 7), ([Destroyed ''buffer''], [Destroyed ''event'']), False)"
    by (simp add: pending_wait_def pending_new_def synchronize_with_fallback_def demo_primary_def demo_fallback_def
        destroy_both_def retained_new_def retained_take_def)
  then show ?thesis
    using policy_never_releases_while_busy [OF idle, where combine = "(+)" and drop_r = "\<lambda>_. False" and drop_c = "\<lambda>_. False" and
        r = "''buffer''" and c = "''event''" and run = "\<lambda>w. (Reply_Err (), True)" and w = True]
      idle run by simp
qed

end
