(* ===== verification/Operation_Lifecycle.thy ===== *)
theory Operation_Lifecycle
  imports Completion_Policy
begin

text \<open>
  The lifecycle of one submitted operation and the bounded quarantine, after
  \<open>fe2o3-completion/src/lifecycle.rs\<close>: which states grant reclamation, who holds the resources, and the
  shared form behind a mutex, where a panic under the lock poisons every later access.
\<close>

section \<open>States and errors\<close>

definition MAX_QUARANTINED_OPERATIONS :: nat where
  "MAX_QUARANTINED_OPERATIONS = 4096"

datatype quarantine_ticket = QuarantineTicket (ticket: u64)

datatype leak_reason = QuarantineFull | QuarantineAllocationFailed | QuarantineTicketExhausted

datatype 'e operation_state =
    Submitted
  | CancelRequested
  | Completed
  | Failed 'e
  | StreamQuiesced
  | Quarantined quarantine_ticket
  | Leaked leak_reason

datatype terminal_state = T_Completed | T_Failed | T_StreamQuiesced | T_Quarantined | T_Leaked

fun is_quiescent :: "'e operation_state \<Rightarrow> bool" where
  "is_quiescent Completed = True"
| "is_quiescent (Failed _) = True"
| "is_quiescent StreamQuiesced = True"
| "is_quiescent _ = False"

fun terminal_state_of :: "'e operation_state \<Rightarrow> terminal_state option" where
  "terminal_state_of Submitted = None"
| "terminal_state_of CancelRequested = None"
| "terminal_state_of Completed = Some T_Completed"
| "terminal_state_of (Failed _) = Some T_Failed"
| "terminal_state_of StreamQuiesced = Some T_StreamQuiesced"
| "terminal_state_of (Quarantined _) = Some T_Quarantined"
| "terminal_state_of (Leaked _) = Some T_Leaked"

datatype lifecycle_transition_error = TransitionError terminal_state

datatype 'c cancel_request_error = Request 'c | Terminal terminal_state

datatype 'c notification_error = Transition lifecycle_transition_error | Callback 'c

datatype retention_outcome = Retention_Quarantined quarantine_ticket | Retention_Leaked leak_reason

datatype quarantine_capacity_error = QuarantineCapacityError (requested: nat) (maximum: nat)

datatype reclaim_error =
    NotQuiescent
  | Reclaim_Quarantined quarantine_ticket
  | Reclaim_Leaked leak_reason
  | AlreadyReclaimed

section \<open>Quarantine\<close>

record 'r bounded_quarantine =
  entries :: "'r retained list"
  quarantine_capacity :: nat
  next_ticket :: u64

definition quarantine_new :: "nat \<Rightarrow> quarantine_capacity_error + 'r bounded_quarantine" where
  "quarantine_new capacity =
     (if MAX_QUARANTINED_OPERATIONS < capacity
      then Inl (QuarantineCapacityError capacity MAX_QUARANTINED_OPERATIONS)
      else Inr \<lparr>entries = [], quarantine_capacity = capacity, next_ticket = 0\<rparr>)"

definition quarantine_len :: "'r bounded_quarantine \<Rightarrow> nat" where
  "quarantine_len q = length (entries q)"

definition quarantine_is_empty :: "'r bounded_quarantine \<Rightarrow> bool" where
  "quarantine_is_empty q \<longleftrightarrow> entries q = []"

text \<open>Taking an entry that holds nothing panics; the drain drops the rest either way.\<close>

definition release_after_stream_quiescence :: "'r bounded_quarantine \<Rightarrow> 'r list process \<times> 'r bounded_quarantine" where
  "release_after_stream_quiescence q =
     (case those (map (\<lambda>x. case retained_take x of (Finished r, _) \<Rightarrow> Some r | _ \<Rightarrow> None) (entries q)) of
        Some rs \<Rightarrow> (Finished rs, q\<lparr>entries := []\<rparr>)
      | None \<Rightarrow> (Unwinding, q\<lparr>entries := []\<rparr>))"

text \<open>\<open>allocated\<close> is the answer of \<open>try_reserve\<close>.\<close>

definition reserve_ticket :: "bool \<Rightarrow> 'r bounded_quarantine \<Rightarrow>
    (leak_reason + quarantine_ticket) \<times> 'r bounded_quarantine" where
  "reserve_ticket allocated q =
     (if quarantine_capacity q \<le> length (entries q) then (Inl QuarantineFull, q)
      else (case checked_add (next_ticket q) 1 of
          None \<Rightarrow> (Inl QuarantineTicketExhausted, q)
        | Some next_id \<Rightarrow>
            if \<not> allocated then (Inl QuarantineAllocationFailed, q)
            else (Inr (QuarantineTicket (next_ticket q)), q\<lparr>next_ticket := next_id\<rparr>)))"

definition insert_reserved :: "'r bounded_quarantine \<Rightarrow> 'r \<Rightarrow> 'r bounded_quarantine" where
  "insert_reserved q r = q\<lparr>entries := entries q @ [retained_new r]\<rparr>"

section \<open>Lifecycle\<close>

record ('r, 'e) operation_lifecycle =
  life_resources :: "'r retained"
  life_state :: "'e operation_state"

definition submitted :: "'r \<Rightarrow> ('r, 'e) operation_lifecycle" where
  "submitted r = \<lparr>life_resources = retained_new r, life_state = Submitted\<rparr>"

definition request_cancel_with :: "('r, 'e) operation_lifecycle \<Rightarrow> ('w, 'c) closure \<Rightarrow> 'w \<Rightarrow>
    ('c cancel_request_error + bool) process \<times> ('r, 'e) operation_lifecycle \<times> 'w" where
  "request_cancel_with l request w =
     (case terminal_state_of (life_state l) of
        Some terminal \<Rightarrow> (Finished (Inl (Terminal terminal)), l, w)
      | None \<Rightarrow>
          (case life_state l of
             CancelRequested \<Rightarrow> (Finished (Inr False), l, w)
           | _ \<Rightarrow>
               (case request w of
                  (Reply_Err e, w) \<Rightarrow> (Finished (Inl (Request e)), l, w)
                | (Reply_Panic, w) \<Rightarrow> (Unwinding, l, w)
                | (Reply_Ok, w) \<Rightarrow> (Finished (Inr True), l\<lparr>life_state := CancelRequested\<rparr>, w))))"

definition transition_to :: "('r, 'e) operation_lifecycle \<Rightarrow> 'e operation_state \<Rightarrow>
    (lifecycle_transition_error + unit) \<times> ('r, 'e) operation_lifecycle" where
  "transition_to l next =
     (case terminal_state_of (life_state l) of
        Some terminal \<Rightarrow> (Inl (TransitionError terminal), l)
      | None \<Rightarrow> (Inr (), l\<lparr>life_state := next\<rparr>))"

definition complete :: "('r, 'e) operation_lifecycle \<Rightarrow> (lifecycle_transition_error + unit) \<times> ('r, 'e) operation_lifecycle" where
  "complete l = transition_to l Completed"

definition fail :: "('r, 'e) operation_lifecycle \<Rightarrow> 'e \<Rightarrow>
    (lifecycle_transition_error + unit) \<times> ('r, 'e) operation_lifecycle" where
  "fail l error = transition_to l (Failed error)"

definition mark_stream_quiesced :: "('r, 'e) operation_lifecycle \<Rightarrow>
    (lifecycle_transition_error + unit) \<times> ('r, 'e) operation_lifecycle" where
  "mark_stream_quiesced l = transition_to l StreamQuiesced"

text \<open>The shape the three notifying transitions share: the state is recorded before the callback runs.\<close>

definition notify_after :: "(lifecycle_transition_error + unit) \<times> ('r, 'e) operation_lifecycle \<Rightarrow>
    ('e operation_state \<Rightarrow> ('w, 'c) closure) \<Rightarrow> 'w \<Rightarrow>
    ('c notification_error + unit) process \<times> ('r, 'e) operation_lifecycle \<times> 'w" where
  "notify_after transition notify w =
     (case transition of
        (Inl error, l) \<Rightarrow> (Finished (Inl (Transition error)), l, w)
      | (Inr _, l) \<Rightarrow>
          (case notify (life_state l) w of
             (Reply_Ok, w) \<Rightarrow> (Finished (Inr ()), l, w)
           | (Reply_Err e, w) \<Rightarrow> (Finished (Inl (Callback e)), l, w)
           | (Reply_Panic, w) \<Rightarrow> (Unwinding, l, w)))"

definition complete_with_notification where
  "complete_with_notification l notify w = notify_after (complete l) notify w"

definition fail_with_notification where
  "fail_with_notification l error notify w = notify_after (fail l error) notify w"

definition stream_quiesced_with_notification where
  "stream_quiesced_with_notification l notify w = notify_after (mark_stream_quiesced l) notify w"

definition abandon_to_quarantine :: "('r, 'e) operation_lifecycle \<Rightarrow> bool \<Rightarrow> 'r bounded_quarantine \<Rightarrow>
    (lifecycle_transition_error + retention_outcome) process \<times> ('r, 'e) operation_lifecycle \<times> 'r bounded_quarantine" where
  "abandon_to_quarantine l allocated q =
     (case terminal_state_of (life_state l) of
        Some terminal \<Rightarrow> (Finished (Inl (TransitionError terminal)), l, q)
      | None \<Rightarrow>
          (case reserve_ticket allocated q of
             (Inr t, q) \<Rightarrow>
               (case try_take (life_resources l) of
                  (None, rest) \<Rightarrow> (Unwinding, l\<lparr>life_resources := rest\<rparr>, q)
                | (Some r, rest) \<Rightarrow>
                    (Finished (Inr (Retention_Quarantined t)),
                     l\<lparr>life_resources := rest, life_state := Quarantined t\<rparr>, insert_reserved q r))
           | (Inl reason, q) \<Rightarrow>
               (Finished (Inr (Retention_Leaked reason)), l\<lparr>life_state := Leaked reason\<rparr>, q)))"

definition reclaim :: "('r, 'e) operation_lifecycle \<Rightarrow> (reclaim_error + 'r) \<times> ('r, 'e) operation_lifecycle" where
  "reclaim l =
     (case life_state l of
        Submitted \<Rightarrow> (Inl NotQuiescent, l)
      | CancelRequested \<Rightarrow> (Inl NotQuiescent, l)
      | Quarantined t \<Rightarrow> (Inl (Reclaim_Quarantined t), l)
      | Leaked reason \<Rightarrow> (Inl (Reclaim_Leaked reason), l)
      | _ \<Rightarrow> (case try_take (life_resources l) of
          (taken, rest) \<Rightarrow> (ok_or taken AlreadyReclaimed, l\<lparr>life_resources := rest\<rparr>)))"

text \<open>\<open>Drop\<close>: destroys what a quiescent lifecycle holds; otherwise the retained field forgets it.\<close>

definition lifecycle_drop :: "('r, 'e) operation_lifecycle \<Rightarrow> 'r fate list" where
  "lifecycle_drop l =
     (if is_quiescent (life_state l)
      then (case try_take (life_resources l) of
          (Some r, rest) \<Rightarrow> Destroyed r # retained_drop rest
        | (None, rest) \<Rightarrow> retained_drop rest)
      else retained_drop (life_resources l))"

section \<open>Shared lifecycle\<close>

datatype 'x synchronized_lifecycle_error = Poisoned | Lifecycle 'x

record ('r, 'e) concurrent_lifecycle =
  inner :: "('r, 'e) operation_lifecycle"
  poisoned :: bool

definition shared_submitted :: "'r \<Rightarrow> ('r, 'e) concurrent_lifecycle" where
  "shared_submitted r = \<lparr>inner = submitted r, poisoned = False\<rparr>"

definition lock :: "('r, 'e) concurrent_lifecycle \<Rightarrow> ('r, 'e) operation_lifecycle option" where
  "lock c = (if poisoned c then None else Some (inner c))"

text \<open>The guard's drop: a panic while it is held poisons the mutex.\<close>

definition unlock :: "('r, 'e) concurrent_lifecycle \<Rightarrow> 'a process \<Rightarrow> ('r, 'e) operation_lifecycle \<Rightarrow>
    ('r, 'e) concurrent_lifecycle" where
  "unlock c result l =
     c\<lparr>inner := l, poisoned := (case result of Finished _ \<Rightarrow> poisoned c | _ \<Rightarrow> True)\<rparr>"

fun map_process :: "('a \<Rightarrow> 'b) \<Rightarrow> 'a process \<Rightarrow> 'b process" where
  "map_process f (Finished x) = Finished (f x)"
| "map_process f Unwinding = Unwinding"
| "map_process f Aborted = Aborted"

abbreviation lifecycle_err :: "'x + 'a \<Rightarrow> 'x synchronized_lifecycle_error + 'a" where
  "lifecycle_err r \<equiv> map_err Lifecycle r"

definition shared_state :: "('r, 'e) concurrent_lifecycle \<Rightarrow> 'e operation_state option" where
  "shared_state c = map_option life_state (lock c)"

definition shared_inspect :: "('r, 'e) concurrent_lifecycle \<Rightarrow> ('e operation_state \<Rightarrow> 'w \<Rightarrow> 'a process \<times> 'w) \<Rightarrow> 'w \<Rightarrow>
    'a option process \<times> ('r, 'e) concurrent_lifecycle \<times> 'w" where
  "shared_inspect c f w =
     (case lock c of
        None \<Rightarrow> (Finished None, c, w)
      | Some l \<Rightarrow> (case f (life_state l) w of (result, w) \<Rightarrow> (map_process Some result, unlock c result l, w)))"

definition shared_request_cancel_with :: "('r, 'e) concurrent_lifecycle \<Rightarrow> ('w, 'c) closure \<Rightarrow> 'w \<Rightarrow>
    ('c cancel_request_error synchronized_lifecycle_error + bool) process \<times> ('r, 'e) concurrent_lifecycle \<times> 'w" where
  "shared_request_cancel_with c request w =
     (case lock c of
        None \<Rightarrow> (Finished (Inl Poisoned), c, w)
      | Some l \<Rightarrow> (case request_cancel_with l request w of
          (result, l, w) \<Rightarrow> (map_process lifecycle_err result, unlock c result l, w)))"

definition shared_transition :: "('r, 'e) concurrent_lifecycle \<Rightarrow>
    (('r, 'e) operation_lifecycle \<Rightarrow> ('x + 'a) \<times> ('r, 'e) operation_lifecycle) \<Rightarrow>
    ('x synchronized_lifecycle_error + 'a) \<times> ('r, 'e) concurrent_lifecycle" where
  "shared_transition c f =
     (case lock c of
        None \<Rightarrow> (Inl Poisoned, c)
      | Some l \<Rightarrow> (case f l of (result, l) \<Rightarrow> (lifecycle_err result, unlock c (Finished ()) l)))"

definition shared_complete where
  "shared_complete c = shared_transition c complete"

definition shared_fail where
  "shared_fail c error = shared_transition c (\<lambda>l. fail l error)"

definition shared_mark_stream_quiesced where
  "shared_mark_stream_quiesced c = shared_transition c mark_stream_quiesced"

text \<open>The lock is released before the callback runs, so a panic there does not poison.\<close>

definition shared_notify :: "(lifecycle_transition_error synchronized_lifecycle_error + unit) \<times> ('r, 'e) concurrent_lifecycle \<Rightarrow>
    ('e operation_state \<Rightarrow> ('w, 'c) closure) \<Rightarrow> 'w \<Rightarrow>
    ('c notification_error synchronized_lifecycle_error + unit) process \<times> ('r, 'e) concurrent_lifecycle \<times> 'w" where
  "shared_notify transition notify w =
     (case transition of
        (Inl Poisoned, c) \<Rightarrow> (Finished (Inl Poisoned), c, w)
      | (Inl (Lifecycle error), c) \<Rightarrow> (Finished (Inl (Lifecycle (Transition error))), c, w)
      | (Inr _, c) \<Rightarrow>
          (case notify (life_state (inner c)) w of
             (Reply_Ok, w) \<Rightarrow> (Finished (Inr ()), c, w)
           | (Reply_Err e, w) \<Rightarrow> (Finished (Inl (Lifecycle (Callback e))), c, w)
           | (Reply_Panic, w) \<Rightarrow> (Unwinding, c, w)))"

definition shared_complete_with_notification where
  "shared_complete_with_notification c notify w = shared_notify (shared_complete c) notify w"

definition shared_fail_with_notification where
  "shared_fail_with_notification c error notify w = shared_notify (shared_fail c error) notify w"

definition shared_stream_quiesced_with_notification where
  "shared_stream_quiesced_with_notification c notify w = shared_notify (shared_mark_stream_quiesced c) notify w"

definition shared_abandon_to_quarantine :: "('r, 'e) concurrent_lifecycle \<Rightarrow> bool \<Rightarrow> 'r bounded_quarantine \<Rightarrow>
    (lifecycle_transition_error synchronized_lifecycle_error + retention_outcome) process \<times>
    ('r, 'e) concurrent_lifecycle \<times> 'r bounded_quarantine" where
  "shared_abandon_to_quarantine c allocated q =
     (case lock c of
        None \<Rightarrow> (Finished (Inl Poisoned), c, q)
      | Some l \<Rightarrow> (case abandon_to_quarantine l allocated q of
          (result, l, q) \<Rightarrow> (map_process lifecycle_err result, unlock c result l, q)))"

definition shared_reclaim :: "('r, 'e) concurrent_lifecycle \<Rightarrow>
    (reclaim_error synchronized_lifecycle_error + 'r) \<times> ('r, 'e) concurrent_lifecycle" where
  "shared_reclaim c = shared_transition c reclaim"

end
