(* ===== verification/Operation_Fleet.thy ===== *)
theory Operation_Fleet
  imports Operation_Lifecycle "HOL-Library.Multiset"
begin

text \<open>
  Any number of shared lifecycles around one quarantine, driven by any interleaving of their operations: each operation
  runs under its lifecycle's lock, so an interleaving of threads is a sequence of \<open>fleet_step\<close>s.  The fleet
  keeps a journal of what its callbacks saw and what was handed out.  Every step is one of nine moves, and the
  invariants are proved over the moves.
\<close>

section \<open>A fleet of operations sharing one quarantine\<close>

record ('r, 'e, 'c) fleet =
  members :: "('r, 'e) concurrent_lifecycle list"
  quarantine :: "'r bounded_quarantine"
  admitted :: "'r list"
  cancels :: "(nat \<times> 'c reply) list"
  notices :: "(nat \<times> 'e operation_state) list"
  handed :: "(nat \<times> 'r) list"
  released :: "'r list"

datatype ('r, 'e, 'c) fleet_op =
    Submit_Op 'r
  | Cancel_Op nat "'c reply"
  | Complete_Op nat
  | Fail_Op nat 'e
  | Quiesce_Op nat
  | Complete_Notify_Op nat "'c reply"
  | Fail_Notify_Op nat 'e "'c reply"
  | Quiesce_Notify_Op nat "'c reply"
  | Inspect_Op nat "unit process"
  | Abandon_Op nat bool
  | Reclaim_Op nat
  | Release_Op

definition on_member :: "('r, 'e, 'c) fleet \<Rightarrow> nat \<Rightarrow> (('r, 'e) concurrent_lifecycle \<Rightarrow> ('r, 'e, 'c) fleet) \<Rightarrow>
    ('r, 'e, 'c) fleet" where
  "on_member f i g = (if i < length (members f) then g (members f ! i) else f)"

abbreviation put :: "('r, 'e, 'c) fleet \<Rightarrow> nat \<Rightarrow> ('r, 'e) concurrent_lifecycle \<Rightarrow> ('r, 'e, 'c) fleet" where
  "put f i c \<equiv> f\<lparr>members := (members f)[i := c]\<rparr>"

text \<open>The callbacks of a run: each records that it ran, then answers as the run says.\<close>

abbreviation cancel_callback :: "nat \<Rightarrow> 'c reply \<Rightarrow> ((nat \<times> 'c reply) list, 'c) closure" where
  "cancel_callback i reply \<equiv> \<lambda>w. (reply, w @ [(i, reply)])"

abbreviation notice_callback :: "nat \<Rightarrow> 'c reply \<Rightarrow> 'e operation_state \<Rightarrow>
    ((nat \<times> 'e operation_state) list, 'c) closure" where
  "notice_callback i reply \<equiv> \<lambda>s w. (reply, w @ [(i, s)])"

fun fleet_step :: "('r, 'e, 'c) fleet_op \<Rightarrow> ('r, 'e, 'c) fleet \<Rightarrow> ('r, 'e, 'c) fleet" where
  "fleet_step (Submit_Op r) f = f\<lparr>members := members f @ [shared_submitted r], admitted := admitted f @ [r]\<rparr>"
| "fleet_step (Cancel_Op i reply) f = on_member f i (\<lambda>c.
     case shared_request_cancel_with c (cancel_callback i reply) (cancels f) of
       (_, c, w) \<Rightarrow> (put f i c)\<lparr>cancels := w\<rparr>)"
| "fleet_step (Complete_Op i) f = on_member f i (\<lambda>c. put f i (snd (shared_complete c)))"
| "fleet_step (Fail_Op i e) f = on_member f i (\<lambda>c. put f i (snd (shared_fail c e)))"
| "fleet_step (Quiesce_Op i) f = on_member f i (\<lambda>c. put f i (snd (shared_mark_stream_quiesced c)))"
| "fleet_step (Complete_Notify_Op i reply) f = on_member f i (\<lambda>c.
     case shared_complete_with_notification c (notice_callback i reply) (notices f) of
       (_, c, w) \<Rightarrow> (put f i c)\<lparr>notices := w\<rparr>)"
| "fleet_step (Fail_Notify_Op i e reply) f = on_member f i (\<lambda>c.
     case shared_fail_with_notification c e (notice_callback i reply) (notices f) of
       (_, c, w) \<Rightarrow> (put f i c)\<lparr>notices := w\<rparr>)"
| "fleet_step (Quiesce_Notify_Op i reply) f = on_member f i (\<lambda>c.
     case shared_stream_quiesced_with_notification c (notice_callback i reply) (notices f) of
       (_, c, w) \<Rightarrow> (put f i c)\<lparr>notices := w\<rparr>)"
| "fleet_step (Inspect_Op i reply) f = on_member f i (\<lambda>c.
     case shared_inspect c (\<lambda>_ w. (reply, w)) () of (_, c, _) \<Rightarrow> put f i c)"
| "fleet_step (Abandon_Op i allocated) f = on_member f i (\<lambda>c.
     case shared_abandon_to_quarantine c allocated (quarantine f) of
       (_, c, q) \<Rightarrow> (put f i c)\<lparr>quarantine := q\<rparr>)"
| "fleet_step (Reclaim_Op i) f = on_member f i (\<lambda>c.
     case shared_reclaim c of
       (Inr r, c) \<Rightarrow> (put f i c)\<lparr>handed := handed f @ [(i, r)]\<rparr>
     | (Inl _, c) \<Rightarrow> put f i c)"
| "fleet_step Release_Op f =
     (case release_after_stream_quiescence (quarantine f) of
        (Finished rs, q) \<Rightarrow> f\<lparr>quarantine := q, released := released f @ rs\<rparr>
      | (_, q) \<Rightarrow> f\<lparr>quarantine := q\<rparr>)"

definition fleet_new :: "'r bounded_quarantine \<Rightarrow> ('r, 'e, 'c) fleet" where
  "fleet_new q = \<lparr>members = [], quarantine = q, admitted = [], cancels = [], notices = [], handed = [], released = []\<rparr>"

section \<open>Moves\<close>

abbreviation state_at :: "('r, 'e, 'c) fleet \<Rightarrow> nat \<Rightarrow> 'e operation_state" where
  "state_at f i \<equiv> life_state (inner (members f ! i))"

abbreviation held_at :: "('r, 'e, 'c) fleet \<Rightarrow> nat \<Rightarrow> 'r retained" where
  "held_at f i \<equiv> life_resources (inner (members f ! i))"

abbreviation live_at :: "('r, 'e, 'c) fleet \<Rightarrow> nat \<Rightarrow> bool" where
  "live_at f i \<equiv> i < length (members f) \<and> terminal_state_of (state_at f i) = None"

inductive fleet_move :: "('r, 'e, 'c) fleet \<Rightarrow> ('r, 'e, 'c) fleet \<Rightarrow> bool" where
  move_none: "fleet_move f f"
| move_submit: "fleet_move f (f\<lparr>members := members f @ [shared_submitted r], admitted := admitted f @ [r]\<rparr>)"
| move_poison: "\<lbrakk>i < length (members f); inner c = inner (members f ! i); list_all (\<lambda>(_, reply). reply \<noteq> Reply_Ok) log\<rbrakk> \<Longrightarrow>
    fleet_move f ((put f i c)\<lparr>cancels := cancels f @ log\<rparr>)"
| move_cancel: "\<lbrakk>i < length (members f); state_at f i = Submitted; life_state (inner c) = CancelRequested;
    life_resources (inner c) = held_at f i\<rbrakk> \<Longrightarrow>
    fleet_move f ((put f i c)\<lparr>cancels := cancels f @ [(i, Reply_Ok)]\<rparr>)"
| move_finish: "\<lbrakk>live_at f i; is_quiescent (life_state (inner c)); life_resources (inner c) = held_at f i;
    log = [] \<or> log = [(i, life_state (inner c))]\<rbrakk> \<Longrightarrow>
    fleet_move f ((put f i c)\<lparr>notices := notices f @ log\<rparr>)"
| move_quarantine: "\<lbrakk>live_at f i; held_at f i = Some r; reserve_ticket True (quarantine f) = (Inr t, q);
    life_state (inner c) = Quarantined t; life_resources (inner c) = None\<rbrakk> \<Longrightarrow>
    fleet_move f ((put f i c)\<lparr>quarantine := insert_reserved q r\<rparr>)"
| move_leak: "\<lbrakk>live_at f i; life_state (inner c) = Leaked reason; life_resources (inner c) = held_at f i\<rbrakk> \<Longrightarrow>
    fleet_move f (put f i c)"
| move_reclaim: "\<lbrakk>i < length (members f); is_quiescent (state_at f i); held_at f i = Some r;
    life_state (inner c) = state_at f i; life_resources (inner c) = None\<rbrakk> \<Longrightarrow>
    fleet_move f ((put f i c)\<lparr>handed := handed f @ [(i, r)]\<rparr>)"
| move_release: "\<lbrakk>entries (quarantine f) = map Some rs\<rbrakk> \<Longrightarrow>
    fleet_move f (f\<lparr>quarantine := (quarantine f)\<lparr>entries := []\<rparr>, released := released f @ rs\<rparr>)"

section \<open>Invariant\<close>

definition member_ok :: "('r, 'e) operation_lifecycle \<Rightarrow> bool" where
  "member_ok l \<longleftrightarrow> (case life_state l of
     Quarantined _ \<Rightarrow> life_resources l = None
   | s \<Rightarrow> is_quiescent s \<or> life_resources l \<noteq> None)"

definition holdings :: "('r, 'e, 'c) fleet \<Rightarrow> 'r multiset" where
  "holdings f = mset (List.map_filter (\<lambda>c. life_resources (inner c)) (members f)) +
     mset (List.map_filter (\<lambda>x. x) (entries (quarantine f))) + mset (map snd (handed f)) + mset (released f)"

definition quarantine_ok :: "'r bounded_quarantine \<Rightarrow> bool" where
  "quarantine_ok q \<longleftrightarrow> length (entries q) \<le> quarantine_capacity q \<and>
     quarantine_capacity q \<le> MAX_QUARANTINED_OPERATIONS \<and> None \<notin> set (entries q)"

definition fleet_ok :: "('r, 'e, 'c) fleet \<Rightarrow> bool" where
  "fleet_ok f \<longleftrightarrow> (\<forall>c\<in>set (members f). member_ok (inner c)) \<and> quarantine_ok (quarantine f) \<and>
     mset (admitted f) = holdings f"

lemma map_filter_append [simp]: "List.map_filter g (xs @ ys) = List.map_filter g xs @ List.map_filter g ys"
  by (simp add: map_filter_def)

lemma mset_map_filter_update:
  "i < length xs \<Longrightarrow>
     mset (List.map_filter g (xs[i := y])) + (case g (xs ! i) of None \<Rightarrow> {#} | Some r \<Rightarrow> {#r#}) =
     mset (List.map_filter g xs) + (case g y of None \<Rightarrow> {#} | Some r \<Rightarrow> {#r#})"
proof (induction xs arbitrary: i)
  case (Cons x xs)
  show ?case
  proof (cases i)
    case 0
    then show ?thesis
      by (simp add: List.map_filter_simps split: option.splits)
  next
    case (Suc j)
    then show ?thesis
      using Cons.IH [of j] Cons.prems by (simp add: List.map_filter_simps split: option.splits)
  qed
qed simp

lemma update_same_held:
  "\<lbrakk>i < length xs; g y = g (xs ! i)\<rbrakk> \<Longrightarrow>
     mset (List.map_filter g (xs[i := y])) = mset (List.map_filter g xs)"
  using mset_map_filter_update [of i xs g y] by (auto split: option.splits)

lemma update_taken:
  "\<lbrakk>i < length xs; g (xs ! i) = Some r; g y = None\<rbrakk> \<Longrightarrow>
     mset (List.map_filter g xs) = add_mset r (mset (List.map_filter g (xs[i := y])))"
  using mset_map_filter_update [of i xs g y] by simp

lemma ball_update: "\<lbrakk>\<forall>x\<in>set xs. P x; P y\<rbrakk> \<Longrightarrow> \<forall>x\<in>set (xs[i := y]). P x"
  using set_update_subset_insert by fastforce

lemma map_filter_map_Some: "List.map_filter (\<lambda>x. x) (map Some rs) = rs"
  by (simp add: map_filter_def o_def)

lemma reserve_ticket_Inr:
  "reserve_ticket allocated q = (Inr t, q') \<Longrightarrow> length (entries q) < quarantine_capacity q \<and> allocated \<and>
     t = QuarantineTicket (next_ticket q) \<and> q' = q\<lparr>next_ticket := next_ticket q + 1\<rparr> \<and>
     unat (next_ticket q + 1) = Suc (unat (next_ticket q))"
  using unat_plus_no_overflow [of "next_ticket q" 1]
  by (auto simp: reserve_ticket_def checked_add_def split: if_splits)

lemma member_ok_live: "\<lbrakk>member_ok l; terminal_state_of (life_state l) = None\<rbrakk> \<Longrightarrow> \<exists>r. life_resources l = Some r"
  by (cases "life_state l") (auto simp: member_ok_def)

lemma members_ok_put:
  "\<lbrakk>fleet_ok f; member_ok (inner c)\<rbrakk> \<Longrightarrow> \<forall>c\<in>set ((members f)[i := c]). member_ok (inner c)"
  unfolding fleet_ok_def by (intro ball_update) simp_all

lemma fleet_ok_put:
  assumes "fleet_ok f" and "i < length (members f)" and "member_ok (inner c)"
    and "life_resources (inner c) = held_at f i"
  shows "fleet_ok (put f i c)"
  using members_ok_put [OF assms(1,3)] assms(1,2,4)
  by (simp add: fleet_ok_def holdings_def update_same_held)

lemma fleet_ok_taken:
  assumes "fleet_ok f" and "i < length (members f)" and "held_at f i = Some r"
    and "member_ok (inner c)" and "life_resources (inner c) = None"
  shows "\<forall>c\<in>set ((members f)[i := c]). member_ok (inner c)"
    "mset (admitted f) = add_mset r (holdings (put f i c))"
  using members_ok_put [OF assms(1,4)] assms(1) update_taken [OF assms(2), of "\<lambda>c. life_resources (inner c)" r c] assms(3,5)
  by (simp_all add: fleet_ok_def holdings_def)

lemma fleet_live_held: "\<lbrakk>fleet_ok f; live_at f i\<rbrakk> \<Longrightarrow> \<exists>r. held_at f i = Some r"
  using member_ok_live [of "inner (members f ! i)"] by (simp add: fleet_ok_def)

lemma fleet_move_ok:
  assumes "fleet_move f f'" and ok: "fleet_ok f"
  shows "fleet_ok f'"
  using assms
proof (induction rule: fleet_move.induct)
  case (move_quarantine f i r t q c)
  have "member_ok (inner c)"
    using move_quarantine(4,5) by (simp add: member_ok_def)
  then show ?case
    using fleet_ok_taken [OF move_quarantine(6) _ move_quarantine(2) _ move_quarantine(5)] move_quarantine(1,6)
      reserve_ticket_Inr [OF move_quarantine(3)]
    by (auto simp: fleet_ok_def holdings_def quarantine_ok_def insert_reserved_def retained_new_def
        List.map_filter_simps)
next
  case (move_reclaim i f r c)
  then have "member_ok (inner c)"
    by (cases "state_at f i") (auto simp: member_ok_def)
  then show ?case
    using fleet_ok_taken [OF move_reclaim(6,1,3) _ move_reclaim(5)] move_reclaim(6)
    by (simp add: fleet_ok_def holdings_def)
next
  case (move_release f rs)
  then show ?case
    by (auto simp: fleet_ok_def holdings_def quarantine_ok_def map_filter_map_Some List.map_filter_simps)
next
  case (move_submit f r)
  then show ?case
    by (auto simp: fleet_ok_def holdings_def shared_submitted_def submitted_def member_ok_def retained_new_def
        List.map_filter_simps)
next
  case (move_poison i f c log)
  then have "fleet_ok (put f i c)"
    by (intro fleet_ok_put) (simp_all add: fleet_ok_def)
  then show ?case
    by (simp add: fleet_ok_def holdings_def)
next
  case (move_cancel i f c)
  then have "member_ok (inner c)"
    using fleet_live_held [of f i] by (auto simp: member_ok_def)
  then have "fleet_ok (put f i c)"
    using move_cancel by (intro fleet_ok_put)
  then show ?case
    by (simp add: fleet_ok_def holdings_def)
next
  case (move_finish f i c log)
  then have "member_ok (inner c)"
    by (cases "life_state (inner c)") (auto simp: member_ok_def)
  then have "fleet_ok (put f i c)"
    using move_finish by (intro fleet_ok_put) simp_all
  then show ?case
    by (simp add: fleet_ok_def holdings_def)
next
  case (move_leak f i c reason)
  then have "member_ok (inner c)"
    using fleet_live_held [of f i] by (auto simp: member_ok_def)
  then show ?case
    using move_leak by (intro fleet_ok_put) simp_all
qed simp

section \<open>Steps are moves\<close>

lemma move_same: "\<lbrakk>i < length (members f); inner c = inner (members f ! i)\<rbrakk> \<Longrightarrow> fleet_move f (put f i c)"
  using move_poison [of i f c "[]"] by simp

lemma move_finish_silent:
  "\<lbrakk>live_at f i; is_quiescent (life_state (inner c)); life_resources (inner c) = held_at f i\<rbrakk> \<Longrightarrow> fleet_move f (put f i c)"
  using move_finish [of i f c "[]"] by simp

lemma shared_transition_to_moves:
  assumes "i < length (members f)" and "is_quiescent next"
  shows "fleet_move f (put f i (snd (shared_transition (members f ! i) (\<lambda>l. transition_to l next))))"
  using assms move_same [of i f] move_finish_silent [of i f]
  by (auto simp: shared_transition_def lock_def unlock_def transition_to_def intro: move_none split: option.splits)

lemma shared_notify_moves:
  assumes "i < length (members f)" and "is_quiescent next"
    and "shared_notify (shared_transition (members f ! i) (\<lambda>l. transition_to l next)) (notice_callback i reply) (notices f) =
      (result, c, w)"
  shows "fleet_move f ((put f i c)\<lparr>notices := w\<rparr>)"
proof (cases "poisoned (members f ! i) \<or> terminal_state_of (state_at f i) \<noteq> None")
  case True
  then have "inner c = inner (members f ! i)" "w = notices f"
    using assms(3)
    by (auto simp: shared_notify_def shared_transition_def lock_def unlock_def transition_to_def split: if_splits)
  then show ?thesis
    using move_same [OF assms(1)] by simp
next
  case False
  then have "inner c = (inner (members f ! i))\<lparr>life_state := next\<rparr>" "w = notices f @ [(i, next)]"
    using assms(3)
    by (cases reply; auto simp: shared_notify_def shared_transition_def lock_def unlock_def transition_to_def)+
  then show ?thesis
    using move_finish [of i f c "[(i, next)]"] False assms(1,2) by simp
qed

lemma cancel_moves:
  assumes "i < length (members f)"
    and "shared_request_cancel_with (members f ! i) (cancel_callback i reply) (cancels f) = (result, c, w)"
  shows "fleet_move f ((put f i c)\<lparr>cancels := w\<rparr>)"
proof (cases "\<not> poisoned (members f ! i) \<and> state_at f i = Submitted")
  case True
  show ?thesis
  proof (cases "reply = Reply_Ok")
    case Ok: True
    have "life_state (inner c) = CancelRequested" "life_resources (inner c) = held_at f i"
      "w = cancels f @ [(i, Reply_Ok)]"
      using True Ok assms(2)
      by (auto simp: shared_request_cancel_with_def request_cancel_with_def lock_def unlock_def)
    then show ?thesis
      using move_cancel [of i f c] True assms(1) by simp
  next
    case False
    have "inner c = inner (members f ! i)" "w = cancels f @ [(i, reply)]"
      using True False assms(2)
      by (cases reply; auto simp: shared_request_cancel_with_def request_cancel_with_def lock_def unlock_def)+
    then show ?thesis
      using move_poison [OF assms(1), of c "[(i, reply)]"] False by simp
  qed
next
  case False
  then have "inner c = inner (members f ! i)" "w = cancels f"
    using assms(2)
    by (auto simp: shared_request_cancel_with_def request_cancel_with_def lock_def unlock_def
        split: if_splits option.splits operation_state.splits)
  then show ?thesis
    using move_same [OF assms(1)] by simp
qed

lemma abandon_moves:
  assumes ok: "fleet_ok f" and i: "i < length (members f)"
    and step: "shared_abandon_to_quarantine (members f ! i) allocated (quarantine f) = (result, c, q)"
  shows "fleet_move f ((put f i c)\<lparr>quarantine := q\<rparr>) \<and> result \<noteq> Unwinding"
proof (cases "poisoned (members f ! i) \<or> terminal_state_of (state_at f i) \<noteq> None")
  case True
  then have "inner c = inner (members f ! i)" "q = quarantine f" "result \<noteq> Unwinding"
    using step by (auto simp: shared_abandon_to_quarantine_def abandon_to_quarantine_def lock_def unlock_def
        split: if_splits)
  then show ?thesis
    using move_same [OF i] by simp
next
  case False
  then obtain r where r: "held_at f i = Some r"
    using fleet_live_held [OF ok, of i] i by auto
  obtain reserved q' where reserve: "reserve_ticket allocated (quarantine f) = (reserved, q')"
    by fastforce
  show ?thesis
  proof (cases reserved)
    case (Inl reason)
    then have "q' = quarantine f"
      using reserve by (auto simp: reserve_ticket_def split: if_splits option.splits)
    then have "life_state (inner c) = Leaked reason" "life_resources (inner c) = held_at f i" "q = quarantine f"
      "result \<noteq> Unwinding"
      using step False Inl reserve
      by (auto simp: shared_abandon_to_quarantine_def abandon_to_quarantine_def lock_def unlock_def)
    then show ?thesis
      using move_leak [of i f c reason] False i by simp
  next
    case (Inr t)
    then have "reserve_ticket True (quarantine f) = (Inr t, q')"
      using reserve reserve_ticket_Inr [of allocated "quarantine f" t q'] by simp
    moreover have "life_state (inner c) = Quarantined t" "life_resources (inner c) = None" "q = insert_reserved q' r"
      "result \<noteq> Unwinding"
      using step False Inr reserve r
      by (auto simp: shared_abandon_to_quarantine_def abandon_to_quarantine_def lock_def unlock_def try_take_def)
    ultimately show ?thesis
      using move_quarantine [of i f r t q' c] False i r by simp
  qed
qed

lemma reclaim_moves:
  assumes "i < length (members f)" and "shared_reclaim (members f ! i) = (result, c)"
  shows "fleet_move f (case result of Inr r \<Rightarrow> (put f i c)\<lparr>handed := handed f @ [(i, r)]\<rparr> | Inl _ \<Rightarrow> put f i c)"
proof (cases "\<not> poisoned (members f ! i) \<and> is_quiescent (state_at f i) \<and> held_at f i \<noteq> None")
  case True
  then obtain r where r: "held_at f i = Some r"
    by blast
  then have "result = Inr r" "life_state (inner c) = state_at f i" "life_resources (inner c) = None"
    using True assms(2)
    by (cases "state_at f i"; auto simp: shared_reclaim_def shared_transition_def reclaim_def lock_def unlock_def
        try_take_def ok_or_def)+
  then show ?thesis
    using move_reclaim [of i f r c] True assms(1) r by simp
next
  case False
  then have "\<not> isl result \<Longrightarrow> False" "inner c = inner (members f ! i)"
    using assms(2)
    by (cases "state_at f i"; cases "held_at f i"; auto simp: shared_reclaim_def shared_transition_def reclaim_def
        lock_def unlock_def try_take_def ok_or_def split: if_splits)+
  then show ?thesis
    using move_same [OF assms(1)] by (cases result) auto
qed

lemma release_moves:
  assumes "fleet_ok f"
  obtains rs where "release_after_stream_quiescence (quarantine f) = (Finished rs, (quarantine f)\<lparr>entries := []\<rparr>)"
    "entries (quarantine f) = map Some rs"
proof -
  have "\<exists>rs. xs = map Some rs \<and>
      those (map (\<lambda>x. case retained_take x of (Finished r, _) \<Rightarrow> Some r | _ \<Rightarrow> None) xs) = Some rs"
    if "None \<notin> set xs" for xs :: "'a option list"
    using that
  proof (induction xs)
    case (Cons x xs)
    then obtain rs where "xs = map Some rs"
      "those (map (\<lambda>x. case retained_take x of (Finished r, _) \<Rightarrow> Some r | _ \<Rightarrow> None) xs) = Some rs"
      by auto
    moreover obtain r where "x = Some r"
      using Cons.prems by (cases x) auto
    ultimately show ?case
      by (intro exI [of _ "r # rs"]) (simp add: retained_take_def)
  qed simp
  then obtain rs where "entries (quarantine f) = map Some rs"
    "those (map (\<lambda>x. case retained_take x of (Finished r, _) \<Rightarrow> Some r | _ \<Rightarrow> None) (entries (quarantine f))) = Some rs"
    using assms unfolding fleet_ok_def quarantine_ok_def by blast
  then show thesis
    using that [of rs] by (simp add: release_after_stream_quiescence_def)
qed

lemmas lifecycle_transition_defs = shared_complete_def shared_fail_def shared_mark_stream_quiesced_def
  shared_complete_with_notification_def shared_fail_with_notification_def
  shared_stream_quiesced_with_notification_def complete_def [abs_def] fail_def [abs_def] mark_stream_quiesced_def [abs_def]

lemma on_member_moves:
  "(i < length (members f) \<Longrightarrow> fleet_move f (g (members f ! i))) \<Longrightarrow> fleet_move f (on_member f i g)"
  by (simp add: on_member_def move_none)

lemma shared_notify_step_moves:
  "\<lbrakk>i < length (members f); is_quiescent next\<rbrakk> \<Longrightarrow>
     fleet_move f (case shared_notify (shared_transition (members f ! i) (\<lambda>l. transition_to l next))
       (notice_callback i reply) (notices f) of (_, c, w) \<Rightarrow> (put f i c)\<lparr>notices := w\<rparr>)"
  by (auto split: prod.split intro: shared_notify_moves)

lemma fleet_step_moves:
  assumes "fleet_ok f"
  shows "fleet_move f (fleet_step op f)"
proof (cases op)
  case (Submit_Op r)
  then show ?thesis
    by (simp add: move_submit)
next
  case (Cancel_Op i reply)
  then show ?thesis
    using cancel_moves [of i f reply] by (auto simp: on_member_def intro: move_none split: prod.splits)
next
  case (Inspect_Op i reply)
  then show ?thesis
    using move_same [of i f] by (auto simp: on_member_def shared_inspect_def lock_def unlock_def intro: move_none)
next
  case (Abandon_Op i allocated)
  then show ?thesis
    using abandon_moves [OF assms, of i allocated] by (auto simp: on_member_def intro: move_none split: prod.splits)
next
  case (Reclaim_Op i)
  then show ?thesis
    using reclaim_moves [of i f] by (auto simp: on_member_def intro: move_none split: prod.splits sum.splits)
next
  case Release_Op
  obtain rs where "release_after_stream_quiescence (quarantine f) = (Finished rs, (quarantine f)\<lparr>entries := []\<rparr>)"
    "entries (quarantine f) = map Some rs"
    using release_moves [OF assms] .
  then show ?thesis
    using move_release [of f rs] by (simp add: Release_Op)
qed (simp_all add: on_member_moves lifecycle_transition_defs shared_transition_to_moves shared_notify_step_moves)

section \<open>History\<close>

lemma fleet_move_members:
  assumes "fleet_move f f'"
  shows "length (members f) \<le> length (members f')" "i < length (members f) \<Longrightarrow> terminal_state_of (state_at f i) \<noteq> None \<Longrightarrow>
    state_at f' i = state_at f i"
  using assms by (induction rule: fleet_move.induct) (auto simp: nth_append nth_list_update)

definition notices_ok :: "('r, 'e, 'c) fleet \<Rightarrow> bool" where
  "notices_ok f \<longleftrightarrow> distinct (map fst (notices f)) \<and>
     (\<forall>(i, s)\<in>set (notices f). i < length (members f) \<and> is_quiescent s \<and> state_at f i = s)"

definition handed_ok :: "('r, 'e, 'c) fleet \<Rightarrow> bool" where
  "handed_ok f \<longleftrightarrow> distinct (map fst (handed f)) \<and>
     (\<forall>(i, r)\<in>set (handed f). i < length (members f) \<and> is_quiescent (state_at f i) \<and> held_at f i = None)"

definition accepted_cancels :: "('r, 'e, 'c) fleet \<Rightarrow> nat list" where
  "accepted_cancels f = map fst (filter (\<lambda>(_, reply). reply = Reply_Ok) (cancels f))"

definition cancels_ok :: "('r, 'e, 'c) fleet \<Rightarrow> bool" where
  "cancels_ok f \<longleftrightarrow> distinct (accepted_cancels f) \<and>
     (\<forall>i\<in>set (accepted_cancels f). i < length (members f) \<and> state_at f i \<noteq> Submitted)"

definition tickets_ok :: "('r, 'e, 'c) fleet \<Rightarrow> bool" where
  "tickets_ok f \<longleftrightarrow> (\<forall>i<length (members f). \<forall>t. state_at f i = Quarantined t \<longrightarrow>
     ticket t < next_ticket (quarantine f) \<and> (\<forall>j<length (members f). state_at f j = Quarantined t \<longrightarrow> j = i))"

lemma is_quiescent_terminal: "is_quiescent s \<Longrightarrow> terminal_state_of s \<noteq> None"
  by (cases s) auto

lemma notices_ok_move: "\<lbrakk>fleet_move f f'; notices_ok f\<rbrakk> \<Longrightarrow> notices_ok f'"
  by (induction rule: fleet_move.induct)
    (force simp: notices_ok_def nth_append nth_list_update dest: is_quiescent_terminal split: if_splits)+

lemma handed_ok_move: "\<lbrakk>fleet_move f f'; handed_ok f\<rbrakk> \<Longrightarrow> handed_ok f'"
  by (induction rule: fleet_move.induct)
    (force simp: handed_ok_def nth_append nth_list_update dest: is_quiescent_terminal split: if_splits)+

lemma refused_cancels: "list_all (\<lambda>(_, reply). reply \<noteq> Reply_Ok) log \<Longrightarrow> filter (\<lambda>(_, reply). reply = Reply_Ok) log = []"
  by (induction log) auto

lemma cancels_ok_cong:
  assumes "cancels_ok f" and "accepted_cancels f' = accepted_cancels f" and "length (members f) \<le> length (members f')"
    and "\<And>i. i < length (members f) \<Longrightarrow> state_at f i \<noteq> Submitted \<Longrightarrow> state_at f' i \<noteq> Submitted"
  shows "cancels_ok f'"
  using assms unfolding cancels_ok_def by (auto intro: less_le_trans)

lemma cancels_ok_move:
  assumes "fleet_move f f'" and "cancels_ok f"
  shows "cancels_ok f'"
  using assms
proof (induction rule: fleet_move.induct)
  case (move_cancel i f c)
  then have "i \<notin> set (accepted_cancels f)" "accepted_cancels ((put f i c)\<lparr>cancels := cancels f @ [(i, Reply_Ok)]\<rparr>) =
      accepted_cancels f @ [i]"
    by (auto simp: cancels_ok_def accepted_cancels_def)
  then show ?case
    using move_cancel by (auto simp: cancels_ok_def nth_list_update)
next
  case (move_poison i f c log)
  then show ?case
    by (elim cancels_ok_cong) (auto simp: accepted_cancels_def refused_cancels nth_list_update)
qed (erule cancels_ok_cong; auto simp: accepted_cancels_def nth_append nth_list_update)+

lemma tickets_ok_cong:
  assumes "tickets_ok f" and "next_ticket (quarantine f') = next_ticket (quarantine f)"
    and "\<And>i t. i < length (members f') \<Longrightarrow> state_at f' i = Quarantined t \<Longrightarrow>
      i < length (members f) \<and> state_at f i = Quarantined t"
  shows "tickets_ok f'"
  using assms unfolding tickets_ok_def by auto

lemma tickets_ok_move:
  assumes "fleet_move f f'" and "tickets_ok f"
  shows "tickets_ok f'"
  using assms
proof (induction rule: fleet_move.induct)
  case (move_quarantine f i r t q c)
  let ?q = "quarantine f"
  have q: "t = QuarantineTicket (next_ticket ?q)" "next_ticket q = next_ticket ?q + 1" "next_ticket ?q < next_ticket ?q + 1"
    using reserve_ticket_Inr [OF move_quarantine(3)] by (auto simp: word_less_nat_alt)
  have old: "state_at f j = Quarantined t' \<Longrightarrow> j < length (members f) \<Longrightarrow> t' \<noteq> t \<and> ticket t' < next_ticket ?q + 1" for j t'
    using move_quarantine(6) q by (fastforce simp: tickets_ok_def dest: less_trans)
  show ?case
    unfolding tickets_ok_def
  proof (intro allI impI, goal_cases)
    case (1 j t')
    then show ?case
      using move_quarantine(1,4,6) q old
      by (auto simp: tickets_ok_def nth_list_update insert_reserved_def split: if_splits)
  qed
qed (erule tickets_ok_cong;
  auto simp: nth_append nth_list_update shared_submitted_def submitted_def split: if_splits dest: is_quiescent_terminal)+

end
