(* ===== verification/Operation_Lifecycle_Theorems.thy ===== *)
theory Operation_Lifecycle_Theorems
  imports Operation_Fleet
begin

text \<open>
  The properties of submitted operations over every interleaving of a fleet: resources are conserved, and the first
  terminal state wins.
\<close>

section \<open>Runs of a fleet\<close>

definition fleet_good :: "('r, 'e, 'c) fleet \<Rightarrow> bool" where
  "fleet_good f \<longleftrightarrow> fleet_ok f \<and> notices_ok f \<and> handed_ok f \<and> cancels_ok f \<and> tickets_ok f"

lemma fleet_step_good: "fleet_good f \<Longrightarrow> fleet_good (fleet_step op f)"
  unfolding fleet_good_def
  using fleet_step_moves fleet_move_ok notices_ok_move handed_ok_move cancels_ok_move tickets_ok_move by metis

lemma fleet_run_good: "fleet_good f \<Longrightarrow> fleet_good (fold fleet_step ops f)"
  by (induction ops arbitrary: f) (simp_all add: fleet_step_good)

lemma fleet_new_good: "quarantine_new capacity = Inr q \<Longrightarrow> fleet_good (fleet_new q)"
  by (auto simp: quarantine_new_def fleet_good_def fleet_new_def fleet_ok_def holdings_def quarantine_ok_def
      notices_ok_def handed_ok_def cancels_ok_def accepted_cancels_def tickets_ok_def List.map_filter_simps
      split: if_splits)

lemma fleet_run_terminal:
  "\<lbrakk>fleet_good f; i < length (members f); terminal_state_of (state_at f i) \<noteq> None\<rbrakk> \<Longrightarrow>
     i < length (members (fold fleet_step ops f)) \<and> state_at (fold fleet_step ops f) i = state_at f i"
proof (induction ops arbitrary: f)
  case (Cons op ops)
  have "fleet_move f (fleet_step op f)"
    using Cons.prems(1) by (simp add: fleet_good_def fleet_step_moves)
  then have "i < length (members (fleet_step op f))" "state_at (fleet_step op f) i = state_at f i"
    using fleet_move_members [of f "fleet_step op f"] Cons.prems(2,3) by auto
  then show ?case
    using Cons.IH [OF fleet_step_good [OF Cons.prems(1)]] Cons.prems(3) by simp
qed simp

section \<open>A concrete fleet\<close>

definition demo_quarantine :: "nat bounded_quarantine" where
  "demo_quarantine = \<lparr>entries = [], quarantine_capacity = 1, next_ticket = 0\<rparr>"

definition demo_fleet_ops :: "(nat, nat, nat) fleet_op list" where
  "demo_fleet_ops = [Submit_Op 10, Submit_Op 20, Submit_Op 30, Cancel_Op 0 (Reply_Err 5), Cancel_Op 0 Reply_Ok,
     Cancel_Op 0 Reply_Ok, Reclaim_Op 0, Abandon_Op 0 True, Abandon_Op 1 True, Complete_Notify_Op 2 Reply_Panic,
     Fail_Notify_Op 2 9 Reply_Ok, Reclaim_Op 2, Reclaim_Op 2]"

definition demo_fleet :: "(nat, nat, nat) fleet" where
  "demo_fleet = fold fleet_step demo_fleet_ops (fleet_new demo_quarantine)"

lemma demo_quarantine_new: "quarantine_new 1 = Inr demo_quarantine"
  by (simp add: quarantine_new_def demo_quarantine_def MAX_QUARANTINED_OPERATIONS_def)

lemma demo_fleet_states:
  "map (\<lambda>c. life_state (inner c)) (members demo_fleet) = [Quarantined (QuarantineTicket 0), Leaked QuarantineFull, Completed]"
  "handed demo_fleet = [(2, 30)]" "notices demo_fleet = [(2, Completed)]"
  by (simp_all add: demo_fleet_def demo_fleet_ops_def fleet_new_def demo_quarantine_def on_member_def
      shared_submitted_def submitted_def retained_new_def shared_request_cancel_with_def request_cancel_with_def
      lock_def unlock_def shared_reclaim_def shared_transition_def reclaim_def shared_abandon_to_quarantine_def
      abandon_to_quarantine_def reserve_ticket_def checked_add_def try_take_def insert_reserved_def
      lifecycle_transition_defs shared_notify_def transition_to_def ok_or_def nth_append)

section \<open>Properties\<close>

text \<open>C38: over any interleaving of operations on any number of submitted operations that share a
  quarantine, no resource is lost or duplicated: the resources admitted are those still retained, those in the
  quarantine, those reclaimed and those released from the quarantine.  The quarantine stays within its capacity, no two
  operations are quarantined under one ticket, and neither abandoning an operation nor releasing the quarantine can
  panic.\<close>

theorem lifecycle_conserves_resources:
  assumes "quarantine_new capacity = Inr q"
  shows "let f = fold fleet_step ops (fleet_new q :: ('r, 'e, 'c) fleet) in
    mset (admitted f) = holdings f \<and>
    length (entries (quarantine f)) \<le> quarantine_capacity (quarantine f) \<and>
    quarantine_capacity (quarantine f) \<le> MAX_QUARANTINED_OPERATIONS \<and>
    fst (release_after_stream_quiescence (quarantine f)) \<noteq> Unwinding \<and>
    (\<forall>i<length (members f).
       fst (shared_abandon_to_quarantine (members f ! i) allocated (quarantine f)) \<noteq> Unwinding \<and>
       (\<forall>t. state_at f i = Quarantined t \<longrightarrow> ticket t < next_ticket (quarantine f) \<and>
         (\<forall>j<length (members f). state_at f j = Quarantined t \<longrightarrow> j = i)))"
proof -
  let ?f = "fold fleet_step ops (fleet_new q :: ('r, 'e, 'c) fleet)"
  have good: "fleet_good ?f"
    using fleet_run_good [OF fleet_new_good [OF assms]] .
  then have ok: "fleet_ok ?f"
    by (simp add: fleet_good_def)
  have "fst (release_after_stream_quiescence (quarantine ?f)) \<noteq> Unwinding"
    using release_moves [OF ok] by (metis fst_conv process.distinct(1))
  moreover have "fst (shared_abandon_to_quarantine (members ?f ! i) allocated (quarantine ?f)) \<noteq> Unwinding"
    if "i < length (members ?f)" for i
    using abandon_moves [OF ok that] by (metis prod_cases3 fst_conv)
  ultimately show ?thesis
    using good ok unfolding Let_def fleet_good_def fleet_ok_def quarantine_ok_def tickets_ok_def by blast
qed

theorem lifecycle_conserves_resources_witness:
  "mset (admitted demo_fleet) = holdings demo_fleet \<and> handed demo_fleet = [(2, 30)] \<and>
   length (entries (quarantine demo_fleet)) \<le> quarantine_capacity (quarantine demo_fleet)"
  using lifecycle_conserves_resources [OF demo_quarantine_new, of demo_fleet_ops] demo_fleet_states(2)
  unfolding Let_def demo_fleet_def by blast

text \<open>C39: the first terminal state wins.  Once an operation is terminal no later sequence of
  operations changes its state; at most one notification ever runs for it, with the state that was recorded, and only
  once that state is quiescent; at most one cancellation request is accepted; and its resources are reclaimed at most
  once, only in a quiescent state.\<close>

theorem first_terminal_state_wins:
  assumes "quarantine_new capacity = Inr q"
    and "f = fold fleet_step ops (fleet_new q)" and "f' = fold fleet_step later f"
  shows "(\<forall>i<length (members f). terminal_state_of (state_at f i) \<noteq> None \<longrightarrow> state_at f' i = state_at f i) \<and>
    distinct (map fst (notices f')) \<and>
    (\<forall>(i, s)\<in>set (notices f'). is_quiescent s \<and> state_at f' i = s) \<and>
    distinct (accepted_cancels f') \<and>
    distinct (map fst (handed f')) \<and> (\<forall>(i, r)\<in>set (handed f'). is_quiescent (state_at f' i))"
proof -
  have f: "fleet_good f"
    unfolding assms(2) using fleet_run_good [OF fleet_new_good [OF assms(1)]] .
  have "fleet_good f'"
    unfolding assms(3) using fleet_run_good [OF f] .
  then show ?thesis
    using fleet_run_terminal [OF f] unfolding assms(3)
    by (auto simp: fleet_good_def notices_ok_def handed_ok_def cancels_ok_def)
qed

theorem first_terminal_state_wins_witness:
  "notices demo_fleet = [(2, Completed)] \<and> state_at (fold fleet_step [Fail_Op 2 1, Quiesce_Op 2] demo_fleet) 2 = Completed"
proof -
  have "length (members demo_fleet) = 3" "state_at demo_fleet 2 = Completed"
    using demo_fleet_states(1) by (auto simp: map_eq_Cons_conv)
  then show ?thesis
    using first_terminal_state_wins [OF demo_quarantine_new demo_fleet_def refl, of "[Fail_Op 2 1, Quiesce_Op 2]"]
      demo_fleet_states(3) by auto
qed

end
