(* ===== verification/Aql_Ring.thy ===== *)
theory Aql_Ring
  imports Simulation
begin

text \<open>
  The single-producer ring of the AQL queue, after the reservation model of \<open>fe2o3-aql/src/lib.rs\<close>: packet
  identities are 64-bit counters that never wrap, slots are identities reduced by a power-of-two mask, and a batch is
  admitted only while the window between the observed read counter and the write counter has room.
\<close>

unbundle bit_operations_syntax

section \<open>Capacity\<close>

definition AQL_KERNEL_DISPATCH_PACKET_BYTES :: nat where
  "AQL_KERNEL_DISPATCH_PACKET_BYTES = 64"

definition AQL_MIN_RING_BYTES :: u32 where
  "AQL_MIN_RING_BYTES = 4096"

definition AQL_MAX_RING_BYTES :: u32 where
  "AQL_MAX_RING_BYTES = push_bit 31 1"

definition AQL_MAX_BATCH_PACKETS :: u32 where
  "AQL_MAX_BATCH_PACKETS = 256"

definition AQL_MAX_FIXED_BATCH_PACKETS :: u32 where
  "AQL_MAX_FIXED_BATCH_PACKETS = 8192"

datatype aql_ring_capacity_error = BelowMinimum | AboveMaximum | NotPowerOfTwo

datatype aql_ring_capacity = AqlRingCapacity (packets: u32)

definition from_ring_bytes :: "u32 \<Rightarrow> aql_ring_capacity_error + aql_ring_capacity" where
  "from_ring_bytes ring_bytes =
     (if ring_bytes < AQL_MIN_RING_BYTES then Inl BelowMinimum
      else if AQL_MAX_RING_BYTES < ring_bytes then Inl AboveMaximum
      else if \<not> is_power_of_two ring_bytes then Inl NotPowerOfTwo
      else Inr (AqlRingCapacity (ring_bytes div of_nat AQL_KERNEL_DISPATCH_PACKET_BYTES)))"

definition capacity_mask :: "aql_ring_capacity \<Rightarrow> u64" where
  "capacity_mask capacity = ucast (packets capacity) - 1"

section \<open>Reservations\<close>

datatype aql_ring_reservation_error =
    ZeroPacketCount
  | PacketCountExceedsReviewedMaximum u32 u32
  | PacketCountExceedsRingCapacity u32 u32
  | ReadAfterWrite
  | ReadRegressed
  | CounterDistanceExceedsCapacity
  | RingFull
  | InsufficientSpace u32 u32
  | WriteCounterExhausted

record aql_ring =
  ring_capacity :: aql_ring_capacity
  ring_write :: u64
  ring_last_read :: u64

record aql_batch_reservation =
  first_packet_id :: u64
  reserved_count :: u32
  slot_mask :: u64
  observed_read :: u64
  next_write :: u64

record aql_batch_entry =
  packet_id :: u64
  slot_index :: u32

record aql_reservation =
  one_packet_id :: u64
  one_slot_index :: u32
  one_observed_read :: u64
  one_next_write :: u64

definition ring_new :: "aql_ring_capacity \<Rightarrow> u64 \<Rightarrow> u64 \<Rightarrow> aql_ring_reservation_error + aql_ring" where
  "ring_new capacity write_counter read_counter =
     (case checked_sub write_counter read_counter of
        None \<Rightarrow> Inl ReadAfterWrite
      | Some distance \<Rightarrow>
          if ucast (packets capacity) < distance then Inl CounterDistanceExceedsCapacity
          else Inr \<lparr>ring_capacity = capacity, ring_write = write_counter, ring_last_read = read_counter\<rparr>)"

definition reserve_batch_with_maximum :: "aql_ring \<Rightarrow> u64 \<Rightarrow> u32 \<Rightarrow> u32 \<Rightarrow>
    aql_ring_reservation_error + aql_batch_reservation \<times> aql_ring" where
  "reserve_batch_with_maximum ring observed count maximum =
     (if count = 0 then Inl ZeroPacketCount
      else if maximum < count then Inl (PacketCountExceedsReviewedMaximum count maximum)
      else if packets (ring_capacity ring) < count
      then Inl (PacketCountExceedsRingCapacity count (packets (ring_capacity ring)))
      else if observed < ring_last_read ring then Inl ReadRegressed
      else (case checked_sub (ring_write ring) observed of
          None \<Rightarrow> Inl ReadAfterWrite
        | Some distance \<Rightarrow>
            let capacity = ucast (packets (ring_capacity ring)) in
            if capacity < distance then Inl CounterDistanceExceedsCapacity
            else if distance = capacity then Inl RingFull
            else let available = capacity - distance in
            if available < ucast count then Inl (InsufficientSpace count (ucast available))
            else (case checked_add (ring_write ring) (ucast count) of
                None \<Rightarrow> Inl WriteCounterExhausted
              | Some next_counter \<Rightarrow>
                  Inr (\<lparr>first_packet_id = ring_write ring, reserved_count = count,
                         slot_mask = capacity_mask (ring_capacity ring), observed_read = observed,
                         next_write = next_counter\<rparr>,
                       ring\<lparr>ring_write := next_counter, ring_last_read := observed\<rparr>))))"

definition reserve_batch :: "aql_ring \<Rightarrow> u64 \<Rightarrow> u32 \<Rightarrow>
    aql_ring_reservation_error + aql_batch_reservation \<times> aql_ring" where
  "reserve_batch ring observed count = reserve_batch_with_maximum ring observed count AQL_MAX_BATCH_PACKETS"

definition reserve_fixed_batch_v2 :: "aql_ring \<Rightarrow> u64 \<Rightarrow> u32 \<Rightarrow>
    aql_ring_reservation_error + aql_batch_reservation \<times> aql_ring" where
  "reserve_fixed_batch_v2 ring observed count =
     reserve_batch_with_maximum ring observed count AQL_MAX_FIXED_BATCH_PACKETS"

definition reserve_one :: "aql_ring \<Rightarrow> u64 \<Rightarrow> aql_ring_reservation_error + aql_reservation \<times> aql_ring" where
  "reserve_one ring observed =
     and_then (reserve_batch ring observed 1) (\<lambda>(batch, ring).
       Inr (\<lparr>one_packet_id = first_packet_id batch,
              one_slot_index = ucast (first_packet_id batch AND slot_mask batch),
              one_observed_read = observed_read batch, one_next_write = next_write batch\<rparr>, ring))"

definition last_packet_id :: "aql_batch_reservation \<Rightarrow> u64" where
  "last_packet_id r = next_write r - 1"

definition batch_entry :: "aql_batch_reservation \<Rightarrow> u32 \<Rightarrow> aql_batch_entry option" where
  "batch_entry r index =
     (if reserved_count r \<le> index then None
      else (case checked_add (first_packet_id r) (ucast index) of
          None \<Rightarrow> None
        | Some i \<Rightarrow> Some \<lparr>packet_id = i, slot_index = ucast (i AND slot_mask r)\<rparr>))"

section \<open>The iterator over a batch\<close>

record aql_batch_entries =
  iter_first_packet_id :: u64
  iter_packet_count :: u32
  iter_slot_mask :: u64
  iter_next_index :: u32

definition batch_entries :: "aql_batch_reservation \<Rightarrow> aql_batch_entries" where
  "batch_entries r = \<lparr>iter_first_packet_id = first_packet_id r, iter_packet_count = reserved_count r,
     iter_slot_mask = slot_mask r, iter_next_index = 0\<rparr>"

definition entries_next :: "aql_batch_entries \<Rightarrow> (aql_batch_entry \<times> aql_batch_entries) option" where
  "entries_next it =
     (if iter_packet_count it \<le> iter_next_index it then None
      else (case checked_add (iter_first_packet_id it) (ucast (iter_next_index it)) of
          None \<Rightarrow> None
        | Some i \<Rightarrow> Some (\<lparr>packet_id = i, slot_index = ucast (i AND iter_slot_mask it)\<rparr>,
            it\<lparr>iter_next_index := iter_next_index it + 1\<rparr>)))"

definition entries_size_hint :: "aql_batch_entries \<Rightarrow> nat" where
  "entries_size_hint it = unat (iter_packet_count it - iter_next_index it)"

lemma entries_next_measure:
  assumes "entries_next it = Some (e, it')"
  shows "unat (iter_packet_count it') - unat (iter_next_index it') < unat (iter_packet_count it) - unat (iter_next_index it)"
proof -
  have lt: "iter_next_index it < iter_packet_count it" and it': "it' = it\<lparr>iter_next_index := iter_next_index it + 1\<rparr>"
    using assms by (auto simp: entries_next_def split: if_splits option.splits)
  have "unat (iter_next_index it) + 1 < 2 ^ 32"
    using lt unat_less_2p [of "iter_packet_count it"] by (simp add: word_less_nat_alt)
  then have "unat (iter_next_index it + 1) = Suc (unat (iter_next_index it))"
    using unat_plus_no_overflow [of "iter_next_index it" 1] by simp
  then show ?thesis
    using lt by (simp add: it' word_less_nat_alt)
qed

function entries_collect :: "aql_batch_entries \<Rightarrow> aql_batch_entry list" where
  "entries_collect it =
     (case entries_next it of None \<Rightarrow> [] | Some (e, it') \<Rightarrow> e # entries_collect it')"
  by pat_completeness auto
termination
  by (relation "measure (\<lambda>it. unat (iter_packet_count it) - unat (iter_next_index it))")
    (auto dest: entries_next_measure)

declare entries_collect.simps [simp del]

end
