(* ===== verification/Aql_Packet.thy ===== *)
theory Aql_Packet
  imports Byte_Arrays Aql_Ring
begin

text \<open>
  AQL packets as values, after \<open>fe2o3-aql/src/lib.rs\<close>, \<open>preparation_body.rs\<close> and
  \<open>closed_program_v1.rs\<close>: observed addresses, dispatch geometry, the 64-byte packet images, prepared packets and
  their publication through a target.  A target is a function on the calls of the trait it implements.
\<close>

unbundle bit_operations_syntax

section \<open>Headers\<close>

definition AMD_SIGNAL_BYTES :: nat where
  "AMD_SIGNAL_BYTES = 64"

definition AMD_SIGNAL_ALIGNMENT :: u64 where
  "AMD_SIGNAL_ALIGNMENT = 64"

definition AMD_SIGNAL_KIND_USER :: u64 where
  "AMD_SIGNAL_KIND_USER = 1"

definition AMD_SIGNAL_VALUE_PENDING :: u64 where
  "AMD_SIGNAL_VALUE_PENDING = 1"

definition AMD_SIGNAL_VALUE_COMPLETE :: u64 where
  "AMD_SIGNAL_VALUE_COMPLETE = 0"

definition AQL_INVALID_PACKET_HEADER :: u16 where
  "AQL_INVALID_PACKET_HEADER = 1"

definition AQL_KERNEL_DISPATCH_HEADER :: u16 where
  "AQL_KERNEL_DISPATCH_HEADER = 0x1402"

definition AQL_WAIT_FOR_PRIOR_HEADER :: u16 where
  "AQL_WAIT_FOR_PRIOR_HEADER = 0x1502"

definition AQL_BARRIER_AND_HEADER :: u16 where
  "AQL_BARRIER_AND_HEADER = 0x1403"

datatype aql_dispatch_ordering = Independent | WaitForPrior

fun ordering_header :: "aql_dispatch_ordering \<Rightarrow> u16" where
  "ordering_header Independent = AQL_KERNEL_DISPATCH_HEADER"
| "ordering_header WaitForPrior = AQL_WAIT_FOR_PRIOR_HEADER"

definition ordering_from_header :: "u16 \<Rightarrow> aql_dispatch_ordering option" where
  "ordering_from_header header =
     (if header = AQL_KERNEL_DISPATCH_HEADER then Some Independent
      else if header = AQL_WAIT_FOR_PRIOR_HEADER then Some WaitForPrior
      else None)"

definition is_reviewed_aql_publication :: "u16 \<Rightarrow> u16 \<Rightarrow> bool" where
  "is_reviewed_aql_publication header setup \<longleftrightarrow>
     ordering_from_header header \<noteq> None \<and> 1 \<le> setup \<and> setup \<le> 3 \<or> header = AQL_BARRIER_AND_HEADER \<and> setup = 0"

section \<open>Addresses\<close>

datatype aql_address_error = Zero_Address | InvalidRequiredAlignment | Misaligned

datatype observed_gpu_address = ObservedGpuAddress (raw: u64)

definition address_new :: "u64 \<Rightarrow> aql_address_error + observed_gpu_address" where
  "address_new r = (if r = 0 then Inl Zero_Address else Inr (ObservedGpuAddress r))"

definition require_alignment :: "observed_gpu_address \<Rightarrow> u64 \<Rightarrow> aql_address_error + observed_gpu_address" where
  "require_alignment address alignment =
     (if alignment = 0 \<or> 4096 < alignment \<or> alignment AND (alignment - 1) \<noteq> 0 then Inl InvalidRequiredAlignment
      else if raw address AND (alignment - 1) \<noteq> 0 then Inl Misaligned
      else Inr address)"

section \<open>Geometry\<close>

datatype 'a axes = Axes (axis_x: 'a) (axis_y: 'a) (axis_z: 'a)

definition axes_list :: "'a axes \<Rightarrow> 'a list" where
  "axes_list a = [axis_x a, axis_y a, axis_z a]"

datatype aql_geometry_error =
    ZeroGrid
  | ZeroWorkgroup
  | WorkgroupTooLarge
  | GridSmallerThanWorkgroup
  | InconsistentTrailingDimension

record aql_geometry =
  geo_grid :: "u32 axes"
  geo_workgroup :: "u16 axes"
  geo_dimensions :: u16

definition geometry_dimensions :: "u32 axes \<Rightarrow> u32 axes \<Rightarrow> u16" where
  "geometry_dimensions grid workgroup =
     (if 1 < axis_z grid \<or> 1 < axis_z workgroup then 3
      else if 1 < axis_y grid \<or> 1 < axis_y workgroup then 2
      else 1)"

definition geometry_new :: "u32 axes \<Rightarrow> u32 axes \<Rightarrow> aql_geometry_error + aql_geometry" where
  "geometry_new grid workgroup =
     (if list_ex (\<lambda>v. v = 0) (axes_list grid) then Inl ZeroGrid
      else if list_ex (\<lambda>v. v = 0) (axes_list workgroup) then Inl ZeroWorkgroup
      else if list_ex (\<lambda>v. 0xFFFF < v) (axes_list workgroup) then Inl WorkgroupTooLarge
      else if list_ex (\<lambda>(g, w). g < w) (zip (axes_list grid) (axes_list workgroup)) then Inl GridSmallerThanWorkgroup
      else let dimensions = geometry_dimensions grid workgroup in
      if dimensions < 3 \<and> (axis_z grid \<noteq> 1 \<or> axis_z workgroup \<noteq> 1) \<or>
         dimensions < 2 \<and> (axis_y grid \<noteq> 1 \<or> axis_y workgroup \<noteq> 1)
      then Inl InconsistentTrailingDimension
      else Inr \<lparr>geo_grid = grid, geo_workgroup = map_axes ucast workgroup, geo_dimensions = dimensions\<rparr>)"

record cov6_shape =
  block_count :: "u32 axes"
  group_size :: "u16 axes"
  remainder :: "u16 axes"
  grid_dimensions :: u16

definition zip_axes :: "('a \<Rightarrow> 'b \<Rightarrow> 'c) \<Rightarrow> 'a axes \<Rightarrow> 'b axes \<Rightarrow> 'c axes" where
  "zip_axes f a b = Axes (f (axis_x a) (axis_x b)) (f (axis_y a) (axis_y b)) (f (axis_z a) (axis_z b))"

definition cov6_implicit_dispatch_shape :: "aql_geometry \<Rightarrow> cov6_shape" where
  "cov6_implicit_dispatch_shape g =
     (let workgroup = map_axes ucast (geo_workgroup g)
      in \<lparr>block_count = zip_axes (div) (geo_grid g) workgroup, group_size = geo_workgroup g,
          remainder = map_axes ucast (zip_axes (mod) (geo_grid g) workgroup),
          grid_dimensions = geo_dimensions g\<rparr>)"

section \<open>Packets\<close>

datatype aql_dispatch_packet_error =
    KernelObject aql_address_error
  | Kernarg aql_address_error
  | CompletionSignal aql_address_error

datatype aql_barrier_and_packet_error = Barrier_CompletionSignal aql_address_error

record aql_barrier_and_packet =
  bar_full_header :: u32
  bar_reserved1 :: u32
  bar_dep_signals :: "u64 list"
  bar_reserved2 :: u64
  bar_completion_signal :: u64

definition barrier_and_new :: "observed_gpu_address \<Rightarrow> aql_barrier_and_packet_error + aql_barrier_and_packet" where
  "barrier_and_new signal =
     and_then (map_err Barrier_CompletionSignal (require_alignment signal AMD_SIGNAL_ALIGNMENT)) (\<lambda>signal.
       Inr \<lparr>bar_full_header = ucast AQL_INVALID_PACKET_HEADER, bar_reserved1 = 0, bar_dep_signals = replicate 5 0,
            bar_reserved2 = 0, bar_completion_signal = raw signal\<rparr>)"

definition barrier_is_unpublished :: "aql_barrier_and_packet \<Rightarrow> bool" where
  "barrier_is_unpublished p \<longleftrightarrow> bar_full_header p = ucast AQL_INVALID_PACKET_HEADER"

definition barrier_encode :: "aql_barrier_and_packet \<Rightarrow> u8 list" where
  "barrier_encode p = to_le_bytes 4 (bar_full_header p) @ to_le_bytes 4 (bar_reserved1 p) @
     concat (map (to_le_bytes 8) (bar_dep_signals p)) @ to_le_bytes 8 (bar_reserved2 p) @
     to_le_bytes 8 (bar_completion_signal p)"

record aql_dispatch_packet =
  full_header :: u32
  workgroup_size_x :: u16
  workgroup_size_y :: u16
  workgroup_size_z :: u16
  pkt_reserved0 :: u16
  grid_size_x :: u32
  grid_size_y :: u32
  grid_size_z :: u32
  private_segment_size :: u32
  group_segment_size :: u32
  kernel_object :: u64
  kernarg_address :: u64
  pkt_reserved2 :: u64
  completion_signal :: u64

record aql_prepared_dispatch =
  prep_packet :: aql_dispatch_packet
  prep_ordering :: aql_dispatch_ordering

definition new_unpublished_with_ordering :: "aql_geometry \<Rightarrow> u32 \<Rightarrow> u32 \<Rightarrow> observed_gpu_address \<Rightarrow>
    observed_gpu_address \<Rightarrow> u64 \<Rightarrow> observed_gpu_address \<Rightarrow> aql_dispatch_ordering \<Rightarrow>
    aql_dispatch_packet_error + aql_prepared_dispatch" where
  "new_unpublished_with_ordering geometry priv lds kobject kernarg alignment signal order =
     and_then (map_err KernelObject (require_alignment kobject 64)) (\<lambda>kobject.
     and_then (map_err Kernarg (require_alignment kernarg alignment)) (\<lambda>kernarg.
     and_then (map_err CompletionSignal (require_alignment signal AMD_SIGNAL_ALIGNMENT)) (\<lambda>signal.
     let workgroup = geo_workgroup geometry; grid = geo_grid geometry
     in Inr \<lparr>prep_packet = \<lparr>
          full_header = push_bit 16 (ucast (geo_dimensions geometry)) OR ucast AQL_INVALID_PACKET_HEADER,
          workgroup_size_x = axis_x workgroup, workgroup_size_y = axis_y workgroup, workgroup_size_z = axis_z workgroup,
          pkt_reserved0 = 0,
          grid_size_x = axis_x grid, grid_size_y = axis_y grid, grid_size_z = axis_z grid,
          private_segment_size = priv, group_segment_size = lds,
          kernel_object = raw kobject, kernarg_address = raw kernarg, pkt_reserved2 = 0,
          completion_signal = raw signal\<rparr>,
        prep_ordering = order\<rparr>)))"

definition new_unpublished :: "aql_geometry \<Rightarrow> u32 \<Rightarrow> u32 \<Rightarrow> observed_gpu_address \<Rightarrow>
    observed_gpu_address \<Rightarrow> u64 \<Rightarrow> observed_gpu_address \<Rightarrow> aql_dispatch_packet_error + aql_prepared_dispatch" where
  "new_unpublished geometry priv lds kobject kernarg alignment signal =
     new_unpublished_with_ordering geometry priv lds kobject kernarg alignment signal Independent"

definition is_unpublished :: "aql_dispatch_packet \<Rightarrow> bool" where
  "is_unpublished p \<longleftrightarrow> full_header p AND 0xff = ucast AQL_INVALID_PACKET_HEADER"

definition setup_dimensions :: "aql_dispatch_packet \<Rightarrow> u16" where
  "setup_dimensions p = ucast (drop_bit 16 (full_header p))"

definition encode_unpublished :: "aql_dispatch_packet \<Rightarrow> u8 list" where
  "encode_unpublished p =
     to_le_bytes 4 (full_header p) @
     to_le_bytes 2 (workgroup_size_x p) @ to_le_bytes 2 (workgroup_size_y p) @ to_le_bytes 2 (workgroup_size_z p) @
     to_le_bytes 2 (pkt_reserved0 p) @
     to_le_bytes 4 (grid_size_x p) @ to_le_bytes 4 (grid_size_y p) @ to_le_bytes 4 (grid_size_z p) @
     to_le_bytes 4 (private_segment_size p) @ to_le_bytes 4 (group_segment_size p) @
     to_le_bytes 8 (kernel_object p) @ to_le_bytes 8 (kernarg_address p) @
     to_le_bytes 8 (pkt_reserved2 p) @ to_le_bytes 8 (completion_signal p)"

definition completion_signal_matches :: "aql_prepared_dispatch \<Rightarrow> observed_gpu_address \<Rightarrow> bool" where
  "completion_signal_matches p expected \<longleftrightarrow> completion_signal (prep_packet p) = raw expected"

section \<open>Publication\<close>

type_synonym ('call, 'w, 'e) target = "'call \<Rightarrow> 'w \<Rightarrow> ('e + unit) \<times> 'w"

fun for_calls :: "('call, 'w, 'e) target \<Rightarrow> 'call list \<Rightarrow> 'w \<Rightarrow> ('e + unit) \<times> 'w" where
  "for_calls target [] w = (Inr (), w)"
| "for_calls target (c # cs) w =
     (case target c w of
        (Inl e, w) \<Rightarrow> (Inl e, w)
      | (Inr _, w) \<Rightarrow> for_calls target cs w)"

datatype barrier_call = Write_Unpublished_Barrier aql_barrier_and_packet | Publish_Barrier_Header u16

definition barrier_publish_with :: "aql_barrier_and_packet \<Rightarrow> (barrier_call, 'w, 'e) target \<Rightarrow> 'w \<Rightarrow>
    ('e + unit) \<times> 'w" where
  "barrier_publish_with p target w =
     for_calls target [Write_Unpublished_Barrier p, Publish_Barrier_Header AQL_BARRIER_AND_HEADER] w"

datatype packet_call = Write_Unpublished aql_dispatch_packet | Publish_Release_Header u16

definition prepared_publish_with :: "aql_prepared_dispatch \<Rightarrow> (packet_call, 'w, 'e) target \<Rightarrow> 'w \<Rightarrow>
    ('e + unit) \<times> 'w" where
  "prepared_publish_with p target w =
     for_calls target [Write_Unpublished (prep_packet p), Publish_Release_Header (ordering_header (prep_ordering p))] w"

datatype aql_batch_error = Batch_ZeroPacketCount | Batch_PacketCountExceedsReviewedMaximum nat u32

text \<open>The three batch types differ only in their bound; the cardinality is the length of the list.\<close>

definition batch_from_packets :: "u32 \<Rightarrow> aql_prepared_dispatch list \<Rightarrow> aql_batch_error + aql_prepared_dispatch list" where
  "batch_from_packets maximum ps =
     (if length ps = 0 then Inl Batch_ZeroPacketCount
      else if unat maximum < length ps then Inl (Batch_PacketCountExceedsReviewedMaximum (length ps) maximum)
      else Inr ps)"

definition batch_v1_from_packets where
  "batch_v1_from_packets ps = batch_from_packets AQL_MAX_BATCH_PACKETS ps"

definition batch_v2_from_packets where
  "batch_v2_from_packets ps = batch_from_packets AQL_MAX_FIXED_BATCH_PACKETS ps"

definition program_from_packets where
  "program_from_packets ps = batch_from_packets AQL_MAX_FIXED_BATCH_PACKETS ps"

datatype aql_closed_header = AqlClosedProgramHeader (closed_index: u32) (closed_count: u32)

datatype batch_call =
    Batch_Write_Unpublished u32 aql_dispatch_packet
  | Batch_Publish_Header u32 u16
  | Batch_Publish_Closed_Header u32 aql_closed_header

definition body_calls :: "aql_prepared_dispatch list \<Rightarrow> batch_call list" where
  "body_calls ps = map (\<lambda>(i, p). Batch_Write_Unpublished (of_nat i) (prep_packet p)) (enumerate 0 ps)"

definition header_calls :: "aql_prepared_dispatch list \<Rightarrow> batch_call list" where
  "header_calls ps =
     map (\<lambda>(i, p). Batch_Publish_Header (of_nat i) (ordering_header (prep_ordering p))) (enumerate 0 ps)"

definition two_phase :: "('call, 'w, 'e) target \<Rightarrow> 'call list \<Rightarrow> 'call list \<Rightarrow> 'w \<Rightarrow> ('e + unit) \<times> 'w" where
  "two_phase target bodies headers w =
     (case for_calls target bodies w of
        (Inl e, w) \<Rightarrow> (Inl e, w)
      | (Inr _, w) \<Rightarrow> for_calls target headers w)"

definition batch_publish_with :: "aql_prepared_dispatch list \<Rightarrow> (batch_call, 'w, 'e) target \<Rightarrow> 'w \<Rightarrow>
    ('e + unit) \<times> 'w" where
  "batch_publish_with ps target w = two_phase target (body_calls ps) (header_calls ps) w"

definition batch_v2_publish_with where
  "batch_v2_publish_with ps target w = batch_publish_with ps target w"

definition program_publish_with where
  "program_publish_with ps target w = batch_publish_with ps target w"

section \<open>Closed programs\<close>

definition closed_header :: "aql_closed_header \<Rightarrow> u16" where
  "closed_header h =
     (let acquire = if closed_index h = 0 then 2 else 1;
          release = if closed_index h + 1 = closed_count h then 2 else 1
      in 0x0102 OR push_bit 9 acquire OR push_bit 11 release)"

definition matches_position :: "aql_closed_header \<Rightarrow> u32 \<Rightarrow> u32 \<Rightarrow> bool" where
  "matches_position h index count \<longleftrightarrow> closed_index h = index \<and> closed_count h = count"

definition closed_admits :: "aql_closed_header \<Rightarrow> u32 \<Rightarrow> u32 \<Rightarrow> u16 \<Rightarrow> bool" where
  "closed_admits h index count setup \<longleftrightarrow> matches_position h index count \<and> 1 \<le> setup \<and> setup \<le> 3"

datatype aql_closed_program_error =
    PacketCount aql_batch_error
  | IndependentDispatch nat
  | ReusedCompletionSignal nat

fun closed_scan :: "nat \<Rightarrow> u64 set \<Rightarrow> aql_prepared_dispatch list \<Rightarrow> aql_closed_program_error + unit" where
  "closed_scan i signals [] = Inr ()"
| "closed_scan i signals (p # ps) =
     (if prep_ordering p \<noteq> WaitForPrior then Inl (IndependentDispatch i)
      else if completion_signal (prep_packet p) \<in> signals then Inl (ReusedCompletionSignal i)
      else closed_scan (Suc i) (insert (completion_signal (prep_packet p)) signals) ps)"

definition closed_from_packets :: "aql_prepared_dispatch list \<Rightarrow> aql_closed_program_error + aql_prepared_dispatch list" where
  "closed_from_packets ps =
     and_then (map_err PacketCount (program_from_packets ps)) (\<lambda>ps.
     and_then (closed_scan 0 {} ps) (\<lambda>_. Inr ps))"

definition header_for_packet :: "aql_prepared_dispatch list \<Rightarrow> u32 \<Rightarrow> aql_closed_header option" where
  "header_for_packet ps index =
     (if index < of_nat (length ps) then Some (AqlClosedProgramHeader index (of_nat (length ps))) else None)"

definition closed_publish_with :: "aql_prepared_dispatch list \<Rightarrow> (batch_call, 'w, 'e) target \<Rightarrow> 'w \<Rightarrow>
    ('e + unit) \<times> 'w" where
  "closed_publish_with ps target w = two_phase target (body_calls ps)
     (map (\<lambda>i. Batch_Publish_Closed_Header (of_nat i) (AqlClosedProgramHeader (of_nat i) (of_nat (length ps))))
       [0..<length ps]) w"

section \<open>Completion signals\<close>

definition encode_pending_completion_signal_bytes :: "u8 list" where
  "encode_pending_completion_signal_bytes =
     to_le_bytes 8 AMD_SIGNAL_KIND_USER @ to_le_bytes 8 AMD_SIGNAL_VALUE_PENDING @ replicate (AMD_SIGNAL_BYTES - 16) 0"

datatype aql_completion_observation = Pending | Completed | Unexpected u64

definition classify_acquired_completion_value :: "u64 \<Rightarrow> aql_completion_observation" where
  "classify_acquired_completion_value v =
     (if v = AMD_SIGNAL_VALUE_PENDING then Pending
      else if v = AMD_SIGNAL_VALUE_COMPLETE then Completed
      else Unexpected v)"

record amd_busy_completion_signal =
  signal_kind :: u64
  signal_value :: u64
  event_mailbox_ptr :: u64
  event_id :: u32
  sig_reserved1 :: u32
  start_ts :: u64
  end_ts :: u64
  sig_reserved2 :: u64
  sig_reserved3 :: "u32 list"

definition signal_new_pending :: amd_busy_completion_signal where
  "signal_new_pending = \<lparr>signal_kind = AMD_SIGNAL_KIND_USER, signal_value = AMD_SIGNAL_VALUE_PENDING,
     event_mailbox_ptr = 0, event_id = 0, sig_reserved1 = 0, start_ts = 0, end_ts = 0, sig_reserved2 = 0,
     sig_reserved3 = [0, 0]\<rparr>"

definition observe_acquire :: "amd_busy_completion_signal \<Rightarrow> aql_completion_observation" where
  "observe_acquire s = classify_acquired_completion_value (signal_value s)"

end
