(* ===== verification/Aql_Packet_Theorems.thy ===== *)
theory Aql_Packet_Theorems
  imports Aql_Packet
begin

text \<open>
  Packets: the bitwise alignment test is divisibility by a power of two, the geometry check is exact, and the image reads
  back at the offsets of the hardware layout.
\<close>

unbundle bit_operations_syntax

section \<open>Alignment\<close>

lemma top_bit:
  assumes "2 ^ k \<le> n" "n < 2 ^ Suc k"
  shows "bit (n :: nat) k"
proof -
  have "n div 2 ^ k = 1"
    using assms by (intro div_nat_eqI) simp_all
  then show ?thesis
    by (simp add: bit_iff_odd)
qed

lemma and_mask_zero:
  assumes "is_power_of_two (m :: u64)"
  shows "w AND (m - 1) = 0 \<longleftrightarrow> unat m dvd unat w"
proof -
  obtain k where k: "unat m = 2 ^ k" "k < 64"
    using assms by (auto simp: is_power_of_two_iff)
  have "m = of_nat (unat m)"
    by simp
  then have "m - 1 = mask k"
    by (simp add: k(1) mask_eq_exp_minus_1)
  then have "w AND (m - 1) = take_bit k w"
    by (simp add: take_bit_eq_mask)
  then have "w AND (m - 1) = 0 \<longleftrightarrow> take_bit k (unat w) = 0"
    by (metis unsigned_take_bit_eq unsigned_eq_0_iff)
  then show ?thesis
    by (simp add: k(1) take_bit_eq_mod mod_eq_0_iff_dvd)
qed

lemma power_of_two_bits:
  assumes "w \<noteq> 0"
  shows "w AND (w - 1) = 0 \<longleftrightarrow> is_power_of_two (w :: u64)"
proof
  assume zero: "w AND (w - 1) = 0"
  have "0 < unat w"
    using assms by (simp add: unat_gt_0)
  then obtain k where k: "2 ^ k \<le> unat w" "unat w < 2 ^ Suc k"
    using ex_power_ivl1 [of 2 "unat w"] by auto
  have "unat (w - 1) = unat w - 1"
    using assms by (simp add: unat_minus_one)
  have "bit w k \<longleftrightarrow> bit (unat w) k" "bit (w - 1) k \<longleftrightarrow> bit (unat (w - 1)) k" if "k < 64"
    using that by (simp_all add: bit_unsigned_iff)
  moreover have "k < 64"
  proof -
    have "(2::nat) ^ k < 2 ^ 64"
      using k(1) unat_less_2p [of w] by simp
    then show ?thesis
      by (rule power_less_imp_less_exp [rotated]) simp
  qed
  ultimately have "\<not> bit (unat w - 1) k"
    using zero top_bit [OF k] \<open>unat (w - 1) = unat w - 1\<close> by (metis bit_0_eq bit_and_iff bot_apply bot_bool_def)
  then have "unat w = 2 ^ k"
    using k top_bit [of k "unat w - 1"] by fastforce
  then show "is_power_of_two w"
    using \<open>k < 64\<close> by (auto simp: is_power_of_two_iff)
qed (simp add: and_mask_zero)

lemma require_alignment_iff:
  "require_alignment address alignment = Inr a \<longleftrightarrow>
     a = address \<and> is_power_of_two alignment \<and> alignment \<le> 4096 \<and> unat alignment dvd unat (raw address)"
  by (auto simp: require_alignment_def power_of_two_bits and_mask_zero dest: is_power_of_two_nonzero split: if_splits)

section \<open>Geometry\<close>

lemma axes_all: "list_ex P (axes_list a) \<longleftrightarrow> P (axis_x a) \<or> P (axis_y a) \<or> P (axis_z a)"
  by (simp add: axes_list_def)

definition geometry_valid :: "u32 axes \<Rightarrow> u32 axes \<Rightarrow> bool" where
  "geometry_valid grid workgroup \<longleftrightarrow>
     list_all (\<lambda>(g, w). 0 < w \<and> w \<le> 0xFFFF \<and> w \<le> g) (zip (axes_list grid) (axes_list workgroup))"

lemma geometry_new_iff:
  "geometry_new grid workgroup = Inr g \<longleftrightarrow> geometry_valid grid workgroup \<and>
     g = \<lparr>geo_grid = grid, geo_workgroup = map_axes ucast workgroup,
       geo_dimensions = geometry_dimensions grid workgroup\<rparr>"
proof -
  have one: "x \<noteq> 0 \<and> \<not> 1 < x \<longleftrightarrow> x = 1" for x :: u32
    by (auto simp: word_less_nat_alt word_unat_eq_iff)
  have trailing: "\<not> (geometry_dimensions grid workgroup < 3 \<and> (axis_z grid \<noteq> 1 \<or> axis_z workgroup \<noteq> 1) \<or>
      geometry_dimensions grid workgroup < 2 \<and> (axis_y grid \<noteq> 1 \<or> axis_y workgroup \<noteq> 1))"
    if "axis_y grid \<noteq> 0" "axis_z grid \<noteq> 0" "axis_y workgroup \<noteq> 0" "axis_z workgroup \<noteq> 0"
    using that one [of "axis_y grid"] one [of "axis_z grid"] one [of "axis_y workgroup"] one [of "axis_z workgroup"]
    by (auto simp: geometry_dimensions_def split: if_splits)
  have zero: "w \<le> g \<Longrightarrow> w \<noteq> 0 \<Longrightarrow> g \<noteq> 0" for g w :: u32
    by auto
  show ?thesis
    using trailing
    by (auto simp: geometry_new_def geometry_valid_def axes_list_def Let_def not_less word_gt_0 dest: zero split: if_splits)
qed

lemma geometry_dimensions_range: "1 \<le> geometry_dimensions grid workgroup \<and> geometry_dimensions grid workgroup \<le> 3"
  by (simp add: geometry_dimensions_def)

lemma unat_ucast_16:
  assumes "w \<le> 0xFFFF"
  shows "unat (ucast (w :: u32) :: u16) = unat w"
proof -
  have "unat w < 2 ^ 16"
    using assms by (simp add: word_le_nat_alt)
  then show ?thesis
    by (simp add: unsigned_ucast_eq take_bit_nat_eq_self)
qed

lemma unat_ucast_16_32 [simp]: "unat (ucast (w :: u16) :: u32) = unat w"
proof -
  have "unat w < 2 ^ 32"
    using unat_less_2p [of w] by simp
  then show ?thesis
    by (simp add: unsigned_ucast_eq take_bit_nat_eq_self)
qed

lemma cov6_axis:
  fixes g w :: u32
  assumes "0 < w" "w \<le> 0xFFFF"
  shows "unat g = unat (g div ucast (ucast w :: u16)) * unat (ucast w :: u16) +
      unat (ucast (g mod ucast (ucast w :: u16)) :: u16)"
    "(ucast (g mod ucast (ucast w :: u16)) :: u16) < ucast w"
proof -
  let ?w = "ucast w :: u16"
  have w: "unat ?w = unat w" "0 < unat w"
    using assms unat_ucast_16 [of w] by (simp_all add: word_less_nat_alt)
  have "unat (g mod ucast ?w) = unat g mod unat w"
    by (simp add: unat_mod w)
  moreover have "unat g mod unat w < unat w"
    using w by simp
  moreover have "unat w \<le> 0xFFFF"
    using assms by (simp add: word_le_nat_alt)
  ultimately have r: "unat (ucast (g mod ucast ?w) :: u16) = unat g mod unat w"
    by (intro trans [OF unat_ucast_16]) (simp_all add: word_le_nat_alt)
  show "unat g = unat (g div ucast ?w) * unat ?w + unat (ucast (g mod ucast ?w) :: u16)"
    by (simp add: r w unat_div)
  show "(ucast (g mod ucast ?w) :: u16) < ?w"
    using r w by (simp add: word_less_nat_alt)
qed

definition covers :: "u32 axes \<Rightarrow> cov6_shape \<Rightarrow> bool" where
  "covers grid shape \<longleftrightarrow> list_all (\<lambda>(g, n, w, r). unat g = unat n * unat w + unat r \<and> r < w)
     (zip (axes_list grid) (zip (axes_list (block_count shape)) (zip (axes_list (group_size shape)) (axes_list (remainder shape)))))"

lemma cov6_shape_covers:
  assumes "geometry_new grid workgroup = Inr g"
  shows "covers grid (cov6_implicit_dispatch_shape g)"
proof -
  note g = assms [unfolded geometry_new_iff]
  have axes: "0 < axis_x workgroup \<and> axis_x workgroup \<le> 0xFFFF" "0 < axis_y workgroup \<and> axis_y workgroup \<le> 0xFFFF"
    "0 < axis_z workgroup \<and> axis_z workgroup \<le> 0xFFFF"
    using g by (simp_all add: geometry_valid_def axes_list_def)
  have shape: "axes_list (block_count (cov6_implicit_dispatch_shape g)) =
      [axis_x grid div ucast (ucast (axis_x workgroup) :: u16), axis_y grid div ucast (ucast (axis_y workgroup) :: u16),
       axis_z grid div ucast (ucast (axis_z workgroup) :: u16)]"
    "axes_list (group_size (cov6_implicit_dispatch_shape g)) =
      [ucast (axis_x workgroup), ucast (axis_y workgroup), ucast (axis_z workgroup)]"
    "axes_list (remainder (cov6_implicit_dispatch_shape g)) =
      [ucast (axis_x grid mod ucast (ucast (axis_x workgroup) :: u16)), ucast (axis_y grid mod ucast (ucast (axis_y workgroup) :: u16)),
       ucast (axis_z grid mod ucast (ucast (axis_z workgroup) :: u16))]"
    using g by (simp_all add: cov6_implicit_dispatch_shape_def zip_axes_def axes_list_def axes.map_sel Let_def)
  show ?thesis
    unfolding covers_def shape axes_list_def [of grid]
    using cov6_axis [of "axis_x workgroup" "axis_x grid"] cov6_axis [of "axis_y workgroup" "axis_y grid"]
      cov6_axis [of "axis_z workgroup" "axis_z grid"] axes
    by (simp only: zip_Cons_Cons zip_Nil list.pred_inject split_conv simp_thms)
qed

section \<open>Images\<close>

definition bytes_at :: "nat \<Rightarrow> nat \<Rightarrow> u8 list \<Rightarrow> u8 list" where
  "bytes_at offset n bs = take n (drop offset bs)"

lemma dispatch_image_fields:
  "length (encode_unpublished p) = 64"
  "from_le_bytes (bytes_at 0 4 (encode_unpublished p)) = full_header p"
  "from_le_bytes (bytes_at 4 2 (encode_unpublished p)) = workgroup_size_x p"
  "from_le_bytes (bytes_at 6 2 (encode_unpublished p)) = workgroup_size_y p"
  "from_le_bytes (bytes_at 8 2 (encode_unpublished p)) = workgroup_size_z p"
  "from_le_bytes (bytes_at 12 4 (encode_unpublished p)) = grid_size_x p"
  "from_le_bytes (bytes_at 16 4 (encode_unpublished p)) = grid_size_y p"
  "from_le_bytes (bytes_at 20 4 (encode_unpublished p)) = grid_size_z p"
  "from_le_bytes (bytes_at 24 4 (encode_unpublished p)) = private_segment_size p"
  "from_le_bytes (bytes_at 28 4 (encode_unpublished p)) = group_segment_size p"
  "from_le_bytes (bytes_at 32 8 (encode_unpublished p)) = kernel_object p"
  "from_le_bytes (bytes_at 40 8 (encode_unpublished p)) = kernarg_address p"
  "from_le_bytes (bytes_at 56 8 (encode_unpublished p)) = completion_signal p"
  by (simp_all add: encode_unpublished_def bytes_at_def from_to_le_bytes)

lemma packet_header:
  assumes "dims \<le> (3 :: u16)"
  shows "(push_bit 16 (ucast dims) OR 1 :: u32) AND 0xff = 1"
    "(ucast (drop_bit 16 (push_bit 16 (ucast dims) OR 1 :: u32)) :: u16) = dims"
proof -
  have "dims = 0 \<or> dims = 1 \<or> dims = 2 \<or> dims = 3"
    using assms by (auto simp: word_le_nat_alt word_unat_eq_iff)
  then show "(push_bit 16 (ucast dims) OR 1 :: u32) AND 0xff = 1"
    "(ucast (drop_bit 16 (push_bit 16 (ucast dims) OR 1 :: u32)) :: u16) = dims"
    by auto
qed

lemma new_unpublished_iff:
  "(\<exists>p. new_unpublished_with_ordering g priv lds kobject kernarg alignment signal order = Inr p) \<longleftrightarrow>
     64 dvd unat (raw kobject) \<and> is_power_of_two alignment \<and> alignment \<le> 4096 \<and>
     unat alignment dvd unat (raw kernarg) \<and> 64 dvd unat (raw signal)"
proof -
  have "is_power_of_two (64 :: u64)"
    by (auto simp: is_power_of_two_iff intro: exI [of _ 6])
  then show ?thesis
    by (simp add: new_unpublished_with_ordering_def result_simps require_alignment_iff Let_def AMD_SIGNAL_ALIGNMENT_def)
qed

section \<open>Property\<close>

text \<open>C31: a kernel-dispatch packet says exactly what it was given.  If a geometry is accepted, every workgroup size is
  between 1 and 65535 and at most its grid size, and its implicit shape splits every grid axis into whole workgroups and a
  smaller remainder.  If a packet is prepared, the kernel object and the signal are 64-byte aligned and the argument block
  has the requested alignment.  Its image has 64 bytes, still carries the invalid type, reads back the inputs at the offsets of the hardware
  layout, and its header and dimensions form a reviewed publication.\<close>

theorem dispatch_packet_exact:
  assumes "geometry_new grid workgroup = Inr g"
    and "new_unpublished_with_ordering g priv lds kobject kernarg alignment signal order = Inr p"
  shows "geometry_valid grid workgroup \<and>
    64 dvd unat (raw kobject) \<and> unat alignment dvd unat (raw kernarg) \<and> 64 dvd unat (raw signal) \<and>
    (let bs = encode_unpublished (prep_packet p); shape = cov6_implicit_dispatch_shape g in
      length bs = 64 \<and> is_unpublished (prep_packet p) \<and>
      is_reviewed_aql_publication (ordering_header order) (setup_dimensions (prep_packet p)) \<and>
      from_le_bytes (bytes_at 4 2 bs) = (ucast (axis_x workgroup) :: u16) \<and>
      from_le_bytes (bytes_at 6 2 bs) = (ucast (axis_y workgroup) :: u16) \<and>
      from_le_bytes (bytes_at 8 2 bs) = (ucast (axis_z workgroup) :: u16) \<and>
      from_le_bytes (bytes_at 12 4 bs) = axis_x grid \<and> from_le_bytes (bytes_at 16 4 bs) = axis_y grid \<and>
      from_le_bytes (bytes_at 20 4 bs) = axis_z grid \<and>
      from_le_bytes (bytes_at 24 4 bs) = priv \<and> from_le_bytes (bytes_at 28 4 bs) = lds \<and>
      from_le_bytes (bytes_at 32 8 bs) = raw kobject \<and> from_le_bytes (bytes_at 40 8 bs) = raw kernarg \<and>
      from_le_bytes (bytes_at 56 8 bs) = raw signal \<and>
      covers grid shape)"
proof -
  note g = assms(1) [unfolded geometry_new_iff]
  have aligned: "64 dvd unat (raw kobject)" "unat alignment dvd unat (raw kernarg)" "64 dvd unat (raw signal)"
    using new_unpublished_iff [of g priv lds kobject kernarg alignment signal order] assms(2) by auto
  have p: "prep_packet p = \<lparr>full_header = push_bit 16 (ucast (geo_dimensions g)) OR 1,
      workgroup_size_x = axis_x (geo_workgroup g), workgroup_size_y = axis_y (geo_workgroup g),
      workgroup_size_z = axis_z (geo_workgroup g), pkt_reserved0 = 0,
      grid_size_x = axis_x (geo_grid g), grid_size_y = axis_y (geo_grid g), grid_size_z = axis_z (geo_grid g),
      private_segment_size = priv, group_segment_size = lds, kernel_object = raw kobject,
      kernarg_address = raw kernarg, pkt_reserved2 = 0, completion_signal = raw signal\<rparr>"
    using assms(2) by (auto simp: new_unpublished_with_ordering_def result_simps require_alignment_iff Let_def
        AQL_INVALID_PACKET_HEADER_def)
  have dims: "1 \<le> geo_dimensions g" "geo_dimensions g \<le> 3"
    using g geometry_dimensions_range [of grid workgroup] by simp_all
  have "is_unpublished (prep_packet p)" and dims_eq: "setup_dimensions (prep_packet p) = geo_dimensions g"
    using packet_header [OF dims(2)] by (simp_all add: p is_unpublished_def setup_dimensions_def AQL_INVALID_PACKET_HEADER_def)
  moreover have "is_reviewed_aql_publication (ordering_header order) (geo_dimensions g)"
    using dims by (cases order) (simp_all add: is_reviewed_aql_publication_def ordering_from_header_def)
  ultimately show ?thesis
    using g aligned cov6_shape_covers [OF assms(1)] unfolding Let_def dims_eq dispatch_image_fields
    by (simp add: p axes.map_sel)
qed

theorem dispatch_packet_exact_witness:
  "\<exists>g p. geometry_new (Axes 257 3 1) (Axes 64 2 1) = Inr g \<and>
     new_unpublished_with_ordering g 0 128 (ObservedGpuAddress 4096) (ObservedGpuAddress 8208) 16
       (ObservedGpuAddress 12288) WaitForPrior = Inr p \<and>
     from_le_bytes (bytes_at 40 8 (encode_unpublished (prep_packet p))) = (8208 :: u64)"
proof -
  obtain g where g: "geometry_new (Axes 257 3 1) (Axes 64 2 1) = Inr g"
    by (simp add: geometry_new_iff geometry_valid_def axes_list_def)
  obtain p where p: "new_unpublished_with_ordering g 0 128 (ObservedGpuAddress 4096) (ObservedGpuAddress 8208) 16
      (ObservedGpuAddress 12288) WaitForPrior = Inr p"
    by (simp add: new_unpublished_with_ordering_def require_alignment_def AMD_SIGNAL_ALIGNMENT_def Let_def)
  show ?thesis
    using g p dispatch_packet_exact [OF g p] unfolding Let_def by auto
qed

end
