(* ===== verification/Aql_Dependency.thy ===== *)
theory Aql_Dependency
  imports Aql_Packet
begin

text \<open>
  Dependency-ordered dispatch, after \<open>fe2o3-aql/src/dependency_dispatch.rs\<close>: a roster of dependency signals is
  packed into five-wide barrier packets followed by one kernel dispatch, reserved as one range of the ring and published
  in a fixed order of calls.  A panic of the planner is the value \<open>None\<close>.
\<close>

unbundle bit_operations_syntax

section \<open>Plans\<close>

definition AQL_MAX_DEPENDENCY_SIGNALS :: nat where
  "AQL_MAX_DEPENDENCY_SIGNALS = 256"

definition AQL_BARRIER_AND_FAN_IN :: nat where
  "AQL_BARRIER_AND_FAN_IN = 5"

definition AQL_MAX_DEPENDENCY_DISPATCH_PACKETS :: u32 where
  "AQL_MAX_DEPENDENCY_DISPATCH_PACKETS =
     of_nat ((AQL_MAX_DEPENDENCY_SIGNALS + AQL_BARRIER_AND_FAN_IN - 1) div AQL_BARRIER_AND_FAN_IN) + 1"

datatype dependency_signal = AqlDependencySignal (dep_address: observed_gpu_address)

definition dependency_signal_new :: "u64 \<Rightarrow> aql_address_error + dependency_signal" where
  "dependency_signal_new r =
     and_then (address_new r) (\<lambda>observed.
     and_then (require_alignment observed AMD_SIGNAL_ALIGNMENT) (\<lambda>observed. Inr (AqlDependencySignal observed)))"

definition dep_raw :: "dependency_signal \<Rightarrow> u64" where
  "dep_raw s = raw (dep_address s)"

record dependency_barrier =
  db_full_header :: u32
  db_reserved1 :: u32
  db_signals :: "u64 list"
  db_reserved2 :: u64
  db_completion_signal :: u64

text \<open>No signal fails the debug assertion; more signals than slots index out of the array.\<close>

definition from_signals :: "dependency_signal list \<Rightarrow> dependency_barrier option" where
  "from_signals signals =
     (if signals = [] \<or> AQL_BARRIER_AND_FAN_IN < length signals then None
      else Some \<lparr>db_full_header = ucast AQL_INVALID_PACKET_HEADER, db_reserved1 = 0,
        db_signals = map dep_raw signals @ replicate (AQL_BARRIER_AND_FAN_IN - length signals) 0,
        db_reserved2 = 0, db_completion_signal = 0\<rparr>)"

definition dependency_barrier_encode :: "dependency_barrier \<Rightarrow> u8 list" where
  "dependency_barrier_encode p = to_le_bytes 4 (db_full_header p) @ to_le_bytes 4 (db_reserved1 p) @
     concat (map (to_le_bytes 8) (db_signals p)) @ to_le_bytes 8 (db_reserved2 p) @
     to_le_bytes 8 (db_completion_signal p)"

datatype dependency_plan_error =
    TooManyDependencies nat nat
  | DuplicateDependencySignal nat nat
  | Plan_Allocation

record dependency_plan_failure =
  plan_error :: dependency_plan_error
  plan_final_dispatch :: aql_prepared_dispatch

record dependency_plan =
  dependency_count :: u16
  barriers :: "dependency_barrier list"
  final_dispatch :: aql_prepared_dispatch

text \<open>\<open>slice.chunks(n)\<close> for a positive \<open>n\<close>.\<close>

function chunks :: "nat \<Rightarrow> 'a list \<Rightarrow> 'a list list" where
  "chunks n xs = (if xs = [] \<or> n = 0 then [] else take n xs # chunks n (drop n xs))"
  by pat_completeness auto
termination
  by (relation "measure (\<lambda>(n, xs). length xs)") auto

declare chunks.simps [simp del]

text \<open>The first duplicate: the least index whose signal occurs before it, and where it occurs first.\<close>

definition first_duplicate :: "dependency_signal list \<Rightarrow> (nat \<times> nat) option" where
  "first_duplicate ds =
     find_map (\<lambda>j. map_option (\<lambda>i. (i, j)) (find (\<lambda>i. ds ! i = ds ! j) [0..<j])) [0..<length ds]"

text \<open>\<open>allocated\<close> answers the two \<open>try_reserve_exact\<close> calls.\<close>

definition dependency_new :: "bool \<times> bool \<Rightarrow> dependency_signal list \<Rightarrow> aql_prepared_dispatch \<Rightarrow>
    (dependency_plan_failure + dependency_plan) option" where
  "dependency_new allocated ds final =
     (let failure = (\<lambda>e. Some (Inl \<lparr>plan_error = e, plan_final_dispatch = final\<rparr>))
      in if AQL_MAX_DEPENDENCY_SIGNALS < length ds
         then failure (TooManyDependencies (length ds) AQL_MAX_DEPENDENCY_SIGNALS)
         else (case first_duplicate ds of
             Some (i, j) \<Rightarrow> failure (DuplicateDependencySignal i j)
           | None \<Rightarrow>
               if \<not> fst allocated then failure Plan_Allocation
               else if \<not> snd allocated then failure Plan_Allocation
               else (case those (map from_signals (chunks AQL_BARRIER_AND_FAN_IN ds)) of
                   None \<Rightarrow> None
                 | Some bs \<Rightarrow>
                     Some (Inr \<lparr>dependency_count = of_nat (length ds), barriers = bs,
                       final_dispatch = final\<lparr>prep_ordering := if ds = [] then Independent else WaitForPrior\<rparr>\<rparr>))))"

definition barrier_count :: "dependency_plan \<Rightarrow> u32" where
  "barrier_count p = of_nat (length (barriers p))"

definition packet_count :: "dependency_plan \<Rightarrow> u32" where
  "packet_count p = barrier_count p + 1"

definition plan_barrier :: "dependency_plan \<Rightarrow> u32 \<Rightarrow> dependency_barrier option" where
  "plan_barrier p i = (if unat i < length (barriers p) then Some (barriers p ! unat i) else None)"

section \<open>Publication\<close>

datatype publication_boundary =
    ClaimWriteIndex
  | BarrierBody u32
  | FinalDispatchBody
  | BarrierHeader u32
  | FinalDispatchHeader
  | Doorbell

record terminal_custody =
  custody_prepared :: dependency_plan
  custody_reservation :: aql_batch_reservation

datatype 'e publication_failure =
    RetryableBeforeSideEffect aql_ring_reservation_error dependency_plan
  | RejectedBeforeSideEffect aql_ring_reservation_error dependency_plan
  | TerminalAmbiguous 'e publication_boundary terminal_custody

record dependency_publication =
  pub_dependency_count :: u16
  pub_barrier_count :: u16
  pub_first_packet_id :: u64
  pub_last_packet_id :: u64
  pub_packet_count :: u32

datatype dependency_call =
    Claim_Write_Index u64 u32
  | Write_Barrier aql_batch_entry dependency_barrier
  | Write_Dispatch aql_batch_entry aql_dispatch_packet
  | Barrier_Release_Header aql_batch_entry u16
  | Dispatch_Release_Header aql_batch_entry u16
  | Ring_Doorbell u64

definition terminal_failure :: "dependency_plan \<Rightarrow> aql_batch_reservation \<Rightarrow> publication_boundary \<Rightarrow> 'e \<Rightarrow>
    'e publication_failure" where
  "terminal_failure plan r boundary e =
     TerminalAmbiguous e boundary \<lparr>custody_prepared = plan, custody_reservation = r\<rparr>"

text \<open>What a stage of the publication ends with: done, a failed call at a boundary, or a panic.\<close>

datatype 'e stage = Stage_Done | Stage_Failed publication_boundary 'e | Stage_Panic

definition stage_call :: "(dependency_call, 'w, 'e) target \<Rightarrow> dependency_call \<Rightarrow> publication_boundary \<Rightarrow> 'w \<Rightarrow>
    'e stage \<times> 'w" where
  "stage_call target c boundary w =
     (case target c w of (Inl e, w) \<Rightarrow> (Stage_Failed boundary e, w) | (Inr _, w) \<Rightarrow> (Stage_Done, w))"

definition stage_then :: "'e stage \<times> 'w \<Rightarrow> ('w \<Rightarrow> 'e stage \<times> 'w) \<Rightarrow> 'e stage \<times> 'w" where
  "stage_then s f = (case s of (Stage_Done, w) \<Rightarrow> f w | _ \<Rightarrow> s)"

fun barrier_bodies :: "(dependency_call, 'w, 'e) target \<Rightarrow> aql_batch_reservation \<Rightarrow> nat \<Rightarrow> dependency_barrier list \<Rightarrow> 'w \<Rightarrow>
    'e stage \<times> 'w" where
  "barrier_bodies target r i [] w = (Stage_Done, w)"
| "barrier_bodies target r i (b # bs) w =
     (case batch_entry r (of_nat i) of
        None \<Rightarrow> (Stage_Panic, w)
      | Some entry \<Rightarrow>
          stage_then (stage_call target (Write_Barrier entry b) (BarrierBody (of_nat i)) w)
            (barrier_bodies target r (Suc i) bs))"

fun barrier_headers :: "(dependency_call, 'w, 'e) target \<Rightarrow> aql_batch_reservation \<Rightarrow> nat list \<Rightarrow> 'w \<Rightarrow>
    'e stage \<times> 'w" where
  "barrier_headers target r [] w = (Stage_Done, w)"
| "barrier_headers target r (i # is) w =
     (case batch_entry r (of_nat i) of
        None \<Rightarrow> (Stage_Panic, w)
      | Some entry \<Rightarrow>
          stage_then (stage_call target (Barrier_Release_Header entry AQL_BARRIER_AND_HEADER) (BarrierHeader (of_nat i)) w)
            (barrier_headers target r is))"

definition publication_stages :: "dependency_plan \<Rightarrow> aql_batch_reservation \<Rightarrow> (dependency_call, 'w, 'e) target \<Rightarrow> 'w \<Rightarrow>
    'e stage \<times> 'w" where
  "publication_stages plan r target w =
     stage_then (stage_call target (Claim_Write_Index (first_packet_id r) (reserved_count r)) ClaimWriteIndex w) (\<lambda>w.
     stage_then (barrier_bodies target r 0 (barriers plan) w) (\<lambda>w.
     case batch_entry r (barrier_count plan) of
       None \<Rightarrow> (Stage_Panic, w)
     | Some final_entry \<Rightarrow>
         stage_then (stage_call target (Write_Dispatch final_entry (prep_packet (final_dispatch plan))) FinalDispatchBody w) (\<lambda>w.
         stage_then (barrier_headers target r [0..<unat (barrier_count plan)] w) (\<lambda>w.
         stage_then (stage_call target (Dispatch_Release_Header final_entry (ordering_header (prep_ordering (final_dispatch plan))))
           FinalDispatchHeader w) (\<lambda>w.
         stage_call target (Ring_Doorbell (last_packet_id r)) Doorbell w)))))"

definition dependency_publish_with :: "dependency_plan \<Rightarrow> aql_ring \<Rightarrow> u64 \<Rightarrow> (dependency_call, 'w, 'e) target \<Rightarrow> 'w \<Rightarrow>
    ('e publication_failure + dependency_publication) option \<times> aql_ring \<times> 'w" where
  "dependency_publish_with plan ring observed target w =
     (case reserve_fixed_batch_v2 ring observed (packet_count plan) of
        Inl error \<Rightarrow>
          (case error of
             RingFull \<Rightarrow> (Some (Inl (RetryableBeforeSideEffect error plan)), ring, w)
           | InsufficientSpace _ _ \<Rightarrow> (Some (Inl (RetryableBeforeSideEffect error plan)), ring, w)
           | _ \<Rightarrow> (Some (Inl (RejectedBeforeSideEffect error plan)), ring, w))
      | Inr (r, ring) \<Rightarrow>
          (case publication_stages plan r target w of
             (Stage_Panic, w) \<Rightarrow> (None, ring, w)
           | (Stage_Failed boundary e, w) \<Rightarrow> (Some (Inl (terminal_failure plan r boundary e)), ring, w)
           | (Stage_Done, w) \<Rightarrow>
               (Some (Inr \<lparr>pub_dependency_count = dependency_count plan, pub_barrier_count = ucast (barrier_count plan),
                  pub_first_packet_id = first_packet_id r, pub_last_packet_id = last_packet_id r,
                  pub_packet_count = reserved_count r\<rparr>), ring, w)))"

end
