(* ===== verification/Aql_Ring_Theorems.thy ===== *)
theory Aql_Ring_Theorems
  imports Aql_Ring
begin

text \<open>
  The ring's arithmetic: capacities are powers of two between 64 and 33554432 packets, a slot is the packet identity
  modulo the capacity, reservation is admitted exactly when the window has room, and the iterator lists the batch.
\<close>

unbundle bit_operations_syntax

section \<open>Capacity and slots\<close>

lemma unat_ucast_32_64 [simp]: "unat (ucast (x :: u32) :: u64) = unat x"
proof -
  have "unat x < 2 ^ 64"
    using unat_less_2p [of x] by simp
  then show ?thesis
    by (simp add: unsigned_ucast_eq take_bit_eq_mod)
qed

lemma from_ring_bytes_Inr:
  assumes "from_ring_bytes bytes = Inr capacity"
  obtains k where "6 \<le> k" "k \<le> 25" "unat (packets capacity) = 2 ^ k"
proof -
  obtain j where j: "unat bytes = 2 ^ j" and range: "AQL_MIN_RING_BYTES \<le> bytes" "bytes \<le> AQL_MAX_RING_BYTES"
    and c: "capacity = AqlRingCapacity (bytes div 64)"
    using assms by (auto simp: from_ring_bytes_def is_power_of_two_iff AQL_KERNEL_DISPATCH_PACKET_BYTES_def
        not_less split: if_splits)
  have "(2::nat) ^ 12 \<le> 2 ^ j" "(2::nat) ^ j \<le> 2 ^ 31"
    using range by (simp_all add: AQL_MIN_RING_BYTES_def AQL_MAX_RING_BYTES_def word_le_nat_alt j)
  then have bounds: "12 \<le> j" "j \<le> 31"
    by (simp_all only: power_increasing_iff)
  have "unat (packets capacity) = 2 ^ j div 2 ^ 6"
    by (simp add: c unat_div j)
  also have "\<dots> = 2 ^ (j - 6)"
    using bounds by (intro power_diff [symmetric]) simp_all
  finally show thesis
    using that [of "j - 6"] bounds by simp
qed

lemma slot_mod:
  assumes "unat (packets capacity) = 2 ^ k" and "k < 32"
  shows "unat (ucast (i AND capacity_mask capacity) :: u32) = unat i mod 2 ^ k"
proof -
  have "(ucast (packets capacity) :: u64) = of_nat (unat (ucast (packets capacity) :: u64))"
    by simp
  then have "(ucast (packets capacity) :: u64) = of_nat (2 ^ k)"
    by (simp only: unat_ucast_32_64 assms(1))
  then have "capacity_mask capacity = mask k"
    by (simp add: capacity_mask_def mask_eq_exp_minus_1)
  then have masked: "i AND capacity_mask capacity = take_bit k i"
    by (simp add: take_bit_eq_mask)
  have "unat (take_bit k i) = unat i mod 2 ^ k"
    using unsigned_take_bit_eq [of k i, where ?'a = nat] by (simp only: take_bit_eq_mod [of k "unat i"])
  moreover have "unat i mod 2 ^ k < 2 ^ 32"
  proof -
    have "unat i mod 2 ^ k < 2 ^ k"
      by simp
    also have "(2::nat) ^ k \<le> 2 ^ 32"
      using assms(2) by (intro power_increasing) simp_all
    finally show ?thesis .
  qed
  ultimately show ?thesis
    by (simp only: masked unsigned_ucast_eq take_bit_nat_eq_self_iff) (simp add: take_bit_nat_eq_self)
qed

lemma window_mod_inj:
  assumes "hi - lo \<le> (n :: nat)"
  shows "inj_on (\<lambda>i. i mod n) {lo..<hi}"
proof (rule linorder_inj_onI)
  fix a b
  assume "a < b" "a \<in> {lo..<hi}" "b \<in> {lo..<hi}"
  then have "0 < b - a" "b - a < n"
    using assms by auto
  then have "\<not> n dvd b - a"
    using nat_dvd_not_less by blast
  then show "a mod n \<noteq> b mod n"
    using \<open>a < b\<close> mod_eq_dvd_iff_nat [of a b n] by (metis less_imp_le mod_eq_dvd_iff_nat)
qed auto

section \<open>The window\<close>

definition ring_ok :: "aql_ring \<Rightarrow> bool" where
  "ring_ok ring \<longleftrightarrow> ring_last_read ring \<le> ring_write ring \<and>
     unat (ring_write ring) - unat (ring_last_read ring) \<le> unat (packets (ring_capacity ring))"

lemma ring_new_ok:
  "ring_new capacity write_counter read_counter = Inr ring \<Longrightarrow>
     ring_ok ring \<and> ring_capacity ring = capacity \<and> ring_write ring = write_counter"
  by (auto simp: ring_new_def checked_sub_def ring_ok_def not_less word_le_nat_alt unat_sub split: if_splits)

lemma reserve_accepts:
  "reserve_batch_with_maximum ring observed count maximum = Inr (r, ring') \<longleftrightarrow>
     0 < count \<and> count \<le> maximum \<and> ring_last_read ring \<le> observed \<and> observed \<le> ring_write ring \<and>
     unat (ring_write ring) - unat observed + unat count \<le> unat (packets (ring_capacity ring)) \<and>
     unat (ring_write ring) + unat count < 2 ^ 64 \<and>
     r = \<lparr>first_packet_id = ring_write ring, reserved_count = count, slot_mask = capacity_mask (ring_capacity ring),
       observed_read = observed, next_write = ring_write ring + ucast count\<rparr> \<and>
     ring' = ring\<lparr>ring_write := ring_write ring + ucast count, ring_last_read := observed\<rparr>"
  (is "?lhs = ?rhs")
proof -
  have sub: "unat (ring_write ring - observed) = unat (ring_write ring) - unat observed" if "observed \<le> ring_write ring"
    using that by (simp add: unat_sub word_le_nat_alt)
  show ?thesis
  proof (cases "observed \<le> ring_write ring \<and> unat (ring_write ring) - unat observed \<le> unat (packets (ring_capacity ring))")
    case False
    then show ?thesis
      using sub by (auto simp: reserve_batch_with_maximum_def checked_sub_def Let_def word_less_nat_alt word_le_nat_alt)
  next
    case True
    then have "unat (ucast (packets (ring_capacity ring)) - (ring_write ring - observed) :: u64) =
        unat (packets (ring_capacity ring)) - (unat (ring_write ring) - unat observed)"
      using sub by (simp add: unat_sub word_le_nat_alt)
    then show ?thesis
      using True sub
      by (auto simp: reserve_batch_with_maximum_def checked_sub_def checked_add_def Let_def word_less_nat_alt
          word_le_nat_alt word_unat_eq_iff split: if_splits)
  qed
qed

section \<open>The entries of a batch\<close>

definition entry_at :: "u64 \<Rightarrow> u64 \<Rightarrow> nat \<Rightarrow> aql_batch_entry" where
  "entry_at first m i = \<lparr>packet_id = first + of_nat i, slot_index = ucast ((first + of_nat i) AND m)\<rparr>"

lemma entries_collect_eq:
  "\<lbrakk>iter_next_index it \<le> iter_packet_count it; unat (iter_first_packet_id it) + unat (iter_packet_count it) < 2 ^ 64\<rbrakk> \<Longrightarrow>
     entries_collect it = map (entry_at (iter_first_packet_id it) (iter_slot_mask it))
       [unat (iter_next_index it)..<unat (iter_packet_count it)]"
proof (induction it rule: entries_collect.induct)
  case (1 it)
  show ?case
  proof (cases "iter_next_index it < iter_packet_count it")
    case False
    then have "iter_next_index it = iter_packet_count it"
      using 1(2) by simp
    then show ?thesis
      by (simp add: entries_collect.simps [of it] entries_next_def)
  next
    case True
    let ?it' = "it\<lparr>iter_next_index := iter_next_index it + 1\<rparr>"
    have lt: "unat (iter_next_index it) < unat (iter_packet_count it)"
      using True by (simp add: word_less_nat_alt)
    then have suc: "unat (iter_next_index it + 1) = Suc (unat (iter_next_index it))"
      using unat_plus_no_overflow [of "iter_next_index it" 1] unat_less_2p [of "iter_packet_count it"] by simp
    have nxt: "entries_next it = Some (entry_at (iter_first_packet_id it) (iter_slot_mask it) (unat (iter_next_index it)), ?it')"
      using True lt 1(3) by (simp add: entries_next_def checked_add_def entry_at_def)
    have "entries_collect ?it' = map (entry_at (iter_first_packet_id it) (iter_slot_mask it))
        [Suc (unat (iter_next_index it))..<unat (iter_packet_count it)]"
      using 1(1) [OF nxt refl] 1(3) lt suc by (simp add: word_le_nat_alt)
    then show ?thesis
      using lt by (simp add: entries_collect.simps [of it] nxt upt_conv_Cons)
  qed
qed

lemma batch_entry_eq:
  assumes "unat (first_packet_id r) + unat (reserved_count r) < 2 ^ 64"
  shows "batch_entry r i = (if i < reserved_count r then Some (entry_at (first_packet_id r) (slot_mask r) (unat i)) else None)"
  using assms by (auto simp: batch_entry_def checked_add_def entry_at_def word_less_nat_alt not_less word_le_nat_alt)

section \<open>Runs of reservations\<close>

definition ring_step :: "u64 \<times> u32 \<Rightarrow> aql_ring \<Rightarrow> (aql_ring_reservation_error + aql_batch_reservation) \<times> aql_ring" where
  "ring_step request ring =
     (case reserve_fixed_batch_v2 ring (fst request) (snd request) of
        Inl e \<Rightarrow> (Inl e, ring)
      | Inr (r, ring') \<Rightarrow> (Inr r, ring'))"

definition reserved_entries :: "aql_ring_reservation_error + aql_batch_reservation \<Rightarrow> aql_batch_entry list" where
  "reserved_entries out = (case out of Inl _ \<Rightarrow> [] | Inr r \<Rightarrow> entries_collect (batch_entries r))"

lemma reserved_entries_eq:
  assumes "reserve_batch_with_maximum ring observed count maximum = Inr (r, ring')"
  shows "entries_collect (batch_entries r) =
      map (entry_at (ring_write ring) (capacity_mask (ring_capacity ring))) [0..<unat count]"
    "unat (ring_write ring') = unat (ring_write ring) + unat count" "ring_capacity ring' = ring_capacity ring"
    "ring_ok ring'"
proof -
  note acc = assms [unfolded reserve_accepts]
  show "entries_collect (batch_entries r) =
      map (entry_at (ring_write ring) (capacity_mask (ring_capacity ring))) [0..<unat count]"
    using acc entries_collect_eq [of "batch_entries r"] by (simp add: batch_entries_def)
  show w: "unat (ring_write ring') = unat (ring_write ring) + unat count" "ring_capacity ring' = ring_capacity ring"
    using acc unat_plus_no_overflow [of "ring_write ring" "ucast count"] by simp_all
  have "unat observed \<le> unat (ring_write ring)"
    using acc by (simp add: word_le_nat_alt)
  moreover have "ring_last_read ring' = observed"
    using acc by simp
  ultimately show "ring_ok ring'"
    using acc w unfolding ring_ok_def by (simp only: word_le_nat_alt) linarith
qed

lemma entry_ids:
  assumes "unat first + n < 2 ^ 64"
  shows "map (unat \<circ> packet_id) (map (entry_at first m) [0..<n]) = [unat first..<unat first + n]"
proof (rule nth_equalityI)
  fix i
  assume i: "i < length (map (unat \<circ> packet_id) (map (entry_at first m) [0..<n]))"
  then have "unat (of_nat i :: u64) = i"
    using assms by (simp add: unat_of_nat)
  then show "map (unat \<circ> packet_id) (map (entry_at first m) [0..<n]) ! i = [unat first..<unat first + n] ! i"
    using i assms unat_plus_no_overflow [of first "of_nat i"] by (simp add: entry_at_def)
qed simp

lemma upt_split: "\<lbrakk>i \<le> j; j \<le> k\<rbrakk> \<Longrightarrow> [i..<k] = [i..<j] @ [j..<k]"
  using upt_add_eq_append [of i j "k - j"] by simp

lemma ring_run:
  "\<lbrakk>run_ops ring_step requests ring = (outs, ring'); ring_ok ring\<rbrakk> \<Longrightarrow>
     ring_ok ring' \<and> ring_capacity ring' = ring_capacity ring \<and> ring_write ring \<le> ring_write ring' \<and>
     map (unat \<circ> packet_id) (concat (map reserved_entries outs)) = [unat (ring_write ring)..<unat (ring_write ring')] \<and>
     (\<forall>e\<in>set (concat (map reserved_entries outs)).
        slot_index e = ucast (packet_id e AND capacity_mask (ring_capacity ring)))"
proof (induction requests arbitrary: ring outs)
  case (Cons request requests)
  obtain out outs' ring1 where outs: "outs = out # outs'"
    and step: "ring_step request ring = (out, ring1)" and rest: "run_ops ring_step requests ring1 = (outs', ring')"
    using run_ops_Cons [OF Cons.prems(1)] by blast
  show ?case
  proof (cases out)
    case (Inl e)
    then have "ring1 = ring"
      using step by (auto simp: ring_step_def split: sum.splits)
    then show ?thesis
      using Cons.IH [OF rest] Cons.prems(2) by (simp add: outs Inl reserved_entries_def)
  next
    case (Inr r)
    then have res: "reserve_batch_with_maximum ring (fst request) (snd request) AQL_MAX_FIXED_BATCH_PACKETS = Inr (r, ring1)"
      using step by (auto simp: ring_step_def reserve_fixed_batch_v2_def split: sum.splits)
    note batch = reserved_entries_eq [OF res]
    have fits: "unat (ring_write ring) + unat (snd request) < 2 ^ 64"
      using res [unfolded reserve_accepts] by blast
    have "ring_write ring \<le> ring_write ring1"
      using batch(2) by (simp add: word_le_nat_alt)
    moreover note IH = Cons.IH [OF rest batch(4)]
    have "[unat (ring_write ring)..<unat (ring_write ring')] =
        [unat (ring_write ring)..<unat (ring_write ring1)] @ [unat (ring_write ring1)..<unat (ring_write ring')]"
      using calculation IH by (intro upt_split) (simp_all add: word_le_nat_alt)
    ultimately show ?thesis
      using IH entry_ids [OF fits, of "capacity_mask (ring_capacity ring)"] batch
      by (auto simp: outs Inr reserved_entries_def entry_at_def o_def)
  qed
qed simp

section \<open>Property\<close>

text \<open>C28: an AQL ring never hands out a slot that may still be occupied.  Over any sequence of batch
  requests with any observed read counters, the packet identities issued are exactly the consecutive ones from the
  initial to the final write counter; every slot is the identity modulo the capacity; the packets between the last
  observed read counter and the write counter never exceed the capacity and occupy distinct slots; and the next batch is
  admitted exactly when the read counter has not regressed or overtaken, the window has room and the counter does not
  overflow.\<close>

theorem aql_ring_window:
  assumes "from_ring_bytes bytes = Inr capacity" and "ring_new capacity write_counter read_counter = Inr ring"
    and "run_ops ring_step requests ring = (outs, ring')"
  shows "let n = unat (packets capacity); issued = concat (map reserved_entries outs);
      lo = unat (ring_last_read ring'); hi = unat (ring_write ring') in
    map (unat \<circ> packet_id) issued = [unat write_counter..<hi] \<and>
    map (unat \<circ> slot_index) issued = map (\<lambda>i. i mod n) [unat write_counter..<hi] \<and>
    lo \<le> hi \<and> hi - lo \<le> n \<and> inj_on (\<lambda>i. i mod n) {lo..<hi} \<and>
    (\<exists>r. reserve_fixed_batch_v2 ring' observed count = Inr r) =
      (0 < count \<and> count \<le> AQL_MAX_FIXED_BATCH_PACKETS \<and> lo \<le> unat observed \<and> unat observed \<le> hi \<and>
       hi - unat observed + unat count \<le> n \<and> hi + unat count < 2 ^ 64)"
proof -
  obtain k where k: "6 \<le> k" "k \<le> 25" "unat (packets capacity) = 2 ^ k"
    using from_ring_bytes_Inr [OF assms(1)] .
  note new = ring_new_ok [OF assms(2)]
  note run = ring_run [OF assms(3) conjunct1 [OF new]]
  have ok: "ring_ok ring'" and cap: "ring_capacity ring' = capacity"
    and ids: "map (unat \<circ> packet_id) (concat (map reserved_entries outs)) = [unat write_counter..<unat (ring_write ring')]"
    using run new by auto
  have slot: "unat (slot_index e) = unat (packet_id e) mod 2 ^ k" if "e \<in> set (concat (map reserved_entries outs))" for e
  proof -
    have "slot_index e = ucast (packet_id e AND capacity_mask capacity)"
      using run new that by metis
    then show ?thesis
      using slot_mod [OF k(3)] k(2) by simp
  qed
  then have "map (unat \<circ> slot_index) (concat (map reserved_entries outs)) =
      map (\<lambda>i. i mod 2 ^ k) (map (unat \<circ> packet_id) (concat (map reserved_entries outs)))"
    by simp
  moreover have "unat (ring_last_read ring') \<le> unat (ring_write ring')"
    "unat (ring_write ring') - unat (ring_last_read ring') \<le> 2 ^ k"
    using ok k(3) by (simp_all add: ring_ok_def cap word_le_nat_alt)
  moreover have "(\<exists>r. reserve_fixed_batch_v2 ring' observed count = Inr r) \<longleftrightarrow>
      0 < count \<and> count \<le> AQL_MAX_FIXED_BATCH_PACKETS \<and> unat (ring_last_read ring') \<le> unat observed \<and>
      unat observed \<le> unat (ring_write ring') \<and> unat (ring_write ring') - unat observed + unat count \<le> 2 ^ k \<and>
      unat (ring_write ring') + unat count < 2 ^ 64"
    using k(3) unfolding reserve_fixed_batch_v2_def by (simp add: reserve_accepts cap word_le_nat_alt)
  ultimately show ?thesis
    unfolding Let_def k(3) using ids window_mod_inj by (simp only: simp_thms)
qed

definition demo_ring :: aql_ring where
  "demo_ring = \<lparr>ring_capacity = AqlRingCapacity 64, ring_write = 60, ring_last_read = 2\<rparr>"

theorem aql_ring_window_witness:
  "\<exists>outs ring'. run_ops ring_step [(2, 6), (2, 1), (60, 5)] demo_ring = (outs, ring') \<and>
     map (unat \<circ> packet_id) (concat (map reserved_entries outs)) = [60..<unat (ring_write ring')]"
proof -
  have new: "from_ring_bytes 4096 = Inr (AqlRingCapacity 64)" "ring_new (AqlRingCapacity 64) 60 2 = Inr demo_ring"
    by (simp_all add: from_ring_bytes_def AQL_MIN_RING_BYTES_def AQL_MAX_RING_BYTES_def is_power_of_two_def
        AQL_KERNEL_DISPATCH_PACKET_BYTES_def ring_new_def checked_sub_def demo_ring_def upt_rec)
  obtain outs ring' where run: "run_ops ring_step [(2, 6), (2, 1), (60, 5)] demo_ring = (outs, ring')"
    by fastforce
  show ?thesis
    using run aql_ring_window [OF new run] unfolding Let_def by simp
qed

end
