(* ===== verification/Aql_Dependency_Theorems.thy ===== *)
theory Aql_Dependency_Theorems
  imports Aql_Dependency Aql_Ring_Theorems
begin

text \<open>
  Dependency-ordered dispatch: the plan waits for exactly the given signals, and its publication is the flat sequence
  \<open>publication_calls\<close>, cut after the first call that fails.
\<close>

unbundle bit_operations_syntax

section \<open>Plans\<close>

lemma chunks_props:
  "0 < n \<Longrightarrow> concat (chunks n xs) = xs \<and> length (chunks n xs) = (length xs + n - 1) div n \<and>
     (\<forall>c\<in>set (chunks n xs). c \<noteq> [] \<and> length c \<le> n)"
proof (induction n xs rule: chunks.induct)
  case (1 n xs)
  show ?case
  proof (cases "xs = []")
    case True
    then show ?thesis
      using 1(2) by (simp add: chunks.simps [of n "[]"])
  next
    case False
    have IH: "concat (chunks n (drop n xs)) = drop n xs" "length (chunks n (drop n xs)) = (length xs - n + n - 1) div n"
      "\<forall>c\<in>set (chunks n (drop n xs)). c \<noteq> [] \<and> length c \<le> n"
      using 1(1) 1(2) False by (simp_all add: not_le)
    have "Suc ((length xs - n + n - 1) div n) = (length xs + n - 1) div n"
    proof -
      have eq: "length xs + n - 1 = n + (length xs - 1)"
        using False 1(2) by (cases xs) simp_all
      have "(n + (length xs - 1)) div n = Suc ((length xs - 1) div n)"
        using 1(2) div_add_self1 [of n "length xs - 1"] by linarith
      moreover have "(length xs - n + n - 1) div n = (length xs - 1) div n"
        using 1(2) by (cases "n \<le> length xs") simp_all
      ultimately show ?thesis
        by (simp only: eq)
    qed
    then show ?thesis
      using IH False 1(2) by (simp add: chunks.simps [of n xs])
  qed
qed

definition padded :: "dependency_signal list \<Rightarrow> dependency_barrier" where
  "padded signals = \<lparr>db_full_header = ucast AQL_INVALID_PACKET_HEADER, db_reserved1 = 0,
     db_signals = map dep_raw signals @ replicate (AQL_BARRIER_AND_FAN_IN - length signals) 0,
     db_reserved2 = 0, db_completion_signal = 0\<rparr>"

lemma those_map_Some: "(\<And>x. x \<in> set xs \<Longrightarrow> f x = Some (g x)) \<Longrightarrow> those (map f xs) = Some (map g xs)"
  by (induction xs) auto

lemma packed_barriers:
  "those (map from_signals (chunks AQL_BARRIER_AND_FAN_IN ds)) = Some (map padded (chunks AQL_BARRIER_AND_FAN_IN ds))"
  using chunks_props [of AQL_BARRIER_AND_FAN_IN ds]
  by (intro those_map_Some) (auto simp: from_signals_def padded_def AQL_BARRIER_AND_FAN_IN_def)

lemma filter_padded:
  assumes "\<forall>d\<in>set (concat cs). dep_raw d \<noteq> 0"
  shows "filter (\<lambda>s. s \<noteq> 0) (concat (map (db_signals \<circ> padded) cs)) = map dep_raw (concat cs)"
  using assms by (induction cs) (auto simp: padded_def filter_id_conv)

lemma find_earlier:
  "find (\<lambda>i. xs ! i = xs ! j) [0..<j] = None \<longleftrightarrow> (\<forall>i<j. xs ! i \<noteq> xs ! j)"
  by (auto simp: find_None_iff)

lemma distinct_take_Suc:
  "j < length xs \<Longrightarrow> distinct (take (Suc j) xs) \<longleftrightarrow> distinct (take j xs) \<and> (\<forall>i<j. xs ! i \<noteq> xs ! j)"
  by (auto simp: take_Suc_conv_app_nth in_set_conv_nth)

lemma find_map_append: "find_map f (xs @ ys) = (case find_map f xs of None \<Rightarrow> find_map f ys | Some y \<Rightarrow> Some y)"
  by (induction xs) (auto split: option.splits)

lemma first_duplicate_upto:
  "n \<le> length ds \<Longrightarrow>
     (case find_map (\<lambda>j. map_option (\<lambda>i. (i, j)) (find (\<lambda>i. ds ! i = ds ! j) [0..<j])) [0..<n] of
        None \<Rightarrow> distinct (take n ds)
      | Some (i, j) \<Rightarrow> i < j \<and> j < n \<and> ds ! i = ds ! j \<and> distinct (take j ds))"
proof (induction n)
  case (Suc n)
  show ?case
  proof (cases "find_map (\<lambda>j. map_option (\<lambda>i. (i, j)) (find (\<lambda>i. ds ! i = ds ! j) [0..<j])) [0..<n]")
    case None
    then have dist: "distinct (take n ds)"
      using Suc by simp
    show ?thesis
    proof (cases "find (\<lambda>i. ds ! i = ds ! n) [0..<n]")
      case clear: None
      then have "distinct (take (Suc n) ds)"
        using dist Suc.prems distinct_take_Suc [of n ds] by (simp add: find_earlier)
      then show ?thesis
        using None clear by (simp add: find_map_append)
    next
      case (Some i)
      then have "i < n \<and> ds ! i = ds ! n"
        by (auto simp: find_Some_iff)
      then show ?thesis
        using None Some dist by (simp add: find_map_append)
    qed
  next
    case (Some ij)
    then show ?thesis
      using Suc by (auto simp: find_map_append split: prod.splits)
  qed
qed simp

lemma first_duplicate_spec:
  "case first_duplicate ds of
     None \<Rightarrow> distinct ds
   | Some (i, j) \<Rightarrow> i < j \<and> j < length ds \<and> ds ! i = ds ! j \<and> distinct (take j ds)"
  using first_duplicate_upto [of "length ds" ds] by (simp only: first_duplicate_def take_all order_refl simp_thms)

lemma dependency_signal_aligned:
  assumes "dependency_signal_new r = Inr d"
  shows "dep_raw d = r" "r \<noteq> 0"
  using assms by (auto simp: dependency_signal_new_def dep_raw_def address_new_def require_alignment_def result_simps
      split: if_splits)

text \<open>C30: a dependency plan waits for exactly the signals it was given.  For signals that were admitted,
  planning never panics; it fails exactly for more than 256 signals, for a repeated one, naming the least repeated position
  and where the signal stands first, or, when neither applies, for a refused allocation, and then hands the dispatch back
  unchanged.  Otherwise the non-zero slots of the
  barrier packets, in order, are the given signals; every barrier has five slots and at least one signal; the plan has one
  barrier for every five signals and one dispatch, at most 53 packets; and the dispatch waits for the barriers exactly
  when there are any.\<close>

theorem dependency_plan_exact:
  assumes "list_all (\<lambda>d. dependency_signal_new (dep_raw d) = Inr d) ds"
  shows "case dependency_new allocated ds final of
      None \<Rightarrow> False
    | Some (Inl f) \<Rightarrow> plan_final_dispatch f = final \<and>
        (256 < length ds \<and> plan_error f = TooManyDependencies (length ds) 256 \<or>
         length ds \<le> 256 \<and> (\<exists>i j. i < j \<and> j < length ds \<and> ds ! i = ds ! j \<and> distinct (take j ds) \<and>
           plan_error f = DuplicateDependencySignal i j) \<or>
         length ds \<le> 256 \<and> distinct ds \<and> allocated \<noteq> (True, True) \<and> plan_error f = Plan_Allocation)
    | Some (Inr p) \<Rightarrow> length ds \<le> 256 \<and> distinct ds \<and> allocated = (True, True) \<and>
        filter (\<lambda>s. s \<noteq> 0) (concat (map db_signals (barriers p))) = map dep_raw ds \<and>
        list_all (\<lambda>b. length (db_signals b) = 5 \<and> hd (db_signals b) \<noteq> 0) (barriers p) \<and>
        unat (dependency_count p) = length ds \<and>
        unat (packet_count p) = (length ds + 4) div 5 + 1 \<and> unat (packet_count p) \<le> 53 \<and>
        prep_packet (final_dispatch p) = prep_packet final \<and>
        prep_ordering (final_dispatch p) = (if ds = [] then Independent else WaitForPrior)"
proof (cases "length ds \<le> 256 \<and> first_duplicate ds = None \<and> allocated = (True, True)")
  case False
  then show ?thesis
    using first_duplicate_spec [of ds]
    by (cases allocated) (auto simp: dependency_new_def Let_def AQL_MAX_DEPENDENCY_SIGNALS_def split: option.splits)
next
  case True
  let ?cs = "chunks AQL_BARRIER_AND_FAN_IN ds"
  let ?p = "\<lparr>dependency_count = of_nat (length ds), barriers = map padded ?cs,
    final_dispatch = final\<lparr>prep_ordering := if ds = [] then Independent else WaitForPrior\<rparr>\<rparr>"
  have fan: "0 < AQL_BARRIER_AND_FAN_IN"
    by (simp add: AQL_BARRIER_AND_FAN_IN_def)
  note cs = chunks_props [OF fan, of ds]
  have new: "dependency_new allocated ds final = Some (Inr ?p)"
    using True by (simp add: dependency_new_def packed_barriers AQL_MAX_DEPENDENCY_SIGNALS_def Let_def)
  have raws: "\<forall>d\<in>set ds. dep_raw d \<noteq> 0"
    using assms dependency_signal_aligned(2) by (auto simp: list_all_iff)
  have count: "length ?cs = (length ds + 4) div 5"
    using cs by (simp add: AQL_BARRIER_AND_FAN_IN_def)
  then have le: "length ?cs \<le> 52"
    using True div_le_mono [of "length ds + 4" 260 5] by simp
  have slots: "length (db_signals (padded c)) = 5 \<and> hd (db_signals (padded c)) \<noteq> 0" if "c \<in> set ?cs" for c
  proof -
    have "set c \<subseteq> set (concat ?cs)"
      using that by auto
    then have "set c \<subseteq> set ds"
      by (simp only: cs)
    moreover have "c \<noteq> []" "length c \<le> 5"
      using cs that by (simp_all add: AQL_BARRIER_AND_FAN_IN_def)
    ultimately show ?thesis
      using raws by (cases c) (auto simp: padded_def AQL_BARRIER_AND_FAN_IN_def)
  qed
  have "unat (of_nat (length ?cs) :: u32) = length ?cs"
    using le by (simp add: unat_of_nat)
  then have "unat (packet_count ?p) = (length ds + 4) div 5 + 1"
    using le count unat_plus_no_overflow [of "of_nat (length ?cs) :: u32" 1]
    by (simp add: packet_count_def barrier_count_def)
  moreover have "unat (of_nat (length ds) :: u16) = length ds"
    using True by (simp add: unat_of_nat)
  moreover have "filter (\<lambda>s. s \<noteq> 0) (concat (map db_signals (map padded ?cs))) = map dep_raw ds"
    using filter_padded [of ?cs] raws cs by simp
  ultimately show ?thesis
    using new True first_duplicate_spec [of ds] slots le count by (simp add: list_all_iff)
qed

definition demo_signals :: "dependency_signal list" where
  "demo_signals = map (\<lambda>i. AqlDependencySignal (ObservedGpuAddress (64 * of_nat i))) [1..<8]"

definition demo_dispatch :: aql_prepared_dispatch where
  "demo_dispatch = \<lparr>prep_packet = \<lparr>full_header = 0x10001, workgroup_size_x = 64, workgroup_size_y = 1,
     workgroup_size_z = 1, pkt_reserved0 = 0, grid_size_x = 256, grid_size_y = 1, grid_size_z = 1,
     private_segment_size = 0, group_segment_size = 0, kernel_object = 4096, kernarg_address = 8192, pkt_reserved2 = 0,
     completion_signal = 12288\<rparr>, prep_ordering = Independent\<rparr>"

lemma demo_signals_admitted: "list_all (\<lambda>d. dependency_signal_new (dep_raw d) = Inr d) demo_signals" "distinct demo_signals"
  by (simp_all add: demo_signals_def dependency_signal_new_def address_new_def require_alignment_def dep_raw_def
      AMD_SIGNAL_ALIGNMENT_def upt_rec)

lemma demo_signals_length: "length demo_signals = 7"
  by (simp add: demo_signals_def)

theorem dependency_plan_exact_witness:
  "\<exists>p. dependency_new (True, True) demo_signals demo_dispatch = Some (Inr p) \<and> unat (packet_count p) = 3 \<and>
     filter (\<lambda>s. s \<noteq> 0) (concat (map db_signals (barriers p))) = map dep_raw demo_signals"
  using dependency_plan_exact [OF demo_signals_admitted(1), where allocated = "(True, True)" and final = demo_dispatch] demo_signals_admitted(2) demo_signals_length
  by (auto simp: distinct_conv_nth split: option.splits sum.splits)

section \<open>Publication\<close>

fun flat_calls :: "(dependency_call, 'w, 'e) target \<Rightarrow> (dependency_call \<times> publication_boundary) list \<Rightarrow> 'w \<Rightarrow> 'e stage \<times> 'w" where
  "flat_calls target [] w = (Stage_Done, w)"
| "flat_calls target ((c, b) # cs) w = stage_then (stage_call target c b w) (flat_calls target cs)"

lemma stage_then_assoc: "stage_then (stage_then s f) g = stage_then s (\<lambda>w. stage_then (f w) g)"
  by (auto simp: stage_then_def split: prod.splits stage.splits)

lemma stage_then_Done [simp]: "stage_then (Stage_Done, w) f = f w"
  by (simp add: stage_then_def)

lemma stage_then_return: "stage_then s (\<lambda>w. (Stage_Done, w)) = s"
  by (auto simp: stage_then_def split: prod.splits stage.splits)

lemma flat_calls_fun:
  "flat_calls target [] = (\<lambda>w. (Stage_Done, w))"
  "flat_calls target ((c, b) # cs) = (\<lambda>w. stage_then (stage_call target c b w) (flat_calls target cs))"
  by (simp_all add: fun_eq_iff)

lemma flat_calls_append:
  "flat_calls target (xs @ ys) = (\<lambda>w. stage_then (flat_calls target xs w) (flat_calls target ys))"
proof (induction xs)
  case (Cons cb xs)
  obtain c b where cb: "cb = (c, b)"
    by (cases cb)
  show ?case
    by (rule ext) (simp add: cb Cons.IH stage_then_assoc)
qed simp

text \<open>The order of a publication: claim the range, write every body, then publish every header, then the doorbell.\<close>

definition publication_calls :: "dependency_plan \<Rightarrow> aql_batch_reservation \<Rightarrow> (dependency_call \<times> publication_boundary) list" where
  "publication_calls plan r =
     (let entry = entry_at (first_packet_id r) (slot_mask r); m = length (barriers plan) in
      [(Claim_Write_Index (first_packet_id r) (reserved_count r), ClaimWriteIndex)] @
      map (\<lambda>(i, b). (Write_Barrier (entry i) b, BarrierBody (of_nat i))) (enumerate 0 (barriers plan)) @
      [(Write_Dispatch (entry m) (prep_packet (final_dispatch plan)), FinalDispatchBody)] @
      map (\<lambda>i. (Barrier_Release_Header (entry i) AQL_BARRIER_AND_HEADER, BarrierHeader (of_nat i))) [0..<m] @
      [(Dispatch_Release_Header (entry m) (ordering_header (prep_ordering (final_dispatch plan))), FinalDispatchHeader),
       (Ring_Doorbell (last_packet_id r), Doorbell)])"

lemma barrier_bodies_flat:
  "\<lbrakk>\<And>j. j < i + length bs \<Longrightarrow> batch_entry r (of_nat j) = Some (entry j)\<rbrakk> \<Longrightarrow>
     barrier_bodies target r i bs w =
       flat_calls target (map (\<lambda>(i, b). (Write_Barrier (entry i) b, BarrierBody (of_nat i))) (enumerate i bs)) w"
proof (induction bs arbitrary: i w)
  case (Cons b bs)
  have "barrier_bodies target r (Suc i) bs =
      flat_calls target (map (\<lambda>(i, b). (Write_Barrier (entry i) b, BarrierBody (of_nat i))) (enumerate (Suc i) bs))"
    using Cons by (intro ext Cons.IH) simp
  then show ?case
    using Cons.prems [of i] by simp
qed simp

lemma barrier_headers_flat:
  "\<lbrakk>\<And>j. j \<in> set is \<Longrightarrow> batch_entry r (of_nat j) = Some (entry j)\<rbrakk> \<Longrightarrow>
     barrier_headers target r is w =
       flat_calls target (map (\<lambda>i. (Barrier_Release_Header (entry i) AQL_BARRIER_AND_HEADER, BarrierHeader (of_nat i))) is) w"
proof (induction "is" arbitrary: w)
  case (Cons i "is")
  have "barrier_headers target r is =
      flat_calls target (map (\<lambda>i. (Barrier_Release_Header (entry i) AQL_BARRIER_AND_HEADER, BarrierHeader (of_nat i))) is)"
    using Cons by (intro ext Cons.IH) simp
  then show ?case
    using Cons.prems [of i] by simp
qed simp

lemma publication_stages_flat:
  assumes "\<And>j. j \<le> length (barriers plan) \<Longrightarrow>
      batch_entry r (of_nat j) = Some (entry_at (first_packet_id r) (slot_mask r) j)"
    and "length (barriers plan) < 2 ^ 32"
  shows "publication_stages plan r target w = flat_calls target (publication_calls plan r) w"
proof -
  have m: "unat (barrier_count plan) = length (barriers plan)"
    using assms(2) by (simp add: barrier_count_def unat_of_nat)
  have final: "batch_entry r (barrier_count plan) = Some (entry_at (first_packet_id r) (slot_mask r) (length (barriers plan)))"
    using assms(1) by (simp add: barrier_count_def)
  have "barrier_bodies target r 0 (barriers plan) = flat_calls target (map (\<lambda>(i, b). (Write_Barrier
      (entry_at (first_packet_id r) (slot_mask r) i) b, BarrierBody (of_nat i))) (enumerate 0 (barriers plan)))"
    using assms(1) by (intro ext barrier_bodies_flat) simp
  moreover have "barrier_headers target r [0..<length (barriers plan)] = flat_calls target (map (\<lambda>i. (Barrier_Release_Header
      (entry_at (first_packet_id r) (slot_mask r) i) AQL_BARRIER_AND_HEADER, BarrierHeader (of_nat i))) [0..<length (barriers plan)])"
    using assms(1) by (intro ext barrier_headers_flat) simp
  ultimately show ?thesis
    unfolding publication_stages_def publication_calls_def Let_def m final
    by (simp add: flat_calls_append flat_calls_fun stage_then_return)
qed

text \<open>A target that records its calls.\<close>

definition logged :: "(dependency_call, 'w, 'e) target \<Rightarrow> (dependency_call, dependency_call list \<times> 'w, 'e) target" where
  "logged target c w = (case target c (snd w) of (r, w') \<Rightarrow> (r, (fst w @ [c], w')))"

lemma stage_call_logged:
  "stage_call (logged target) c b (log, w) =
     (case target c w of (Inl e, w) \<Rightarrow> (Stage_Failed b e, (log @ [c], w)) | (Inr _, w) \<Rightarrow> (Stage_Done, (log @ [c], w)))"
  by (simp add: stage_call_def logged_def split: prod.splits sum.splits)

lemma flat_calls_logged:
  "flat_calls (logged target) cs (log, w) = (s, (log', w')) \<Longrightarrow>
     s = Stage_Done \<and> log' = log @ map fst cs \<or>
     (\<exists>n e. n < length cs \<and> s = Stage_Failed (snd (cs ! n)) e \<and> log' = log @ map fst (take (Suc n) cs))"
proof (induction cs arbitrary: log w)
  case (Cons cb cs)
  obtain c b where cb: "cb = (c, b)"
    by (cases cb)
  obtain res v where call: "target c w = (res, v)"
    by (cases "target c w")
  show ?case
  proof (cases res)
    case (Inl e)
    then show ?thesis
      using Cons.prems call by (intro disjI2 exI [of _ 0]) (auto simp: cb stage_call_logged stage_then_def)
  next
    case (Inr u)
    then have "flat_calls (logged target) cs (log @ [c], v) = (s, (log', w'))"
      using Cons.prems call by (simp add: cb stage_call_logged)
    from Cons.IH [OF this] show ?thesis
    proof (elim disjE exE conjE)
      fix n e
      assume "n < length cs" "s = Stage_Failed (snd (cs ! n)) e" "log' = (log @ [c]) @ map fst (take (Suc n) cs)"
      then show ?thesis
        by (intro disjI2 exI [of _ "Suc n"] exI [of _ e]) (simp add: cb)
    qed (simp add: cb)
  qed
qed simp

definition retryable :: "aql_ring_reservation_error \<Rightarrow> bool" where
  "retryable e \<longleftrightarrow> (case e of RingFull \<Rightarrow> True | InsufficientSpace _ _ \<Rightarrow> True | _ \<Rightarrow> False)"

lemma plan_length:
  assumes "dependency_new allocated ds final = Some (Inr plan)"
  shows "length (barriers plan) \<le> 52"
proof -
  have "length ds \<le> 256" "barriers plan = map padded (chunks AQL_BARRIER_AND_FAN_IN ds)"
    using assms by (auto simp: dependency_new_def Let_def AQL_MAX_DEPENDENCY_SIGNALS_def packed_barriers
        split: option.splits if_splits)
  then show ?thesis
    using chunks_props [of AQL_BARRIER_AND_FAN_IN ds] div_le_mono [of "length ds + 4" 260 5]
    by (simp add: AQL_BARRIER_AND_FAN_IN_def)
qed

text \<open>C29: a dependency plan is published in one order.  If the ring refuses the range nothing happens: no
  call is made, the ring is unchanged and the plan comes back, as retryable exactly when the ring is full or short of
  space.  Otherwise the calls made are the first calls of one fixed sequence: claim the range, write every barrier body in
  slot order, write the dispatch body, publish the barrier headers in order, publish the dispatch header, ring the
  doorbell.  Either all of them were made and the publication is returned, or the last one made failed, and the failure
  names its boundary and keeps the plan and the reservation.  Planning and publishing never panic, so no header is
  exposed before every body has been written.\<close>

theorem dependency_publication_order:
  assumes "dependency_new allocated ds final = Some (Inr plan)"
    and "dependency_publish_with plan ring observed (logged target) ([], w) = (result, ring', (log, w'))"
  shows "(\<exists>e. reserve_fixed_batch_v2 ring observed (packet_count plan) = Inl e \<and> ring' = ring \<and> log = [] \<and> w' = w \<and>
      result = Some (Inl (if retryable e then RetryableBeforeSideEffect e plan else RejectedBeforeSideEffect e plan))) \<or>
    (\<exists>r. reserve_fixed_batch_v2 ring observed (packet_count plan) = Inr (r, ring') \<and>
      (log = map fst (publication_calls plan r) \<and> (\<exists>p. result = Some (Inr p) \<and>
         pub_first_packet_id p = first_packet_id r \<and> pub_packet_count p = packet_count plan) \<or>
       (\<exists>n e. n < length (publication_calls plan r) \<and> log = map fst (take (Suc n) (publication_calls plan r)) \<and>
         result = Some (Inl (TerminalAmbiguous e (snd (publication_calls plan r ! n))
           \<lparr>custody_prepared = plan, custody_reservation = r\<rparr>)))))"
proof (cases "reserve_fixed_batch_v2 ring observed (packet_count plan)")
  case (Inl e)
  then show ?thesis
    using assms(2) by (auto simp: dependency_publish_with_def retryable_def split: aql_ring_reservation_error.splits)
next
  case (Inr rr)
  obtain r ring1 where rr: "rr = (r, ring1)"
    by (cases rr)
  note acc = Inr [unfolded rr reserve_fixed_batch_v2_def reserve_accepts]
  have m: "length (barriers plan) \<le> 52"
    by (rule plan_length [OF assms(1)])
  have count: "reserved_count r = packet_count plan" "unat (packet_count plan) = length (barriers plan) + 1"
    using acc m unat_plus_no_overflow [of "of_nat (length (barriers plan)) :: u32" 1]
    by (simp_all add: packet_count_def barrier_count_def unat_of_nat)
  have "unat (first_packet_id r) + unat (reserved_count r) < 2 ^ 64"
    using acc by simp
  then have "batch_entry r (of_nat j) = Some (entry_at (first_packet_id r) (slot_mask r) j)" if "j \<le> length (barriers plan)" for j
    using that m count by (simp add: batch_entry_eq word_less_nat_alt unat_of_nat)
  then have "publication_stages plan r (logged target) ([], w) = flat_calls (logged target) (publication_calls plan r) ([], w)"
    using m by (intro publication_stages_flat) simp_all
  moreover obtain s where stages: "publication_stages plan r (logged target) ([], w) = (s, (log, w'))" and "ring' = ring1"
    and result: "result = (case s of Stage_Panic \<Rightarrow> None
      | Stage_Failed b e \<Rightarrow> Some (Inl (terminal_failure plan r b e))
      | Stage_Done \<Rightarrow> Some (Inr \<lparr>pub_dependency_count = dependency_count plan, pub_barrier_count = ucast (barrier_count plan),
          pub_first_packet_id = first_packet_id r, pub_last_packet_id = last_packet_id r,
          pub_packet_count = reserved_count r\<rparr>))"
    using assms(2) Inr rr
    by (cases "publication_stages plan r (logged target) ([], w)")
      (auto simp: dependency_publish_with_def split: stage.splits)
  ultimately show ?thesis
    using flat_calls_logged [of target "publication_calls plan r" "[]" w s log w'] Inr rr count(1)
    by (auto simp: terminal_failure_def)
qed

definition demo_plan :: dependency_plan where
  "demo_plan = \<lparr>dependency_count = 0, barriers = [], final_dispatch = demo_dispatch\<rparr>"

definition demo_target :: "(dependency_call, nat, string) target" where
  "demo_target c w = (case c of Dispatch_Release_Header _ _ \<Rightarrow> (Inl ''bus'', w) | _ \<Rightarrow> (Inr (), Suc w))"

theorem dependency_publication_order_witness:
  "\<exists>ring' r. reserve_fixed_batch_v2 demo_ring 10 1 = Inr (r, ring') \<and>
     dependency_publish_with demo_plan demo_ring 10 (logged demo_target) ([], 0) =
       (Some (Inl (TerminalAmbiguous ''bus'' FinalDispatchHeader \<lparr>custody_prepared = demo_plan, custody_reservation = r\<rparr>)),
        ring', (map fst (take 3 (publication_calls demo_plan r)), 2))"
proof -
  have new: "dependency_new (True, True) [] demo_dispatch = Some (Inr demo_plan)"
    by (simp add: dependency_new_def first_duplicate_def chunks.simps [of _ "[]"] demo_plan_def demo_dispatch_def Let_def)
  have one: "packet_count demo_plan = 1" "barrier_count demo_plan = 0" "barriers demo_plan = []"
    by (simp_all add: packet_count_def barrier_count_def demo_plan_def)
  let ?r = "\<lparr>first_packet_id = 60, reserved_count = 1, slot_mask = 63, observed_read = 10, next_write = 61\<rparr>"
  have res: "reserve_fixed_batch_v2 demo_ring 10 1 = Inr (?r, demo_ring\<lparr>ring_write := 61, ring_last_read := 10\<rparr>)"
    by (simp add: reserve_fixed_batch_v2_def reserve_batch_with_maximum_def demo_ring_def checked_sub_def checked_add_def
        AQL_MAX_FIXED_BATCH_PACKETS_def capacity_mask_def)
  have calls: "publication_calls demo_plan ?r = [(Claim_Write_Index 60 1, ClaimWriteIndex),
      (Write_Dispatch (entry_at 60 63 0) (prep_packet demo_dispatch), FinalDispatchBody),
      (Dispatch_Release_Header (entry_at 60 63 0) (ordering_header (prep_ordering demo_dispatch)), FinalDispatchHeader),
      (Ring_Doorbell (last_packet_id ?r), Doorbell)]"
    by (simp add: publication_calls_def demo_plan_def Let_def)
  obtain result ring' log w' where
    run: "dependency_publish_with demo_plan demo_ring 10 (logged demo_target) ([], 0) = (result, ring', (log, w'))"
    by (metis prod.collapse)
  have "batch_entry ?r 0 = Some (entry_at 60 63 0)"
    by (simp add: batch_entry_def entry_at_def checked_add_def)
  then have "w' = 2 \<and> (\<exists>b c. result = Some (Inl (TerminalAmbiguous ''bus'' b c)) \<and> b = FinalDispatchHeader)"
    using run by (auto simp: dependency_publish_with_def one res publication_stages_def
        stage_call_logged demo_target_def stage_then_def terminal_failure_def)
  then obtain c where w': "w' = 2" and result: "result = Some (Inl (TerminalAmbiguous ''bus'' FinalDispatchHeader c))"
    by blast
  then obtain n where n: "n < length (publication_calls demo_plan ?r)" "log = map fst (take (Suc n) (publication_calls demo_plan ?r))"
      "FinalDispatchHeader = snd (publication_calls demo_plan ?r ! n)"
    and c: "c = \<lparr>custody_prepared = demo_plan, custody_reservation = ?r\<rparr>"
    and ring': "ring' = demo_ring\<lparr>ring_write := 61, ring_last_read := 10\<rparr>"
    using dependency_publication_order [OF new run] by (auto simp: one res)
  have "n = 2"
    using n(1,3) by (auto simp: calls nth_Cons' split: if_splits)
  then show ?thesis
    using run res n(2) by (simp add: w' result c ring')
qed

end
