(* ===== verification/Credit_Vector.thy ===== *)
theory Credit_Vector
  imports Fe2o3_Prelude
begin

text \<open>
  Resource vectors and the decisions of a credit record,
  \<open>crates/fe2o3-runtime-model/src/r67_resource_credits.rs\<close> and the bodies it includes.  A vector is an
  array of 19 counts, one per resource kind; \<open>vector_ok\<close> is the length of that array, which Rust has in
  the type.  Admission and release are the source's loops over the dimensions, with their early returns.
\<close>

section \<open>Resource kinds and vectors\<close>

definition R67_RESOURCE_DIMENSIONS :: nat where
  "R67_RESOURCE_DIMENSIONS = 19"

datatype resource_kind =
    LogicalPayloadBytes
  | RequestedAllocationBytes
  | ResidentHostAllocationBytes
  | ResidentDeviceAllocationBytes
  | ExecutableHostImageBytes
  | ExecutableDeviceBytes
  | ControlResidentBytes
  | QueueResidentBytes
  | SignalResidentBytes
  | KernargResidentBytes
  | QueueSlots
  | SignalSlots
  | KernargSlots
  | OperationSlots
  | ReplyBytes
  | ReplyCells
  | TerminalRecordBytes
  | QuarantineBookkeepingBytes
  | AllocationRecords

text \<open>The cast \<open>kind as usize\<close> numbers the constructors in their order.\<close>

fun kind_index :: "resource_kind \<Rightarrow> nat" where
  "kind_index LogicalPayloadBytes = 0"
| "kind_index RequestedAllocationBytes = 1"
| "kind_index ResidentHostAllocationBytes = 2"
| "kind_index ResidentDeviceAllocationBytes = 3"
| "kind_index ExecutableHostImageBytes = 4"
| "kind_index ExecutableDeviceBytes = 5"
| "kind_index ControlResidentBytes = 6"
| "kind_index QueueResidentBytes = 7"
| "kind_index SignalResidentBytes = 8"
| "kind_index KernargResidentBytes = 9"
| "kind_index QueueSlots = 10"
| "kind_index SignalSlots = 11"
| "kind_index KernargSlots = 12"
| "kind_index OperationSlots = 13"
| "kind_index ReplyBytes = 14"
| "kind_index ReplyCells = 15"
| "kind_index TerminalRecordBytes = 16"
| "kind_index QuarantineBookkeepingBytes = 17"
| "kind_index AllocationRecords = 18"

record resource_vector =
  counts :: "u64 list"

definition vector_ok :: "resource_vector \<Rightarrow> bool" where
  "vector_ok v \<longleftrightarrow> length (counts v) = R67_RESOURCE_DIMENSIONS"

definition vector_zero :: resource_vector where
  "vector_zero = \<lparr>counts = replicate R67_RESOURCE_DIMENSIONS 0\<rparr>"

definition vector_get :: "resource_vector \<Rightarrow> resource_kind \<Rightarrow> u64" where
  "vector_get v kind = counts v ! kind_index kind"

definition vector_with :: "resource_vector \<Rightarrow> resource_kind \<Rightarrow> u64 \<Rightarrow> resource_vector" where
  "vector_with v kind count = v\<lparr>counts := (counts v)[kind_index kind := count]\<rparr>"

definition r67_requested_allocation_charge :: "u64 \<Rightarrow> resource_vector" where
  "r67_requested_allocation_charge bytes =
     \<lparr>counts = [0, bytes, 0, 0, 0, 0, 0, 0, 0, 0, 0, 0, 0, 0, 0, 0, 0, 0, 1]\<rparr>"

section \<open>Admission and release\<close>

function reserve_loop :: "resource_vector \<Rightarrow> resource_vector \<Rightarrow> resource_vector \<Rightarrow> resource_vector \<Rightarrow> nat \<Rightarrow>
    resource_vector option" where
  "reserve_loop used charge capacity next_used index =
     (if index < R67_RESOURCE_DIMENSIONS
      then (case checked_add (counts used ! index) (counts charge ! index) of
          None \<Rightarrow> None
        | Some value \<Rightarrow> if counts capacity ! index < value then None
            else reserve_loop used charge capacity
              (next_used\<lparr>counts := (counts next_used)[index := value]\<rparr>) (index + 1))
      else Some next_used)"
  by pat_completeness auto
termination
  by (relation "measure (\<lambda>(_, _, _, _, index). R67_RESOURCE_DIMENSIONS - index)") auto

function release_loop :: "resource_vector \<Rightarrow> resource_vector \<Rightarrow> resource_vector \<Rightarrow> nat \<Rightarrow> resource_vector option" where
  "release_loop used charge next_used index =
     (if index < R67_RESOURCE_DIMENSIONS
      then (case checked_sub (counts used ! index) (counts charge ! index) of
          None \<Rightarrow> None
        | Some value \<Rightarrow> release_loop used charge
            (next_used\<lparr>counts := (counts next_used)[index := value]\<rparr>) (index + 1))
      else Some next_used)"
  by pat_completeness auto
termination
  by (relation "measure (\<lambda>(_, _, _, index). R67_RESOURCE_DIMENSIONS - index)") auto

declare reserve_loop.simps [simp del] release_loop.simps [simp del]

definition r67_resource_reserve :: "resource_vector \<Rightarrow> resource_vector \<Rightarrow> resource_vector \<Rightarrow> resource_vector option" where
  "r67_resource_reserve used charge capacity = reserve_loop used charge capacity vector_zero 0"

definition r67_resource_release :: "resource_vector \<Rightarrow> resource_vector \<Rightarrow> resource_vector option" where
  "r67_resource_release used charge = release_loop used charge vector_zero 0"

section \<open>Record transitions\<close>

datatype credit_phase = Reserved | Retained | Quarantined | Vacant

datatype credit_action = Retain | CancelUnissued | ReleaseRejected | ReleaseDisposed | Quarantine

definition r67_credit_transition :: "u64 \<Rightarrow> u64 \<Rightarrow> credit_phase \<Rightarrow> credit_action \<Rightarrow> credit_phase option" where
  "r67_credit_transition actual_owner expected_owner phase action =
     (if actual_owner = 0 \<or> actual_owner \<noteq> expected_owner then None
      else case (phase, action) of
          (Reserved, Retain) \<Rightarrow> Some Retained
        | (Reserved, CancelUnissued) \<Rightarrow> Some Vacant
        | (Retained, ReleaseRejected) \<Rightarrow> Some Vacant
        | (Retained, ReleaseDisposed) \<Rightarrow> Some Vacant
        | (Retained, Quarantine) \<Rightarrow> Some Quarantined
        | _ \<Rightarrow> None)"

section \<open>The loops as pointwise arithmetic\<close>

text \<open>\<open>amount v k\<close> is the count in dimension \<open>k\<close> as a number, so that sums of amounts do not wrap.\<close>

definition amount :: "resource_vector \<Rightarrow> nat \<Rightarrow> nat" where
  "amount v k = unat (counts v ! k)"

lemma vector_eqI:
  assumes "vector_ok v" "vector_ok w" and "\<And>k. k < R67_RESOURCE_DIMENSIONS \<Longrightarrow> amount v k = amount w k"
  shows "v = w"
proof -
  have "counts v = counts w"
    using assms by (intro nth_equalityI) (auto simp: vector_ok_def amount_def word_unat_eq_iff)
  then show ?thesis by simp
qed

lemma vector_ok_zero [simp, intro]: "vector_ok vector_zero"
  by (simp add: vector_ok_def vector_zero_def)

lemma amount_zero [simp]: "k < R67_RESOURCE_DIMENSIONS \<Longrightarrow> amount vector_zero k = 0"
  by (simp add: amount_def vector_zero_def)

lemma amount_less: "amount v k < 2 ^ 64"
  using unat_less_2p [of "counts v ! k"] by (simp add: amount_def)

text \<open>A vector given by its amounts, and the two loops as pointwise addition and subtraction.\<close>

definition vector_of :: "(nat \<Rightarrow> nat) \<Rightarrow> resource_vector" where
  "vector_of f = \<lparr>counts = map (\<lambda>k. of_nat (f k)) [0..<R67_RESOURCE_DIMENSIONS]\<rparr>"

lemma vector_ok_vector_of [simp, intro]: "vector_ok (vector_of f)"
  by (simp add: vector_ok_def vector_of_def)

lemma amount_vector_of: "\<lbrakk>k < R67_RESOURCE_DIMENSIONS; f k < 2 ^ 64\<rbrakk> \<Longrightarrow> amount (vector_of f) k = f k"
  by (simp add: amount_def vector_of_def unat_of_nat)

definition fits :: "resource_vector \<Rightarrow> resource_vector \<Rightarrow> resource_vector \<Rightarrow> bool" where
  "fits used charge capacity \<longleftrightarrow>
     (\<forall>k < R67_RESOURCE_DIMENSIONS. amount used k + amount charge k \<le> amount capacity k)"

definition covers :: "resource_vector \<Rightarrow> resource_vector \<Rightarrow> bool" where
  "covers used charge \<longleftrightarrow> (\<forall>k < R67_RESOURCE_DIMENSIONS. amount charge k \<le> amount used k)"

lemma reserve_loop_step:
  assumes "index < R67_RESOURCE_DIMENSIONS"
  shows "reserve_loop used charge capacity acc index =
    (if amount used index + amount charge index \<le> amount capacity index
     then reserve_loop used charge capacity
       (acc\<lparr>counts := (counts acc)[index := of_nat (amount used index + amount charge index)]\<rparr>) (index + 1)
     else None)"
proof -
  let ?u = "counts used ! index" and ?c = "counts charge ! index"
  have sum: "of_nat (amount used index + amount charge index) = ?u + ?c"
    by (simp add: amount_def)
  show ?thesis
  proof (cases "unat ?u + unat ?c < 2 ^ 64")
    case True
    then show ?thesis
      using assms sum unat_plus_no_overflow [of ?u ?c]
      by (subst reserve_loop.simps) (simp add: checked_add_def amount_def word_less_nat_alt)
  next
    case False
    then show ?thesis
      using assms amount_less [of capacity index]
      by (subst reserve_loop.simps) (simp add: checked_add_def amount_def)
  qed
qed

lemma release_loop_step:
  assumes "index < R67_RESOURCE_DIMENSIONS"
  shows "release_loop used charge acc index =
    (if amount charge index \<le> amount used index
     then release_loop used charge
       (acc\<lparr>counts := (counts acc)[index := of_nat (amount used index - amount charge index)]\<rparr>) (index + 1)
     else None)"
  using assms
  by (subst release_loop.simps) (simp add: checked_sub_def amount_def word_le_nat_alt of_nat_diff)

lemma all_from_split:
  "index < (n::nat) \<Longrightarrow>
     (\<forall>k. index \<le> k \<and> k < n \<longrightarrow> P k) \<longleftrightarrow> P index \<and> (\<forall>k. index + 1 \<le> k \<and> k < n \<longrightarrow> P k)"
  by (metis Suc_eq_plus1 Suc_leD not_less_eq_eq le_antisym order_refl)

lemma update_prefix:
  assumes "index < n" and "length xs = n"
  shows "take (index + 1) (xs[index := f index]) @ map f [index + 1..<n] = take index xs @ map f [index..<n]"
  using assms by (simp add: take_Suc_conv_app_nth upt_conv_Cons)

lemma reserve_loop_eq:
  assumes "index \<le> R67_RESOURCE_DIMENSIONS" and "vector_ok acc"
  shows "reserve_loop used charge capacity acc index =
    (if \<forall>k. index \<le> k \<and> k < R67_RESOURCE_DIMENSIONS \<longrightarrow> amount used k + amount charge k \<le> amount capacity k
     then Some \<lparr>counts = take index (counts acc) @
       map (\<lambda>k. of_nat (amount used k + amount charge k)) [index..<R67_RESOURCE_DIMENSIONS]\<rparr>
     else None)"
  using assms
proof (induction "R67_RESOURCE_DIMENSIONS - index" arbitrary: index acc)
  case 0
  then show ?case
    by (subst reserve_loop.simps) (simp add: vector_ok_def)
next
  case (Suc m)
  let ?f = "\<lambda>k. of_nat (amount used k + amount charge k) :: u64"
  let ?acc = "acc\<lparr>counts := (counts acc)[index := ?f index]\<rparr>"
  have less: "index < R67_RESOURCE_DIMENSIONS"
    using Suc.hyps(2) by simp
  show ?case
    using Suc.hyps(1) [of "index + 1" ?acc] Suc.hyps(2) Suc.prems less
      update_prefix [OF less, of "counts acc" ?f]
    by (subst reserve_loop_step [OF less]) (simp add: all_from_split [OF less] vector_ok_def del: of_nat_add)
qed

lemma release_loop_eq:
  assumes "index \<le> R67_RESOURCE_DIMENSIONS" and "vector_ok acc"
  shows "release_loop used charge acc index =
    (if \<forall>k. index \<le> k \<and> k < R67_RESOURCE_DIMENSIONS \<longrightarrow> amount charge k \<le> amount used k
     then Some \<lparr>counts = take index (counts acc) @
       map (\<lambda>k. of_nat (amount used k - amount charge k)) [index..<R67_RESOURCE_DIMENSIONS]\<rparr>
     else None)"
  using assms
proof (induction "R67_RESOURCE_DIMENSIONS - index" arbitrary: index acc)
  case 0
  then show ?case
    by (subst release_loop.simps) (simp add: vector_ok_def)
next
  case (Suc m)
  let ?f = "\<lambda>k. of_nat (amount used k - amount charge k) :: u64"
  let ?acc = "acc\<lparr>counts := (counts acc)[index := ?f index]\<rparr>"
  have less: "index < R67_RESOURCE_DIMENSIONS"
    using Suc.hyps(2) by simp
  show ?case
    using Suc.hyps(1) [of "index + 1" ?acc] Suc.hyps(2) Suc.prems less
      update_prefix [OF less, of "counts acc" ?f]
    by (subst release_loop_step [OF less]) (simp add: all_from_split [OF less] vector_ok_def del: of_nat_diff)
qed

theorem r67_resource_reserve_eq:
  "r67_resource_reserve used charge capacity =
     (if fits used charge capacity then Some (vector_of (\<lambda>k. amount used k + amount charge k)) else None)"
  by (simp add: r67_resource_reserve_def reserve_loop_eq fits_def vector_of_def)

theorem r67_resource_release_eq:
  "r67_resource_release used charge =
     (if covers used charge then Some (vector_of (\<lambda>k. amount used k - amount charge k)) else None)"
  by (simp add: r67_resource_release_def release_loop_eq covers_def vector_of_def)

end
