(* ===== verification/Credit_Account.thy ===== *)
theory Credit_Account
  imports Credit_Vector
begin

unbundle bit_operations_syntax

text \<open>
  Independent credit accounts, \<open>crates/fe2o3-resource-accounting/src/lib.rs\<close> and \<open>batch.rs\<close>, with the
  roster preflight of \<open>crates/fe2o3-runtime-model/src/r70_resource_batch.rs\<close>.  An operation takes the account
  behind its \<open>Arc\<close> and returns its outcome with the account it leaves, because a failing operation may poison
  the account.

  Every operation is one critical section of the account's mutex, \<open>reserve_batch\<close> two.  \<open>mutex_poisoned\<close> is
  the poison flag of the mutex itself, set by a panic that unwinds while the lock is held and turned into
  \<open>poisoned\<close> by the next \<open>lock\<close>.  The anchor is an \<open>Arc\<close> of the account to itself; \<open>anchored\<close>
  tells whether it is there.  A handle or token is of the \<open>Independent\<close> variant throughout; the \<open>Domain\<close>
  arms of the methods are not modelled.  \<open>ledger\<close> is the address of the \<open>Arc\<close>, which \<open>Arc::ptr_eq\<close> compares.
\<close>

section \<open>Records\<close>

definition MAX_RESOURCE_CREDIT_RECORDS :: nat where
  "MAX_RESOURCE_CREDIT_RECORDS = 65536"

datatype resource_credit_error =
    InvalidRecordCapacity
  | AllocationFailed
  | Capacity
  | RecordCapacity
  | GenerationExhausted
  | Invariant
  | InvalidDomainCapacity
  | DomainCapacity
  | DomainDepth
  | NotHierarchical

text \<open>A call returns a \<open>Result\<close> or unwinds.\<close>

datatype 'a outcome = Returned "resource_credit_error + 'a" | Panicked

record credit_record =
  owner :: u64
  charge :: resource_vector
  phase :: credit_phase

record account =
  ledger :: nat
  capacity :: resource_vector
  used :: resource_vector
  records :: "credit_record option list"
  free :: "nat list"
  next_owner :: u64
  reserved :: nat
  retained :: nat
  quarantined :: nat
  poisoned :: bool
  anchored :: bool
  mutex_poisoned :: bool

record token =
  token_ledger :: nat
  token_slot :: nat
  token_owner :: u64

record resource_credit_usage =
  usage_capacity :: resource_vector
  usage_used :: resource_vector
  reserved_records :: nat
  retained_records :: nat
  quarantined_records :: nat
  record_capacity :: nat
  usage_poisoned :: bool

section \<open>Construction and observation\<close>

text \<open>\<open>alloc_records\<close> and \<open>alloc_free\<close> answer the two \<open>try_reserve_exact\<close> calls.\<close>

definition account_new :: "bool \<Rightarrow> bool \<Rightarrow> nat \<Rightarrow> resource_vector \<Rightarrow> nat \<Rightarrow> resource_credit_error + account" where
  "account_new alloc_records alloc_free address limit max_reservations =
     (if max_reservations = 0 \<or> MAX_RESOURCE_CREDIT_RECORDS < max_reservations then Inl InvalidRecordCapacity
      else if \<not> alloc_records then Inl AllocationFailed
      else if \<not> alloc_free then Inl AllocationFailed
      else Inr \<lparr>ledger = address, capacity = limit, used = vector_zero,
        records = replicate max_reservations None, free = rev [0..<max_reservations], next_owner = 1,
        reserved = 0, retained = 0, quarantined = 0, poisoned = False, anchored = False,
        mutex_poisoned = False\<rparr>)"

definition account_lock :: "account \<Rightarrow> account" where
  "account_lock a = (if mutex_poisoned a then a\<lparr>poisoned := True\<rparr> else a)"

definition shares_ledger_with :: "account \<Rightarrow> account \<Rightarrow> bool" where
  "shares_ledger_with a b \<longleftrightarrow> ledger a = ledger b"

definition account_usage :: "account \<Rightarrow> resource_credit_usage \<times> account" where
  "account_usage a0 =
     (let a = account_lock a0
      in (\<lparr>usage_capacity = capacity a, usage_used = used a, reserved_records = reserved a,
           retained_records = retained a, quarantined_records = quarantined a,
           record_capacity = length (records a), usage_poisoned = poisoned a\<rparr>, a))"

definition record_matches_retained_charge :: "credit_record \<Rightarrow> u64 \<Rightarrow> resource_vector \<Rightarrow> bool" where
  "record_matches_retained_charge r own expected \<longleftrightarrow>
     own \<noteq> 0 \<and> owner r = own \<and> phase r = Retained \<and> charge r = expected"

definition independent_retained_observation :: "credit_record option list \<Rightarrow> bool \<Rightarrow> nat \<Rightarrow> u64 \<Rightarrow> resource_vector \<Rightarrow> bool" where
  "independent_retained_observation rs poison slot own expected =
     (if poison then False
      else if length rs \<le> slot then False
      else case rs ! slot of
          Some r \<Rightarrow> record_matches_retained_charge r own expected
        | None \<Rightarrow> False)"

text \<open>The observation takes the lock without recovering it: a poisoned mutex answers no.\<close>

definition matches_retained_charge :: "account \<Rightarrow> token \<Rightarrow> resource_vector \<Rightarrow> bool" where
  "matches_retained_charge a t expected =
     (if ledger a = token_ledger t
      then if mutex_poisoned a then False
        else independent_retained_observation (records a) (poisoned a) (token_slot t) (token_owner t) expected
      else False)"

section \<open>Transitions of a record\<close>

text \<open>The body of the closure: the preflight, then the writes.  \<open>unreachable!\<close> unwinds.\<close>

definition transition_body :: "account \<Rightarrow> nat \<Rightarrow> u64 \<Rightarrow> credit_action \<Rightarrow> unit outcome \<times> account" where
  "transition_body a slot own action =
     (case (if slot < length (records a) then records a ! slot else None) of
        None \<Rightarrow> (Returned (Inl Invariant), a)
      | Some r \<Rightarrow>
     (case r67_credit_transition (owner r) own (phase r) action of
        None \<Rightarrow> (Returned (Inl Invariant), a)
      | Some next_phase \<Rightarrow>
     (case (case phase r of Reserved \<Rightarrow> Some (reserved a) | Retained \<Rightarrow> Some (retained a) | _ \<Rightarrow> None) of
        None \<Rightarrow> (Returned (Inl Invariant), a)
      | Some count \<Rightarrow>
      if count = 0 then (Returned (Inl Invariant), a)
      else if next_phase = Vacant \<and> length (free a) = length (records a) then (Returned (Inl Invariant), a)
      else
     (case (if next_phase = Vacant then r67_resource_release (used a) (charge r) else Some (used a)) of
        None \<Rightarrow> (Returned (Inl Invariant), a)
      | Some next_used \<Rightarrow>
     (let a1 = (if phase r = Reserved then a\<lparr>reserved := reserved a - 1\<rparr> else a\<lparr>retained := retained a - 1\<rparr>);
          a2 = a1\<lparr>used := next_used\<rparr>
      in case next_phase of
          Vacant \<Rightarrow> (Returned (Inr ()), a2\<lparr>records := (records a2)[slot := None], free := free a2 @ [slot]\<rparr>)
        | Retained \<Rightarrow> (Returned (Inr ()), a2\<lparr>retained := retained a2 + 1,
            records := (records a2)[slot := Some (r\<lparr>phase := Retained\<rparr>)]\<rparr>)
        | Quarantined \<Rightarrow> (Returned (Inr ()), a2\<lparr>quarantined := quarantined a2 + 1,
            records := (records a2)[slot := Some (r\<lparr>phase := Quarantined\<rparr>)], anchored := True\<rparr>)
        | Reserved \<Rightarrow> (Panicked, a2\<lparr>mutex_poisoned := True\<rparr>))))))"

definition account_transition :: "account \<Rightarrow> nat \<Rightarrow> u64 \<Rightarrow> credit_action \<Rightarrow> unit outcome \<times> account" where
  "account_transition a0 slot own action =
     (let a = account_lock a0
      in if poisoned a then (Returned (Inl Invariant), a\<lparr>anchored := True\<rparr>)
         else case transition_body a slot own action of
             (Returned (Inl e), a') \<Rightarrow> (Returned (Inl e), a'\<lparr>poisoned := True, anchored := True\<rparr>)
           | result \<Rightarrow> result)"

section \<open>Reservation\<close>

definition account_reserve :: "account \<Rightarrow> resource_vector \<Rightarrow> token outcome \<times> account" where
  "account_reserve a0 ch =
     (let a = account_lock a0
      in if poisoned a then (Returned (Inl Invariant), a)
      else case r67_resource_reserve (used a) ch (capacity a) of
        None \<Rightarrow> (Returned (Inl Capacity), a)
      | Some next_used \<Rightarrow>
      if free a = [] then (Returned (Inl RecordCapacity), a)
      else let slot = last (free a); own = next_owner a
      in case checked_add own 1 of
        None \<Rightarrow> (Returned (Inl GenerationExhausted), a)
      | Some next_own \<Rightarrow>
      if own = 0 then (Returned (Inl Invariant), a\<lparr>poisoned := True\<rparr>)
      else if length (records a) \<le> slot then (Panicked, a\<lparr>mutex_poisoned := True\<rparr>)
      else if records a ! slot \<noteq> None then (Returned (Inl Invariant), a\<lparr>poisoned := True\<rparr>)
      else (Returned (Inr \<lparr>token_ledger = ledger a, token_slot = slot, token_owner = own\<rparr>),
        a\<lparr>free := butlast (free a),
          records := (records a)[slot := Some \<lparr>owner = own, charge = ch, phase = Reserved\<rparr>],
          next_owner := next_own, used := next_used, reserved := reserved a + 1\<rparr>))"

section \<open>Batches\<close>

definition R70_MAX_RESOURCE_BATCH_MEMBERS :: nat where
  "R70_MAX_RESOURCE_BATCH_MEMBERS = 65536"

datatype r70_batch_error = Batch_InvalidMemberCount | Batch_Capacity | Batch_RecordCapacity | Batch_GenerationExhausted

definition r70_resource_batch_reserve :: "resource_vector \<Rightarrow> resource_vector list \<Rightarrow> resource_vector \<Rightarrow> nat \<Rightarrow> u64 \<Rightarrow>
    r70_batch_error + resource_vector \<times> u64" where
  "r70_resource_batch_reserve usage charges limit free_records next_own =
     (if charges = [] \<or> R70_MAX_RESOURCE_BATCH_MEMBERS < length charges then Inl Batch_InvalidMemberCount
      else if free_records < length charges then Inl Batch_RecordCapacity
      else if next_own = 0 then Inl Batch_GenerationExhausted
      else and_then (ok_or (checked_add next_own (of_nat (length charges))) Batch_GenerationExhausted) (\<lambda>owner_end.
        and_then (try_fold (\<lambda>next_used ch. ok_or (r67_resource_reserve next_used ch limit) Batch_Capacity) usage charges)
          (\<lambda>next_used. Inr (next_used, owner_end))))"

fun batch_error :: "r70_batch_error \<Rightarrow> resource_credit_error" where
  "batch_error Batch_InvalidMemberCount = InvalidRecordCapacity"
| "batch_error Batch_Capacity = Capacity"
| "batch_error Batch_RecordCapacity = RecordCapacity"
| "batch_error Batch_GenerationExhausted = GenerationExhausted"

text \<open>One round of the roster check.  The bitmap has a bit per slot and tells a slot that was seen before.\<close>

definition roster_mark :: "account \<Rightarrow> u64 list \<Rightarrow> nat \<Rightarrow> unit + u64 list" where
  "roster_mark a occupied index =
     (let slot = free a ! (length (free a) - 1 - index)
      in if length (records a) \<le> slot \<or> records a ! slot \<noteq> None then Inl ()
         else let bit = push_bit (slot mod 64) 1
           in if occupied ! (slot div 64) AND bit \<noteq> 0 then Inl ()
              else Inr (occupied[slot div 64 := occupied ! (slot div 64) OR bit]))"

text \<open>The issue of the batch; \<open>None\<close> is the panic of a missing free slot or of a slot out of range.\<close>

fun batch_issue :: "u64 \<Rightarrow> nat \<Rightarrow> resource_vector list \<Rightarrow> account \<Rightarrow> token list option \<times> account" where
  "batch_issue first_owner index [] a = (Some [], a)"
| "batch_issue first_owner index (ch # charges) a =
     (if free a = [] then (None, a)
      else let slot = last (free a); own = first_owner + of_nat index; a1 = a\<lparr>free := butlast (free a)\<rparr>
      in if length (records a) \<le> slot then (None, a1)
      else let (tokens, a') = batch_issue first_owner (index + 1) charges
             (a1\<lparr>records := (records a)[slot := Some \<lparr>owner = own, charge = ch, phase = Reserved\<rparr>]\<rparr>)
      in (map_option ((#) \<lparr>token_ledger = ledger a, token_slot = slot, token_owner = own\<rparr>) tokens, a'))"

definition corrupt_roster :: "account \<Rightarrow> token list outcome \<times> account" where
  "corrupt_roster a = (Returned (Inl Invariant), a\<lparr>poisoned := True\<rparr>)"

text \<open>
  The second critical section, with the record capacity that the first one read.  The bitmap it marks was
  allocated for that capacity.
\<close>

definition batch_commit :: "nat \<Rightarrow> resource_vector list \<Rightarrow> account \<Rightarrow> token list outcome \<times> account" where
  "batch_commit record_cap charges a0 =
     (let a = account_lock a0; occupied = replicate ((record_cap + 63) div 64) 0
      in if poisoned a then (Returned (Inl Invariant), a)
      else if next_owner a = 0 then corrupt_roster a
      else case r70_resource_batch_reserve (used a) charges (capacity a) (length (free a)) (next_owner a) of
        Inl e \<Rightarrow> (Returned (Inl (batch_error e)), a)
      | Inr (next_used, owner_end) \<Rightarrow>
      if record_cap < reserved a + length charges then corrupt_roster a
      else if length (records a) \<noteq> record_cap \<or> record_cap < length (free a) \<or>
          reserved a + retained a + quarantined a + length (free a) \<noteq> record_cap then corrupt_roster a
      else case try_fold (roster_mark a) occupied [0..<length charges] of
        Inl _ \<Rightarrow> corrupt_roster a
      | Inr _ \<Rightarrow>
     (case batch_issue (next_owner a) 0 charges a of
        (None, a') \<Rightarrow> (Panicked, a'\<lparr>mutex_poisoned := True\<rparr>)
      | (Some tokens, a') \<Rightarrow> (Returned (Inr tokens),
          a'\<lparr>used := next_used, next_owner := owner_end, reserved := reserved a + length charges\<rparr>)))"

definition account_reserve_batch :: "bool \<Rightarrow> bool \<Rightarrow> account \<Rightarrow> resource_vector list \<Rightarrow> token list outcome \<times> account" where
  "account_reserve_batch alloc_members alloc_bitmap a0 charges =
     (if charges = [] \<or> R70_MAX_RESOURCE_BATCH_MEMBERS < length charges then (Returned (Inl InvalidRecordCapacity), a0)
      else let a = account_lock a0; record_cap = length (records a)
      in if poisoned a then (Returned (Inl Invariant), a)
      else if record_cap < length charges then (Returned (Inl RecordCapacity), a)
      else if \<not> alloc_members then (Returned (Inl AllocationFailed), a)
      else if \<not> alloc_bitmap then (Returned (Inl AllocationFailed), a)
      else batch_commit record_cap charges a)"

section \<open>Tokens\<close>

text \<open>
  The account passed is the one the token points to.  \<open>retain\<close> expects its transition to succeed, outside the
  lock.  A failed release drops the token, whose destructor tries to quarantine the record.
\<close>

definition reservation_retain :: "account \<Rightarrow> token \<Rightarrow> token outcome \<times> account" where
  "reservation_retain a t =
     (case account_transition a (token_slot t) (token_owner t) Retain of
        (Returned (Inr _), a') \<Rightarrow> (Returned (Inr t), a')
      | (_, a') \<Rightarrow> (Panicked, a'))"

definition reservation_drop :: "account \<Rightarrow> token \<Rightarrow> account" where
  "reservation_drop a t = snd (account_transition a (token_slot t) (token_owner t) CancelUnissued)"

definition credits_drop :: "account \<Rightarrow> token \<Rightarrow> account" where
  "credits_drop a t = snd (account_transition a (token_slot t) (token_owner t) Quarantine)"

definition credits_quarantine :: "account \<Rightarrow> token \<Rightarrow> account" where
  "credits_quarantine a t = credits_drop a t"

definition credits_release :: "credit_action \<Rightarrow> account \<Rightarrow> token \<Rightarrow> unit outcome \<times> account" where
  "credits_release action a t =
     (case account_transition a (token_slot t) (token_owner t) action of
        (Returned (Inr _), a') \<Rightarrow> (Returned (Inr ()), a')
      | (result, a') \<Rightarrow> (result, credits_drop a' t))"

definition release_after_rejection :: "account \<Rightarrow> token \<Rightarrow> unit outcome \<times> account" where
  "release_after_rejection = credits_release ReleaseRejected"

definition release_after_disposal :: "account \<Rightarrow> token \<Rightarrow> unit outcome \<times> account" where
  "release_after_disposal = credits_release ReleaseDisposed"

end
