(* ===== verification/Credit_Invariant.thy ===== *)
theory Credit_Invariant
  imports Credit_Account
begin

text \<open>
  The invariant of an account that is not poisoned: the free list holds exactly the vacant slots, the counters and the
  used vector are the numbers and the sum of the live records, owners are unique and below the next one.  Every
  operation is given as an equation under the invariant, with the account it leaves, and keeps it.
\<close>

section \<open>Live records\<close>

fun somes :: "'a option list \<Rightarrow> 'a list" where
  "somes [] = []"
| "somes (None # xs) = somes xs"
| "somes (Some x # xs) = x # somes xs"

lemma somes_append [simp]: "somes (xs @ ys) = somes xs @ somes ys"
  by (induction xs rule: somes.induct) auto

lemma set_somes: "x \<in> set (somes xs) \<longleftrightarrow> Some x \<in> set xs"
  by (induction xs rule: somes.induct) auto

lemma somes_replicate_None [simp]: "somes (replicate n None) = []"
  by (induction n) auto

lemma length_somes: "length (somes xs) + card {i. i < length xs \<and> xs ! i = None} = length xs"
proof -
  have "length (somes xs) + length (filter (\<lambda>x. x = None) xs) = length xs"
    by (induction xs rule: somes.induct) auto
  then show ?thesis
    by (simp add: length_filter_conv_card)
qed

lemma split_at:
  assumes "i < length xs"
  obtains us vs where "xs = us @ xs ! i # vs" "length us = i" "\<And>y. xs[i := y] = us @ y # vs"
proof
  show "xs = take i xs @ xs ! i # drop (Suc i) xs"
    using assms by (rule id_take_nth_drop)
qed (use assms in \<open>simp_all add: upd_conv_take_nth_drop\<close>)

definition phase_count :: "credit_phase \<Rightarrow> credit_record list \<Rightarrow> nat" where
  "phase_count p rs = length (filter (\<lambda>r. phase r = p) rs)"

definition held_total :: "nat \<Rightarrow> credit_record list \<Rightarrow> nat" where
  "held_total k rs = sum_list (map (\<lambda>r. amount (charge r) k) rs)"

lemma phase_count_simps [simp]:
  "phase_count p [] = 0"
  "phase_count p (r # rs) = (if phase r = p then 1 else 0) + phase_count p rs"
  "phase_count p (rs @ ss) = phase_count p rs + phase_count p ss"
  by (simp_all add: phase_count_def)

lemma held_total_simps [simp]:
  "held_total k [] = 0" "held_total k (r # rs) = amount (charge r) k + held_total k rs"
  "held_total k (rs @ ss) = held_total k rs + held_total k ss"
  by (simp_all add: held_total_def)

lemma phase_count_partition:
  "\<forall>r\<in>set rs. phase r \<noteq> Vacant \<Longrightarrow>
     phase_count Reserved rs + phase_count Retained rs + phase_count Quarantined rs = length rs"
proof (induction rs)
  case (Cons r rs)
  then show ?case by (cases "phase r") auto
qed simp

section \<open>The invariant\<close>

definition record_ok :: "u64 \<Rightarrow> credit_record \<Rightarrow> bool" where
  "record_ok next_own r \<longleftrightarrow>
     owner r \<noteq> 0 \<and> owner r < next_own \<and> phase r \<noteq> Vacant"

definition free_ok :: "account \<Rightarrow> bool" where
  "free_ok a \<longleftrightarrow> distinct (free a) \<and> set (free a) = {i. i < length (records a) \<and> records a ! i = None}"

definition records_ok :: "account \<Rightarrow> bool" where
  "records_ok a \<longleftrightarrow> distinct (map owner (somes (records a))) \<and>
     (\<forall>r\<in>set (somes (records a)). record_ok (next_owner a) r) \<and> next_owner a \<noteq> 0"

definition counters_ok :: "account \<Rightarrow> bool" where
  "counters_ok a \<longleftrightarrow> reserved a = phase_count Reserved (somes (records a)) \<and>
     retained a = phase_count Retained (somes (records a)) \<and>
     quarantined a = phase_count Quarantined (somes (records a)) \<and> (anchored a \<longleftrightarrow> 0 < quarantined a)"

definition usage_ok :: "account \<Rightarrow> bool" where
  "usage_ok a \<longleftrightarrow> vector_ok (used a) \<and>
     (\<forall>k < R67_RESOURCE_DIMENSIONS.
        amount (used a) k = held_total k (somes (records a)) \<and> amount (used a) k \<le> amount (capacity a) k)"

definition account_inv :: "account \<Rightarrow> bool" where
  "account_inv a \<longleftrightarrow> \<not> poisoned a \<and> \<not> mutex_poisoned a \<and> length (records a) \<le> MAX_RESOURCE_CREDIT_RECORDS \<and>
     free_ok a \<and> records_ok a \<and> counters_ok a \<and> usage_ok a"

lemmas account_inv_defs = account_inv_def free_ok_def records_ok_def counters_ok_def usage_ok_def record_ok_def

lemma account_lock_inv [simp]: "account_inv a \<Longrightarrow> account_lock a = a"
  by (simp add: account_inv_def account_lock_def)

lemma account_inv_poisoned [simp]: "account_inv a \<Longrightarrow> \<not> poisoned a"
  by (simp add: account_inv_def)

lemma account_new_inv:
  assumes "account_new x y address limit n = Inr a"
  shows "account_inv a"
  using assms by (auto simp: account_new_def account_inv_defs split: if_splits)

lemma free_length: "account_inv a \<Longrightarrow> length (free a) + length (somes (records a)) = length (records a)"
  using length_somes [of "records a"] distinct_card [of "free a"]
  by (simp add: account_inv_def free_ok_def)

lemma counters_sum:
  "account_inv a \<Longrightarrow> reserved a + retained a + quarantined a + length (free a) = length (records a)"
  using free_length [of a] phase_count_partition [of "somes (records a)"]
  by (simp add: account_inv_def records_ok_def counters_ok_def record_ok_def)

section \<open>Reservation\<close>

definition room :: "account \<Rightarrow> bool" where
  "room a \<longleftrightarrow> free a \<noteq> []"

definition reserved_account :: "account \<Rightarrow> resource_vector \<Rightarrow> account" where
  "reserved_account a ch = a\<lparr>free := butlast (free a),
     records := (records a)[last (free a) := Some \<lparr>owner = next_owner a, charge = ch, phase = Reserved\<rparr>],
     next_owner := next_owner a + 1, used := vector_of (\<lambda>k. amount (used a) k + amount ch k),
     reserved := reserved a + 1\<rparr>"

definition issued_token :: "account \<Rightarrow> token" where
  "issued_token a = \<lparr>token_ledger = ledger a, token_slot = last (free a), token_owner = next_owner a\<rparr>"

lemma last_free:
  assumes "account_inv a" and "free a \<noteq> []"
  shows "last (free a) < length (records a)" and "records a ! last (free a) = None"
    and "last (free a) \<notin> set (butlast (free a))" and "set (free a) = insert (last (free a)) (set (butlast (free a)))"
proof -
  have "last (free a) \<in> set (free a)"
    using assms(2) by simp
  then show "last (free a) < length (records a)" "records a ! last (free a) = None"
    using assms(1) by (auto simp: account_inv_def free_ok_def)
  have "butlast (free a) @ [last (free a)] = free a" and "distinct (free a)"
    using assms by (simp_all add: account_inv_def free_ok_def)
  then have "distinct (butlast (free a) @ [last (free a)])" "set (butlast (free a) @ [last (free a)]) = set (free a)"
    by simp_all
  then show "last (free a) \<notin> set (butlast (free a))" "set (free a) = insert (last (free a)) (set (butlast (free a)))"
    by simp_all
qed

theorem account_reserve_eq:
  assumes "account_inv a"
  shows "account_reserve a ch =
    (if \<not> fits (used a) ch (capacity a) then (Returned (Inl Capacity), a)
     else if free a = [] then (Returned (Inl RecordCapacity), a)
     else if unat (next_owner a) + 1 = 2 ^ 64 then (Returned (Inl GenerationExhausted), a)
     else (Returned (Inr (issued_token a)), reserved_account a ch))"
proof -
  have "next_owner a \<noteq> 0"
    using assms by (simp add: account_inv_def records_ok_def)
  moreover have "checked_add (next_owner a) 1 =
      (if unat (next_owner a) + 1 = 2 ^ 64 then None else Some (next_owner a + 1))"
    using unat_less_2p [of "next_owner a"] by (simp add: checked_add_def)
  ultimately show ?thesis
    using assms last_free [OF assms]
    by (auto simp: account_reserve_def r67_resource_reserve_eq Let_def reserved_account_def issued_token_def)
qed

lemma owner_succ:
  assumes "unat (w :: u64) + 1 \<noteq> 2 ^ 64"
  shows "unat (w + 1) = unat w + 1" and "w < w + 1" and "w + 1 \<noteq> 0"
proof -
  show *: "unat (w + 1) = unat w + 1"
    using unat_less_2p [of w] assms unat_plus_no_overflow [of w 1] by simp
  then show "w < w + 1" "w + 1 \<noteq> 0"
    by (simp_all add: word_less_nat_alt, metis Suc_eq_plus1 nat.distinct(1) unat_0)
qed

lemma reserved_account_sel [simp]:
  "ledger (reserved_account a ch) = ledger a" "capacity (reserved_account a ch) = capacity a"
  "used (reserved_account a ch) = vector_of (\<lambda>k. amount (used a) k + amount ch k)"
  "records (reserved_account a ch) =
     (records a)[last (free a) := Some \<lparr>owner = next_owner a, charge = ch, phase = Reserved\<rparr>]"
  "free (reserved_account a ch) = butlast (free a)" "next_owner (reserved_account a ch) = next_owner a + 1"
  "reserved (reserved_account a ch) = reserved a + 1" "retained (reserved_account a ch) = retained a"
  "quarantined (reserved_account a ch) = quarantined a" "poisoned (reserved_account a ch) = poisoned a"
  "anchored (reserved_account a ch) = anchored a" "mutex_poisoned (reserved_account a ch) = mutex_poisoned a"
  by (simp_all add: reserved_account_def)

lemma record_ok_mono: "\<lbrakk>record_ok n r; n \<le> m\<rbrakk> \<Longrightarrow> record_ok m r"
  by (auto simp: record_ok_def)

lemma amount_sum:
  assumes "fits u ch cap" and "k < R67_RESOURCE_DIMENSIONS"
  shows "amount (vector_of (\<lambda>k. amount u k + amount ch k)) k = amount u k + amount ch k"
  using assms amount_less [of cap k] by (auto simp: fits_def intro!: amount_vector_of elim: order.strict_trans1)

lemma reserve_inv:
  assumes inv: "account_inv a" and free: "free a \<noteq> []"
    and fits: "fits (used a) ch (capacity a)" and own: "unat (next_owner a) + 1 \<noteq> 2 ^ 64"
  shows "account_inv (reserved_account a ch)"
proof -
  let ?r = "\<lparr>owner = next_owner a, charge = ch, phase = Reserved\<rparr>" and ?b = "reserved_account a ch"
  note slot = last_free [OF inv free] and succ = owner_succ [OF own]
  obtain us vs where split: "records a = us @ None # vs" "(records a)[last (free a) := Some ?r] = us @ Some ?r # vs"
    using split_at [OF slot(1)] slot(2) by metis
  have old: "somes (records a) = somes us @ somes vs"
    by (simp only: split(1) somes_append somes.simps)
  have new: "somes (records ?b) = somes us @ ?r # somes vs"
    by (simp only: split(2) reserved_account_sel somes_append somes.simps)
  have "free_ok ?b"
  proof -
    have "set (butlast (free a)) = set (free a) - {last (free a)}"
      using slot(3,4) by blast
    also have "\<dots> = {i. i < length (records ?b) \<and> records ?b ! i = None}"
      using inv slot(1) by (auto simp: account_inv_def free_ok_def nth_list_update)
    finally show ?thesis
      using inv by (simp add: account_inv_def free_ok_def distinct_butlast)
  qed
  moreover have "records_ok ?b"
  proof -
    have *: "record_ok (next_owner a) r" if "r \<in> set (somes us) \<union> set (somes vs)" for r
      using inv that by (auto simp: account_inv_def records_ok_def old)
    then have "next_owner a \<notin> owner ` (set (somes us) \<union> set (somes vs))"
      by (force simp: record_ok_def)
    then have "distinct (map owner (somes (records ?b)))"
      using inv unfolding new by (auto simp: account_inv_def records_ok_def old)
    moreover have "record_ok (next_owner ?b) ?r"
      using inv succ by (simp add: record_ok_def account_inv_def records_ok_def)
    moreover have "record_ok (next_owner ?b) r" if "r \<in> set (somes us) \<union> set (somes vs)" for r
      using record_ok_mono [OF * [OF that]] succ(2) by simp
    ultimately show ?thesis
      using succ(3) unfolding records_ok_def new by auto
  qed
  moreover have "counters_ok ?b"
    using inv unfolding counters_ok_def new by (simp add: account_inv_def counters_ok_def old)
  moreover have "usage_ok ?b"
    using inv amount_sum [OF fits] fits unfolding usage_ok_def new
    by (auto simp: account_inv_def usage_ok_def old fits_def)
  ultimately show ?thesis
    using inv by (simp add: account_inv_def)
qed

section \<open>Transitions\<close>

definition after_transition :: "credit_phase \<Rightarrow> credit_record \<Rightarrow> credit_record option" where
  "after_transition p r = (if p = Vacant then None else Some (r\<lparr>phase := p\<rparr>))"

definition moved_account :: "account \<Rightarrow> nat \<Rightarrow> credit_record \<Rightarrow> credit_phase \<Rightarrow> account" where
  "moved_account a slot r p = a\<lparr>records := (records a)[slot := after_transition p r],
     free := (if p = Vacant then free a @ [slot] else free a),
     used := (if p = Vacant then vector_of (\<lambda>k. amount (used a) k - amount (charge r) k) else used a),
     reserved := reserved a - of_bool (phase r = Reserved),
     retained := retained a - of_bool (phase r = Retained) + of_bool (p = Retained),
     quarantined := quarantined a + of_bool (p = Quarantined),
     anchored := (anchored a \<or> p = Quarantined)\<rparr>"

lemma moved_account_sel [simp]:
  "ledger (moved_account a slot r p) = ledger a" "capacity (moved_account a slot r p) = capacity a"
  "used (moved_account a slot r p) =
     (if p = Vacant then vector_of (\<lambda>k. amount (used a) k - amount (charge r) k) else used a)"
  "records (moved_account a slot r p) = (records a)[slot := after_transition p r]"
  "free (moved_account a slot r p) = (if p = Vacant then free a @ [slot] else free a)"
  "next_owner (moved_account a slot r p) = next_owner a"
  "reserved (moved_account a slot r p) = reserved a - of_bool (phase r = Reserved)"
  "retained (moved_account a slot r p) = retained a - of_bool (phase r = Retained) + of_bool (p = Retained)"
  "quarantined (moved_account a slot r p) = quarantined a + of_bool (p = Quarantined)"
  "poisoned (moved_account a slot r p) = poisoned a" "mutex_poisoned (moved_account a slot r p) = mutex_poisoned a"
  "anchored (moved_account a slot r p) = (anchored a \<or> p = Quarantined)"
  by (simp_all add: moved_account_def)

lemma r67_credit_transition_Some:
  "r67_credit_transition actual own ph action = Some p \<Longrightarrow>
     actual = own \<and> own \<noteq> 0 \<and> p \<noteq> ph \<and>
     (ph = Reserved \<and> (p = Retained \<or> p = Vacant) \<or> ph = Retained \<and> (p = Quarantined \<or> p = Vacant))"
  by (cases ph; cases action) (auto simp: r67_credit_transition_def split: if_splits)

lemma live_split:
  assumes "slot < length (records a)" and "records a ! slot = Some r"
  obtains us vs where "somes (records a) = us @ r # vs"
    "\<And>x. somes ((records a)[slot := x]) = us @ (case x of None \<Rightarrow> [] | Some y \<Rightarrow> [y]) @ vs"
proof -
  obtain ls rs where split: "records a = ls @ Some r # rs" "\<And>y. (records a)[slot := y] = ls @ y # rs"
    using split_at [OF assms(1)] assms(2) by metis
  have "somes (records a) = somes ls @ r # somes rs"
    by (simp only: split(1) somes_append somes.simps)
  moreover have "somes ((records a)[slot := x]) = somes ls @ (case x of None \<Rightarrow> [] | Some y \<Rightarrow> [y]) @ somes rs" for x
    by (cases x) (simp_all only: split(2) somes_append somes.simps option.case append_Nil append_Cons)
  ultimately show thesis
    by (rule that)
qed

text \<open>What an occupied slot says about the account's counters and usage.\<close>

lemma occupied_slot:
  assumes "account_inv a" and "slot < length (records a)" and "records a ! slot = Some r"
  shows "covers (used a) (charge r)" and "phase r = Reserved \<Longrightarrow> 0 < reserved a"
    and "phase r = Retained \<Longrightarrow> 0 < retained a" and "length (free a) < length (records a)" and "slot \<notin> set (free a)"
proof -
  obtain us vs where live: "somes (records a) = us @ r # vs"
    using live_split [OF assms(2,3)] by metis
  show "covers (used a) (charge r)"
    using assms(1) by (auto simp: account_inv_def usage_ok_def covers_def live)
  show "phase r = Reserved \<Longrightarrow> 0 < reserved a" "phase r = Retained \<Longrightarrow> 0 < retained a"
    using assms(1) by (auto simp: account_inv_def counters_ok_def live)
  show "length (free a) < length (records a)"
    using free_length [OF assms(1)] by (simp add: live)
  show "slot \<notin> set (free a)"
    using assms by (auto simp: account_inv_def free_ok_def)
qed

theorem account_transition_eq:
  assumes inv: "account_inv a" and slot: "slot < length (records a)" "records a ! slot = Some r"
    and trans: "r67_credit_transition (owner r) own (phase r) action = Some p"
  shows "account_transition a slot own action = (Returned (Inr ()), moved_account a slot r p)"
proof -
  note facts = occupied_slot [OF inv slot]
  note legal = r67_credit_transition_Some [OF trans]
  have "transition_body a slot own action = (Returned (Inr ()), moved_account a slot r p)"
    using legal facts slot trans
    by (elim conjE disjE)
      (simp_all add: transition_body_def r67_resource_release_eq moved_account_def after_transition_def Let_def)
  then show ?thesis
    using inv by (simp add: account_transition_def)
qed

theorem account_transition_illegal:
  assumes "account_inv a"
    and "\<And>r. \<lbrakk>slot < length (records a); records a ! slot = Some r\<rbrakk> \<Longrightarrow>
      r67_credit_transition (owner r) own (phase r) action = None"
  shows "account_transition a slot own action = (Returned (Inl Invariant), a\<lparr>poisoned := True, anchored := True\<rparr>)"
proof -
  have "transition_body a slot own action = (Returned (Inl Invariant), a)"
    using assms(2) by (auto simp: transition_body_def split: option.splits)
  then show ?thesis
    using assms(1) by (simp add: account_transition_def)
qed

lemma transition_inv:
  assumes inv: "account_inv a" and slot: "slot < length (records a)" "records a ! slot = Some r"
    and legal: "phase r = Reserved \<and> (p = Retained \<or> p = Vacant) \<or> phase r = Retained \<and> (p = Quarantined \<or> p = Vacant)"
  shows "account_inv (moved_account a slot r p)"
proof -
  let ?b = "moved_account a slot r p"
  note facts = occupied_slot [OF inv slot]
  obtain us vs where old: "somes (records a) = us @ r # vs"
    and new: "somes (records ?b) = us @ (case after_transition p r of None \<Rightarrow> [] | Some y \<Rightarrow> [y]) @ vs"
    using live_split [OF slot] unfolding moved_account_sel by metis
  have "free_ok ?b"
  proof -
    have F: "distinct (free a)" "set (free a) = {i. i < length (records a) \<and> records a ! i = None}"
      using inv by (simp_all add: account_inv_def free_ok_def)
    have "{i. i < length (records ?b) \<and> records ?b ! i = None} =
        (if p = Vacant then insert slot (set (free a)) else set (free a))"
      using slot unfolding F(2) by (auto simp: nth_list_update after_transition_def)
    then show ?thesis
      using F(1) facts(5) unfolding free_ok_def by simp
  qed
  moreover have "records_ok ?b"
  proof -
    have R: "distinct (map owner (us @ r # vs))" "\<forall>x\<in>set (us @ r # vs). record_ok (next_owner a) x" "next_owner a \<noteq> 0"
      using inv by (simp_all add: account_inv_def records_ok_def old)
    show ?thesis
      using R unfolding records_ok_def new
      by (cases "p = Vacant") (simp_all add: after_transition_def record_ok_def)
  qed
  moreover have "counters_ok ?b"
  proof -
    have C: "counters_ok a"
      using inv by (simp add: account_inv_def)
    show ?thesis
      using C legal unfolding counters_ok_def new old
      by (elim conjE disjE) (simp_all add: after_transition_def)
  qed
  moreover have "usage_ok ?b"
  proof -
    have U: "usage_ok a"
      using inv by (simp add: account_inv_def)
    have "amount (vector_of (\<lambda>k. amount (used a) k - amount (charge r) k)) k = amount (used a) k - amount (charge r) k"
      if "k < R67_RESOURCE_DIMENSIONS" for k
      using that amount_less [of "used a" k] by (intro amount_vector_of) auto
    then show ?thesis
      using U unfolding usage_ok_def new old
      by (cases "p = Vacant") (auto simp: after_transition_def)
  qed
  ultimately show ?thesis
    using inv by (simp add: account_inv_def)
qed

end
