(* ===== verification/Credit_Batch.thy ===== *)
theory Credit_Batch
  imports Credit_Invariant
begin

unbundle bit_operations_syntax

text \<open>
  A batch reservation is the sequence of its members' reservations, all or nothing.  \<open>reserve_all\<close> is the
  reference: one \<open>reserve\<close> per charge, stopping at the first that fails.  \<open>roster_fits\<close> says in numbers when
  it succeeds.
\<close>

section \<open>The reference\<close>

fun reserve_all :: "account \<Rightarrow> resource_vector list \<Rightarrow> token list outcome \<times> account" where
  "reserve_all a [] = (Returned (Inr []), a)"
| "reserve_all a (ch # charges) =
     (case account_reserve a ch of
        (Panicked, a') \<Rightarrow> (Panicked, a')
      | (Returned (Inl e), a') \<Rightarrow> (Returned (Inl e), a')
      | (Returned (Inr t), a') \<Rightarrow>
          (case reserve_all a' charges of
             (Returned (Inr ts), a'') \<Rightarrow> (Returned (Inr (t # ts)), a'')
           | failure \<Rightarrow> failure))"

definition demand :: "resource_vector list \<Rightarrow> nat \<Rightarrow> nat" where
  "demand charges k = sum_list (map (\<lambda>ch. amount ch k) charges)"

lemma demand_simps [simp]: "demand [] k = 0" "demand (ch # charges) k = amount ch k + demand charges k"
  by (simp_all add: demand_def)

definition roster_fits :: "account \<Rightarrow> resource_vector list \<Rightarrow> bool" where
  "roster_fits a charges \<longleftrightarrow> length charges \<le> length (free a) \<and>
     unat (next_owner a) + length charges < 2 ^ 64 \<and>
     (\<forall>k < R67_RESOURCE_DIMENSIONS. amount (used a) k + demand charges k \<le> amount (capacity a) k)"

lemma roster_fits_Cons:
  assumes "account_inv a"
  shows "roster_fits a (ch # charges) \<longleftrightarrow> fits (used a) ch (capacity a) \<and> free a \<noteq> [] \<and>
    unat (next_owner a) + 1 \<noteq> 2 ^ 64 \<and> roster_fits (reserved_account a ch) charges"
    (is "?all \<longleftrightarrow> ?head \<and> ?tail")
proof (cases "fits (used a) ch (capacity a) \<and> free a \<noteq> [] \<and> unat (next_owner a) + 1 \<noteq> 2 ^ 64")
  case True
  then have "unat (next_owner a + 1) = unat (next_owner a) + 1"
    using owner_succ(1) by blast
  moreover have "Suc (length charges) \<le> length (free a) \<longleftrightarrow> length charges \<le> length (free a) - 1"
    using True by (cases "free a") auto
  ultimately show ?thesis
    using True amount_sum [of "used a" ch "capacity a"]
    by (auto simp: roster_fits_def add.assoc)
next
  case False
  moreover have "fits (used a) ch (capacity a)" if "?all"
    using that by (fastforce simp: roster_fits_def fits_def)
  ultimately show ?thesis
    by (auto simp: roster_fits_def)
qed

section \<open>The preflight\<close>

lemma ok_or_cases: "ok_or None e = Inl e" "ok_or (Some x) e = Inr x"
  by (simp_all add: ok_or_def)

lemma vector_of_amount: "vector_ok u \<Longrightarrow> vector_of (amount u) = u"
  using amount_vector_of [of _ "amount u"] amount_less [of u] by (intro vector_eqI) simp_all

lemma try_fold_reserve:
  assumes "vector_ok u" and "\<forall>k < R67_RESOURCE_DIMENSIONS. amount u k \<le> amount limit k"
  shows "try_fold (\<lambda>u ch. ok_or (r67_resource_reserve u ch limit) e) u charges =
    (if \<forall>k < R67_RESOURCE_DIMENSIONS. amount u k + demand charges k \<le> amount limit k
     then Inr (vector_of (\<lambda>k. amount u k + demand charges k)) else Inl e)"
  using assms
proof (induction charges arbitrary: u)
  case Nil
  then show ?case
    by (simp add: vector_of_amount)
next
  case (Cons ch charges)
  let ?v = "vector_of (\<lambda>k. amount u k + amount ch k)"
  show ?case
  proof (cases "fits u ch limit")
    case True
    note sum = amount_sum [OF True]
    have "\<forall>k < R67_RESOURCE_DIMENSIONS. amount ?v k \<le> amount limit k"
      using True sum by (simp add: fits_def)
    moreover have "vector_of (\<lambda>k. amount ?v k + demand charges k) = vector_of (\<lambda>k. amount u k + (amount ch k + demand charges k))"
      using sum by (auto simp: vector_of_def add.assoc)
    moreover have "(\<forall>k < R67_RESOURCE_DIMENSIONS. amount ?v k + demand charges k \<le> amount limit k) \<longleftrightarrow>
        (\<forall>k < R67_RESOURCE_DIMENSIONS. amount u k + (amount ch k + demand charges k) \<le> amount limit k)"
      using sum by (simp add: add.assoc)
    ultimately show ?thesis
      using Cons.IH [of ?v] True by (simp add: r67_resource_reserve_eq ok_or_def)
  next
    case False
    then have "\<not> (\<forall>k < R67_RESOURCE_DIMENSIONS. amount u k + (amount ch k + demand charges k) \<le> amount limit k)"
      by (fastforce simp: fits_def)
    then show ?thesis
      using False by (simp add: r67_resource_reserve_eq ok_or_def)
  qed
qed

text \<open>The bitmap accepts a roster of distinct vacant slots.\<close>

definition slot_at :: "account \<Rightarrow> nat \<Rightarrow> nat" where
  "slot_at a index = free a ! (length (free a) - 1 - index)"

lemma slot_at_inj:
  assumes "distinct (free a)" and "i < length (free a)" "j < length (free a)" and "slot_at a i = slot_at a j"
  shows "i = j"
  using assms nth_eq_iff_index_eq [of "free a"] unfolding slot_at_def by fastforce

lemma roster_marks:
  assumes inv: "account_inv a" and "n \<le> length (free a)" and "length (records a) \<le> 64 * length occupied"
    and "\<And>i. j \<le> i \<Longrightarrow> i < n \<Longrightarrow> \<not> bit (occupied ! (slot_at a i div 64)) (slot_at a i mod 64)"
  shows "\<exists>marks. try_fold (roster_mark a) occupied [j..<n] = Inr marks"
  using assms
proof (induction "n - j" arbitrary: j occupied)
  case (Suc m)
  let ?s = "slot_at a j"
  let ?occ = "occupied[?s div 64 := occupied ! (?s div 64) OR push_bit (?s mod 64) 1]"
  have j: "j < n" "j < length (free a)"
    using Suc.hyps(2) Suc.prems(2) by simp_all
  have D: "distinct (free a)" "set (free a) = {i. i < length (records a) \<and> records a ! i = None}"
    using inv by (simp_all add: account_inv_def free_ok_def)
  have "?s \<in> set (free a)"
    unfolding slot_at_def using j(2) by (intro nth_mem) simp
  then have s: "?s < length (records a)" "records a ! ?s = None"
    unfolding D(2) by simp_all
  have word: "?s div 64 < length occupied"
    using s(1) Suc.prems(3) by (intro less_mult_imp_div_less) simp
  have mark: "roster_mark a occupied j = Inr ?occ"
    using s Suc.prems(4) [of j] j(1) unfolding roster_mark_def slot_at_def [symmetric] by (simp add: Let_def and_exp_eq_0_iff_not_bit)
  have "\<not> bit (?occ ! (slot_at a i div 64)) (slot_at a i mod 64)" if "j + 1 \<le> i" "i < n" for i
  proof -
    have "slot_at a i \<noteq> ?s"
      using slot_at_inj [OF D(1), of i j] that j Suc.prems(2) by auto
    then have "slot_at a i div 64 \<noteq> ?s div 64 \<or> slot_at a i mod 64 \<noteq> ?s mod 64"
      by (metis div_mult_mod_eq)
    then show ?thesis
      using Suc.prems(4) [of i] that
      by (cases "slot_at a i div 64 = ?s div 64") (use word in \<open>auto simp: bit_simps\<close>)
  qed
  then have "\<exists>marks. try_fold (roster_mark a) ?occ [j + 1..<n] = Inr marks"
    using Suc.hyps(1) [of "j + 1" ?occ] Suc.hyps(2) Suc.prems(1-3) by simp
  then show ?case
    using j(1) mark by (simp add: upt_conv_Cons)
qed simp

section \<open>The batch and the sequence\<close>

lemma reserve_all_issue:
  assumes "account_inv a" and "roster_fits a charges" and "first_owner + of_nat index = next_owner a"
  shows "\<exists>ts b. reserve_all a charges = (Returned (Inr ts), b) \<and> account_inv b \<and>
    (\<forall>u n m. batch_issue first_owner index charges (a\<lparr>used := u, next_owner := n, reserved := m\<rparr>) =
       (Some ts, b\<lparr>used := u, next_owner := n, reserved := m\<rparr>)) \<and>
    (\<forall>k < R67_RESOURCE_DIMENSIONS. amount (used b) k = amount (used a) k + demand charges k) \<and>
    next_owner b = next_owner a + of_nat (length charges) \<and> reserved b = reserved a + length charges"
  using assms
proof (induction charges arbitrary: a index)
  case (Cons ch charges)
  let ?a = "reserved_account a ch"
  have head: "fits (used a) ch (capacity a)" "free a \<noteq> []" "unat (next_owner a) + 1 \<noteq> 2 ^ 64"
    and tail: "roster_fits ?a charges"
    using Cons.prems(2) roster_fits_Cons [OF Cons.prems(1)] by blast+
  have inv: "account_inv ?a"
    using reserve_inv [OF Cons.prems(1)] head by simp
  obtain ts b where IH: "reserve_all ?a charges = (Returned (Inr ts), b)" "account_inv b"
    "\<And>u n m. batch_issue first_owner (index + 1) charges (?a\<lparr>used := u, next_owner := n, reserved := m\<rparr>) =
       (Some ts, b\<lparr>used := u, next_owner := n, reserved := m\<rparr>)"
    "\<forall>k < R67_RESOURCE_DIMENSIONS. amount (used b) k = amount (used ?a) k + demand charges k"
    "next_owner b = next_owner ?a + of_nat (length charges)" "reserved b = reserved ?a + length charges"
    using Cons.IH [OF inv tail, of "index + 1"] Cons.prems(3) by (auto simp: algebra_simps)
  have "reserve_all a (ch # charges) = (Returned (Inr (issued_token a # ts)), b)"
    using head IH(1) by (simp add: account_reserve_eq [OF Cons.prems(1)])
  moreover have "batch_issue first_owner index (ch # charges) (a\<lparr>used := u, next_owner := n, reserved := m\<rparr>) =
      (Some (issued_token a # ts), b\<lparr>used := u, next_owner := n, reserved := m\<rparr>)" for u n m
  proof -
    have slot: "\<not> length (records a) \<le> last (free a)"
      using last_free [OF Cons.prems(1) head(2)] by simp
    have eq: "a\<lparr>used := u, next_owner := n, reserved := m, free := butlast (free a),
        records := (records a)[last (free a) := Some \<lparr>owner = next_owner a, charge = ch, phase = Reserved\<rparr>]\<rparr> =
      ?a\<lparr>used := u, next_owner := n, reserved := m\<rparr>"
      by (cases a) (simp add: reserved_account_def)
    show ?thesis
      using IH(3) [where u = u and n = n and m = m] Cons.prems(3) by (simp add: Let_def issued_token_def eq head(2) slot)
  qed
  ultimately show ?case
    using IH(2,4-6) amount_sum [OF head(1)] by auto
qed simp

lemma reserve_all_refused:
  assumes "account_inv a" and "\<not> roster_fits a charges"
  shows "\<exists>e b. reserve_all a charges = (Returned (Inl e), b)"
  using assms
proof (induction charges arbitrary: a)
  case Nil
  then show ?case
    using unat_less_2p [of "next_owner a"] by (auto simp: roster_fits_def account_inv_def usage_ok_def)
next
  case (Cons ch charges)
  show ?case
  proof (cases "fits (used a) ch (capacity a) \<and> free a \<noteq> [] \<and> unat (next_owner a) + 1 \<noteq> 2 ^ 64")
    case True
    then have "account_inv (reserved_account a ch)" "\<not> roster_fits (reserved_account a ch) charges"
      using reserve_inv [OF Cons.prems(1)] Cons.prems roster_fits_Cons [OF Cons.prems(1)] by auto
    then obtain e b where "reserve_all (reserved_account a ch) charges = (Returned (Inl e), b)"
      using Cons.IH [of "reserved_account a ch"] by auto
    then show ?thesis
      using True by (simp add: account_reserve_eq [OF Cons.prems(1)])
  next
    case False
    then show ?thesis
      by (auto simp: account_reserve_eq [OF Cons.prems(1)])
  qed
qed

lemma batch_preflight:
  assumes "account_inv a" and "charges \<noteq> []" and "length charges \<le> R70_MAX_RESOURCE_BATCH_MEMBERS"
  shows "r70_resource_batch_reserve (used a) charges (capacity a) (length (free a)) (next_owner a) =
    (if length (free a) < length charges then Inl Batch_RecordCapacity
     else if 2 ^ 64 \<le> unat (next_owner a) + length charges then Inl Batch_GenerationExhausted
     else if roster_fits a charges
     then Inr (vector_of (\<lambda>k. amount (used a) k + demand charges k), next_owner a + of_nat (length charges))
     else Inl Batch_Capacity)"
proof -
  have "length charges < 2 ^ 64"
    using assms(3) by (simp add: R70_MAX_RESOURCE_BATCH_MEMBERS_def)
  then have "unat (of_nat (length charges) :: u64) = length charges"
    by (simp add: unat_of_nat)
  then have own: "checked_add (next_owner a) (of_nat (length charges)) =
      (if 2 ^ 64 \<le> unat (next_owner a) + length charges then None else Some (next_owner a + of_nat (length charges)))"
    by (simp add: checked_add_def)
  have U: "vector_ok (used a)" "\<forall>k < R67_RESOURCE_DIMENSIONS. amount (used a) k \<le> amount (capacity a) k" "next_owner a \<noteq> 0"
    using assms(1) by (auto simp: account_inv_def usage_ok_def records_ok_def)
  show ?thesis
    using assms(2,3) U(3)
    by (auto simp: r70_resource_batch_reserve_def own try_fold_reserve [OF U(1,2)] ok_or_cases roster_fits_def)
qed

lemma roster_accepted:
  assumes inv: "account_inv a" and len: "length charges \<le> length (free a)"
  shows "\<exists>marks. try_fold (roster_mark a) (replicate ((length (records a) + 63) div 64) 0) [0..<length charges] = Inr marks"
proof -
  let ?occ = "replicate ((length (records a) + 63) div 64) 0 :: u64 list"
  have "slot_at a i div 64 < length ?occ" if "i < length charges" for i
  proof -
    have "slot_at a i \<in> set (free a)"
      unfolding slot_at_def using that len by (intro nth_mem) simp
    then have "slot_at a i < length (records a)"
      using inv by (simp add: account_inv_def free_ok_def)
    then show ?thesis by simp
  qed
  then show ?thesis
    using roster_marks [OF inv len, of ?occ 0] by auto
qed

lemma reserve_all_batch:
  assumes "account_inv a" and "roster_fits a charges"
  obtains ts b where "reserve_all a charges = (Returned (Inr ts), b)" and "account_inv b"
    and "batch_issue (next_owner a) 0 charges a = (Some ts, b\<lparr>used := used a, next_owner := next_owner a, reserved := reserved a\<rparr>)"
    and "vector_of (\<lambda>k. amount (used a) k + demand charges k) = used b"
    and "next_owner b = next_owner a + of_nat (length charges)" and "reserved b = reserved a + length charges"
proof -
  obtain ts b where b: "reserve_all a charges = (Returned (Inr ts), b)" "account_inv b"
    "\<forall>u n m. batch_issue (next_owner a) 0 charges (a\<lparr>used := u, next_owner := n, reserved := m\<rparr>) =
       (Some ts, b\<lparr>used := u, next_owner := n, reserved := m\<rparr>)"
    "\<forall>k < R67_RESOURCE_DIMENSIONS. amount (used b) k = amount (used a) k + demand charges k"
    "next_owner b = next_owner a + of_nat (length charges)" "reserved b = reserved a + length charges"
    using reserve_all_issue [OF assms, of "next_owner a" 0] by auto
  have "batch_issue (next_owner a) 0 charges (a\<lparr>used := used a, next_owner := next_owner a, reserved := reserved a\<rparr>) =
      (Some ts, b\<lparr>used := used a, next_owner := next_owner a, reserved := reserved a\<rparr>)"
    using b(3) by blast
  then have issue: "batch_issue (next_owner a) 0 charges a =
      (Some ts, b\<lparr>used := used a, next_owner := next_owner a, reserved := reserved a\<rparr>)"
    by simp
  have "amount (vector_of (\<lambda>k. amount (used a) k + demand charges k)) k = amount (used b) k"
    if "k < R67_RESOURCE_DIMENSIONS" for k
    using b(4) that amount_less [of "used b" k] by (simp add: amount_vector_of)
  then have "vector_of (\<lambda>k. amount (used a) k + demand charges k) = used b"
    using b(2) by (intro vector_eqI) (auto simp: account_inv_def usage_ok_def)
  then show thesis
    using that b(1,2,5,6) issue by blast
qed

theorem batch_commit_eq:
  assumes inv: "account_inv a" and len: "charges \<noteq> []" "length charges \<le> R70_MAX_RESOURCE_BATCH_MEMBERS"
  shows "batch_commit (length (records a)) charges a =
    (if length (free a) < length charges then (Returned (Inl RecordCapacity), a)
     else if 2 ^ 64 \<le> unat (next_owner a) + length charges then (Returned (Inl GenerationExhausted), a)
     else if roster_fits a charges then reserve_all a charges
     else (Returned (Inl Capacity), a))"
proof -
  have live: "account_lock a = a" "\<not> poisoned a" "next_owner a \<noteq> 0"
    using inv by (simp_all add: account_inv_def records_ok_def account_lock_def)
  show ?thesis
  proof (cases "roster_fits a charges")
    case False
    then show ?thesis
      using batch_preflight [OF inv len] live by (simp add: batch_commit_def Let_def)
  next
    case True
    then have fit: "length charges \<le> length (free a)" "unat (next_owner a) + length charges < 2 ^ 64"
      by (simp_all add: roster_fits_def)
    obtain marks where
      "try_fold (roster_mark a) (replicate ((length (records a) + 63) div 64) 0) [0..<length charges] = Inr marks"
      using roster_accepted [OF inv fit(1)] by blast
    moreover obtain ts b where "reserve_all a charges = (Returned (Inr ts), b)" "account_inv b"
      "batch_issue (next_owner a) 0 charges a = (Some ts, b\<lparr>used := used a, next_owner := next_owner a, reserved := reserved a\<rparr>)"
      "vector_of (\<lambda>k. amount (used a) k + demand charges k) = used b"
      "next_owner b = next_owner a + of_nat (length charges)" "reserved b = reserved a + length charges"
      by (rule reserve_all_batch [OF inv True])
    moreover have "b\<lparr>used := used b, next_owner := next_owner b, reserved := reserved b\<rparr> = b"
      by simp
    ultimately show ?thesis
      using True fit counters_sum [OF inv] batch_preflight [OF inv len] live
      by (simp add: batch_commit_def Let_def)
  qed
qed

end
