(* ===== verification/Credit_Ledger.thy ===== *)
theory Credit_Ledger
  imports Credit_Batch Simulation
begin

text \<open>
  Clients of a credit account and the contract they rely on.  A world is an account with the tokens that clients
  hold: Rust moves a token into the call that consumes it, so a step that consumes one removes it, whatever the
  outcome.  Each step is one call, in any interleaving of the clients.

  The contract is a ledger: a set of owner records and the next owner, without slots, counters or a used vector.
  It has no rule for an unwound call or an invariant error.
\<close>

section \<open>Worlds\<close>

record credit_world =
  world_account :: account
  reservations :: "token list"
  credits :: "token list"

datatype credit_op =
    Reserve_Op resource_vector
  | Batch_Op bool bool "resource_vector list"
  | Retain_Op u64
  | Cancel_Op u64
  | Reject_Op u64
  | Dispose_Op u64
  | Quarantine_Op u64
  | Observe_Op u64 resource_vector
  | Usage_Op

datatype credit_out =
    Granted "u64 list"
  | Refused resource_credit_error
  | Done
  | NoToken
  | Observed bool
  | Snapshot resource_credit_usage
  | Unwound

definition find_token :: "u64 \<Rightarrow> token list \<Rightarrow> token option" where
  "find_token own ts = find (\<lambda>t. token_owner t = own) ts"

definition drop_token :: "u64 \<Rightarrow> token list \<Rightarrow> token list" where
  "drop_token own ts = filter (\<lambda>t. token_owner t \<noteq> own) ts"

fun granted :: "token list outcome \<times> account \<Rightarrow> credit_world \<Rightarrow> credit_out \<times> credit_world" where
  "granted (Returned (Inr ts), a) w = (Granted (map token_owner ts), w\<lparr>world_account := a, reservations := reservations w @ ts\<rparr>)"
| "granted (Returned (Inl e), a) w = (Refused e, w\<lparr>world_account := a\<rparr>)"
| "granted (Panicked, a) w = (Unwound, w\<lparr>world_account := a\<rparr>)"

fun single :: "token outcome \<times> account \<Rightarrow> token list outcome \<times> account" where
  "single (Returned (Inr t), a) = (Returned (Inr [t]), a)"
| "single (Returned (Inl e), a) = (Returned (Inl e), a)"
| "single (Panicked, a) = (Panicked, a)"

definition retain_step :: "token \<Rightarrow> credit_world \<Rightarrow> credit_out \<times> credit_world" where
  "retain_step t w =
     (let (result, a) = reservation_retain (world_account w) t;
          w' = w\<lparr>world_account := a, reservations := drop_token (token_owner t) (reservations w)\<rparr>
      in case result of
          Returned (Inr t') \<Rightarrow> (Done, w'\<lparr>credits := credits w @ [t']\<rparr>)
        | Returned (Inl e) \<Rightarrow> (Refused e, w')
        | Panicked \<Rightarrow> (Unwound, w'))"

definition release_step :: "(account \<Rightarrow> token \<Rightarrow> unit outcome \<times> account) \<Rightarrow> token \<Rightarrow> credit_world \<Rightarrow> credit_out \<times> credit_world" where
  "release_step release t w =
     (let (result, a) = release (world_account w) t
      in (case result of Returned (Inr _) \<Rightarrow> Done | Returned (Inl e) \<Rightarrow> Refused e | Panicked \<Rightarrow> Unwound,
          w\<lparr>world_account := a, credits := drop_token (token_owner t) (credits w)\<rparr>))"

definition with_token :: "u64 \<Rightarrow> token list \<Rightarrow> (token \<Rightarrow> credit_world \<Rightarrow> credit_out \<times> credit_world) \<Rightarrow> credit_world \<Rightarrow>
    credit_out \<times> credit_world" where
  "with_token own ts f w = (case find_token own ts of None \<Rightarrow> (NoToken, w) | Some t \<Rightarrow> f t w)"

fun credit_step :: "credit_op \<Rightarrow> credit_world \<Rightarrow> credit_out \<times> credit_world" where
  "credit_step (Reserve_Op ch) w = granted (single (account_reserve (world_account w) ch)) w"
| "credit_step (Batch_Op x y chs) w = granted (account_reserve_batch x y (world_account w) chs) w"
| "credit_step (Retain_Op own) w = with_token own (reservations w) retain_step w"
| "credit_step (Cancel_Op own) w = with_token own (reservations w) (\<lambda>t w. (Done,
     w\<lparr>world_account := reservation_drop (world_account w) t, reservations := drop_token own (reservations w)\<rparr>)) w"
| "credit_step (Reject_Op own) w = with_token own (credits w) (release_step release_after_rejection) w"
| "credit_step (Dispose_Op own) w = with_token own (credits w) (release_step release_after_disposal) w"
| "credit_step (Quarantine_Op own) w = with_token own (credits w) (\<lambda>t w. (Done,
     w\<lparr>world_account := credits_quarantine (world_account w) t, credits := drop_token own (credits w)\<rparr>)) w"
| "credit_step (Observe_Op own expected) w = with_token own (credits w) (\<lambda>t w.
     (Observed (matches_retained_charge (world_account w) t expected), w)) w"
| "credit_step Usage_Op w = (let (u, a) = account_usage (world_account w) in (Snapshot u, w\<lparr>world_account := a\<rparr>))"

definition new_world :: "account \<Rightarrow> credit_world" where
  "new_world a = \<lparr>world_account = a, reservations = [], credits = []\<rparr>"

section \<open>The contract\<close>

record credit_ledger =
  limit :: resource_vector
  places :: nat
  held :: "credit_record set"
  fresh :: u64

definition held_amount :: "credit_ledger \<Rightarrow> nat \<Rightarrow> nat" where
  "held_amount L k = (\<Sum>r\<in>held L. amount (charge r) k)"

definition within_limit :: "credit_ledger \<Rightarrow> resource_vector list \<Rightarrow> bool" where
  "within_limit L chs \<longleftrightarrow>
     (\<forall>k < R67_RESOURCE_DIMENSIONS. held_amount L k + demand chs k \<le> amount (limit L) k)"

definition has_places :: "credit_ledger \<Rightarrow> resource_vector list \<Rightarrow> bool" where
  "has_places L chs \<longleftrightarrow> card (held L) + length chs \<le> places L"

definition has_owners :: "credit_ledger \<Rightarrow> resource_vector list \<Rightarrow> bool" where
  "has_owners L chs \<longleftrightarrow> unat (fresh L) + length chs < 2 ^ 64"

fun grant :: "credit_ledger \<Rightarrow> resource_vector list \<Rightarrow> u64 list \<times> credit_ledger" where
  "grant L [] = ([], L)"
| "grant L (ch # chs) =
     (let (owners, L') = grant (L\<lparr>held := insert \<lparr>owner = fresh L, charge = ch, phase = Reserved\<rparr> (held L),
        fresh := fresh L + 1\<rparr>) chs
      in (fresh L # owners, L'))"

definition holds :: "credit_ledger \<Rightarrow> u64 \<Rightarrow> credit_phase \<Rightarrow> credit_record \<Rightarrow> bool" where
  "holds L own p r \<longleftrightarrow> r \<in> held L \<and> owner r = own \<and> phase r = p"

definition settle :: "credit_ledger \<Rightarrow> credit_record \<Rightarrow> credit_phase \<Rightarrow> credit_ledger" where
  "settle L r p = L\<lparr>held := (held L - {r}) \<union> set_option (after_transition p r)\<rparr>"

definition phase_card :: "credit_ledger \<Rightarrow> credit_phase \<Rightarrow> nat" where
  "phase_card L p = card {r \<in> held L. phase r = p}"

definition snapshot_of :: "credit_ledger \<Rightarrow> resource_credit_usage" where
  "snapshot_of L = \<lparr>usage_capacity = limit L, usage_used = vector_of (held_amount L),
     reserved_records = phase_card L Reserved, retained_records = phase_card L Retained,
     quarantined_records = phase_card L Quarantined, record_capacity = places L, usage_poisoned = False\<rparr>"

fun token_op :: "credit_op \<Rightarrow> (u64 \<times> credit_phase) option" where
  "token_op (Retain_Op own) = Some (own, Reserved)"
| "token_op (Cancel_Op own) = Some (own, Reserved)"
| "token_op (Reject_Op own) = Some (own, Retained)"
| "token_op (Dispose_Op own) = Some (own, Retained)"
| "token_op (Quarantine_Op own) = Some (own, Retained)"
| "token_op (Observe_Op own expected) = Some (own, Retained)"
| "token_op _ = None"

inductive contract :: "credit_ledger \<Rightarrow> credit_op \<Rightarrow> credit_out \<Rightarrow> credit_ledger \<Rightarrow> bool" where
  Reserve_Grant: "\<lbrakk>within_limit L [ch]; has_places L [ch]; has_owners L [ch]; grant L [ch] = (owners, L')\<rbrakk> \<Longrightarrow>
    contract L (Reserve_Op ch) (Granted owners) L'"
| Reserve_Capacity: "\<not> within_limit L [ch] \<Longrightarrow> contract L (Reserve_Op ch) (Refused Capacity) L"
| Reserve_Records: "\<lbrakk>within_limit L [ch]; \<not> has_places L [ch]\<rbrakk> \<Longrightarrow> contract L (Reserve_Op ch) (Refused RecordCapacity) L"
| Reserve_Owners: "\<lbrakk>within_limit L [ch]; has_places L [ch]; \<not> has_owners L [ch]\<rbrakk> \<Longrightarrow>
    contract L (Reserve_Op ch) (Refused GenerationExhausted) L"
| Batch_Grant: "\<lbrakk>chs \<noteq> []; within_limit L chs; has_places L chs; has_owners L chs; grant L chs = (owners, L')\<rbrakk> \<Longrightarrow>
    contract L (Batch_Op True True chs) (Granted owners) L'"
| Batch_Members: "chs = [] \<or> R70_MAX_RESOURCE_BATCH_MEMBERS < length chs \<Longrightarrow>
    contract L (Batch_Op x y chs) (Refused InvalidRecordCapacity) L"
| Batch_Allocation: "\<not> x \<or> \<not> y \<Longrightarrow> contract L (Batch_Op x y chs) (Refused AllocationFailed) L"
| Batch_Records: "\<not> has_places L chs \<Longrightarrow> contract L (Batch_Op x y chs) (Refused RecordCapacity) L"
| Batch_Owners: "\<not> has_owners L chs \<Longrightarrow> contract L (Batch_Op x y chs) (Refused GenerationExhausted) L"
| Batch_Capacity_Refused: "\<not> within_limit L chs \<Longrightarrow> contract L (Batch_Op x y chs) (Refused Capacity) L"
| Retain_Done: "holds L own Reserved r \<Longrightarrow> contract L (Retain_Op own) Done (settle L r Retained)"
| Cancel_Done: "holds L own Reserved r \<Longrightarrow> contract L (Cancel_Op own) Done (settle L r Vacant)"
| Reject_Done: "holds L own Retained r \<Longrightarrow> contract L (Reject_Op own) Done (settle L r Vacant)"
| Dispose_Done: "holds L own Retained r \<Longrightarrow> contract L (Dispose_Op own) Done (settle L r Vacant)"
| Quarantine_Done: "holds L own Retained r \<Longrightarrow> contract L (Quarantine_Op own) Done (settle L r Quarantined)"
| Observe_Done: "holds L own Retained r \<Longrightarrow> contract L (Observe_Op own expected) (Observed (charge r = expected)) L"
| Absent: "\<lbrakk>token_op op = Some (own, p); \<And>r. \<not> holds L own p r\<rbrakk> \<Longrightarrow> contract L op NoToken L"
| Usage_Snapshot: "contract L Usage_Op (Snapshot (snapshot_of L)) L"

end
