(* ===== verification/Credit_Simulation.thy ===== *)
theory Credit_Simulation
  imports Credit_Ledger
begin

text \<open>
  Accounts implement the ledger contract.  A world is related to a ledger when the account satisfies its invariant,
  the live records are the held ones, and the tokens of the clients are exactly the reserved and the retained records.
\<close>

section \<open>The relation\<close>

definition slot_tokens :: "account \<Rightarrow> credit_phase \<Rightarrow> token set" where
  "slot_tokens a p = {t. token_ledger t = ledger a \<and> token_slot t < length (records a) \<and>
     (\<exists>r. records a ! token_slot t = Some r \<and> owner r = token_owner t \<and> phase r = p)}"

definition tokens_ok :: "account \<Rightarrow> token list \<Rightarrow> credit_phase \<Rightarrow> bool" where
  "tokens_ok a ts p \<longleftrightarrow> distinct (map token_owner ts) \<and> set ts = slot_tokens a p"

definition account_ledger :: "account \<Rightarrow> credit_ledger \<Rightarrow> bool" where
  "account_ledger a L \<longleftrightarrow> account_inv a \<and> held L = set (somes (records a)) \<and> fresh L = next_owner a \<and>
     limit L = capacity a \<and> places L = length (records a)"

definition world_ledger :: "credit_world \<Rightarrow> credit_ledger \<Rightarrow> bool" where
  "world_ledger w L \<longleftrightarrow> account_ledger (world_account w) L \<and>
     tokens_ok (world_account w) (reservations w) Reserved \<and> tokens_ok (world_account w) (credits w) Retained"

section \<open>Numbers of the ledger\<close>

lemma account_ledgerD:
  assumes "account_ledger a L"
  shows "account_inv a" and "held L = set (somes (records a))" and "fresh L = next_owner a"
    and "limit L = capacity a" and "places L = length (records a)" and "distinct (somes (records a))"
    and "distinct (map owner (somes (records a)))"
  using assms by (auto simp: account_ledger_def account_inv_def records_ok_def distinct_map)

lemma owner_unique:
  assumes "account_inv a" "Some r \<in> set (records a)" "Some r' \<in> set (records a)" "owner r = owner r'"
  shows "r = r'"
proof -
  have "inj_on owner (set (somes (records a)))"
    using assms(1) by (simp add: account_inv_def records_ok_def distinct_map)
  then show ?thesis
    using assms(2-4) by (auto simp: set_somes dest: inj_onD)
qed

lemma ledger_used:
  assumes "account_ledger a L" and "k < R67_RESOURCE_DIMENSIONS"
  shows "amount (used a) k = held_amount L k"
proof -
  have "amount (used a) k = held_total k (somes (records a))"
    using account_ledgerD(1) [OF assms(1)] assms(2) by (simp add: account_inv_def usage_ok_def)
  also have "\<dots> = held_amount L k"
    using account_ledgerD(2,6) [OF assms(1)]
    by (simp add: held_total_def held_amount_def sum_list_distinct_conv_sum_set)
  finally show ?thesis .
qed

lemma ledger_card: "account_ledger a L \<Longrightarrow> length (free a) + card (held L) = places L"
  using account_ledgerD [of a L] free_length [of a] distinct_card [of "somes (records a)"] by simp

lemma ledger_phases:
  assumes "account_ledger a L"
  shows "phase_card L p = phase_count p (somes (records a))"
  using account_ledgerD(2,6) [OF assms] distinct_card [OF distinct_filter, of "somes (records a)" "\<lambda>r. phase r = p"]
  by (simp add: phase_card_def phase_count_def)

lemma ledger_fits:
  assumes "account_ledger a L"
  shows "within_limit L chs \<longleftrightarrow>
      (\<forall>k < R67_RESOURCE_DIMENSIONS. amount (used a) k + demand chs k \<le> amount (capacity a) k)"
    and "has_places L chs \<longleftrightarrow> length chs \<le> length (free a)"
    and "has_owners L chs \<longleftrightarrow> unat (next_owner a) + length chs < 2 ^ 64"
  using ledger_used [OF assms] ledger_card [OF assms] account_ledgerD(3,4) [OF assms]
  by (auto simp: within_limit_def has_places_def has_owners_def)

lemma ledger_roster:
  "account_ledger a L \<Longrightarrow> roster_fits a chs \<longleftrightarrow> within_limit L chs \<and> has_places L chs \<and> has_owners L chs"
  by (auto simp: ledger_fits roster_fits_def)

lemma ledger_usage:
  assumes "account_ledger a L"
  shows "account_usage a = (snapshot_of L, a)"
proof -
  note D = account_ledgerD [OF assms]
  have "vector_of (held_amount L) = vector_of (amount (used a))"
    using ledger_used [OF assms] by (simp add: vector_of_def)
  also have "\<dots> = used a"
    using D(1) by (simp add: vector_of_amount account_inv_def usage_ok_def)
  finally show ?thesis
    using D(1,4,5) ledger_phases [OF assms]
    by (simp add: account_usage_def snapshot_of_def Let_def account_inv_def counters_ok_def account_lock_def)
qed

section \<open>Reservations\<close>

lemma somes_fill:
  assumes "i < length xs" and "xs ! i = None"
  shows "set (somes (xs[i := Some y])) = insert y (set (somes xs))"
proof -
  obtain us vs where "xs = us @ None # vs" "xs[i := Some y] = us @ Some y # vs"
    using split_at [OF assms(1)] assms(2) by metis
  then have "somes xs = somes us @ somes vs" "somes (xs[i := Some y]) = somes us @ y # somes vs"
    by (metis somes_append somes.simps(2), metis somes_append somes.simps(3))
  then show ?thesis by simp
qed

lemma slot_token_owner:
  assumes "account_inv a" and "t \<in> slot_tokens a p"
  shows "token_owner t < next_owner a"
proof -
  obtain r where "r \<in> set (somes (records a))" "owner r = token_owner t"
    using assms(2) by (auto simp: slot_tokens_def set_somes) (metis nth_mem)
  moreover have "\<forall>r\<in>set (somes (records a)). owner r < next_owner a"
    using assms(1) by (simp add: account_inv_def records_ok_def record_ok_def)
  ultimately show ?thesis
    by metis
qed

lemma reserve_ledger:
  assumes rel: "account_ledger a L" and fit: "roster_fits a (ch # chs)"
  shows "account_ledger (reserved_account a ch) (L\<lparr>held := insert \<lparr>owner = fresh L, charge = ch, phase = Reserved\<rparr> (held L),
      fresh := fresh L + 1\<rparr>)"
    and "slot_tokens (reserved_account a ch) p = (if p = Reserved then insert (issued_token a) else id) (slot_tokens a p)"
    and "token_owner (issued_token a) \<notin> token_owner ` slot_tokens a p"
proof -
  note D = account_ledgerD [OF rel]
  have head: "fits (used a) ch (capacity a)" "free a \<noteq> []" "unat (next_owner a) + 1 \<noteq> 2 ^ 64"
    using fit roster_fits_Cons [OF D(1)] by blast+
  note slot = last_free [OF D(1) head(2)]
  have "set (somes (records (reserved_account a ch))) =
      insert \<lparr>owner = next_owner a, charge = ch, phase = Reserved\<rparr> (set (somes (records a)))"
    using somes_fill [OF slot(1,2)] by simp
  then show "account_ledger (reserved_account a ch) (L\<lparr>held := insert \<lparr>owner = fresh L, charge = ch, phase = Reserved\<rparr> (held L),
      fresh := fresh L + 1\<rparr>)"
    using D reserve_inv [OF D(1) head(2,1,3)] unfolding account_ledger_def by simp
  show "slot_tokens (reserved_account a ch) p = (if p = Reserved then insert (issued_token a) else id) (slot_tokens a p)"
  proof (rule set_eqI)
    fix t
    show "t \<in> slot_tokens (reserved_account a ch) p \<longleftrightarrow>
        t \<in> (if p = Reserved then insert (issued_token a) else id) (slot_tokens a p)"
      by (cases t; cases "token_slot t = last (free a)")
        (use slot(1,2) in \<open>auto simp: slot_tokens_def issued_token_def\<close>)
  qed
  show "token_owner (issued_token a) \<notin> token_owner ` slot_tokens a p"
    using slot_token_owner [OF D(1)] by (fastforce simp: issued_token_def)
qed

lemma reserve_all_ledger:
  assumes "account_ledger a L" and "roster_fits a chs" and "reserve_all a chs = (Returned (Inr ts), b)"
    and "tokens_ok a rs Reserved" and "tokens_ok a cs Retained"
  shows "\<exists>L'. grant L chs = (map token_owner ts, L') \<and>
    world_ledger \<lparr>world_account = b, reservations = rs @ ts, credits = cs\<rparr> L'"
  using assms
proof (induction chs arbitrary: a L rs ts)
  case Nil
  then show ?case
    by (simp add: world_ledger_def)
next
  case (Cons ch chs)
  let ?a = "reserved_account a ch" and ?t = "issued_token a"
  note D = account_ledgerD [OF Cons.prems(1)]
  have head: "fits (used a) ch (capacity a)" "free a \<noteq> []" "unat (next_owner a) + 1 \<noteq> 2 ^ 64"
    and tail: "roster_fits ?a chs"
    using Cons.prems(2) roster_fits_Cons [OF D(1)] by blast+
  note R = reserve_ledger [OF Cons.prems(1,2)]
  have toks: "tokens_ok ?a (rs @ [?t]) Reserved" "tokens_ok ?a cs Retained"
    using Cons.prems(4,5) R(2) [of Reserved] R(2) [of Retained] R(3) [of Reserved]
    unfolding tokens_ok_def by auto
  obtain ts' where ts: "ts = ?t # ts'" and rest: "reserve_all ?a chs = (Returned (Inr ts'), b)"
    using Cons.prems(3) head by (auto simp: account_reserve_eq [OF D(1)] split: prod.splits outcome.splits sum.splits)
  obtain L' where "grant (L\<lparr>held := insert \<lparr>owner = fresh L, charge = ch, phase = Reserved\<rparr> (held L), fresh := fresh L + 1\<rparr>) chs =
      (map token_owner ts', L')" "world_ledger \<lparr>world_account = b, reservations = (rs @ [?t]) @ ts', credits = cs\<rparr> L'"
    using Cons.IH [OF R(1) tail rest toks] by blast
  then show ?case
    using D(3) by (simp add: ts issued_token_def)
qed

section \<open>Transitions\<close>

definition token_of :: "account \<Rightarrow> nat \<Rightarrow> credit_record \<Rightarrow> token" where
  "token_of a slot r = \<lparr>token_ledger = ledger a, token_slot = slot, token_owner = owner r\<rparr>"

lemma token_owner_token_of [simp]: "token_owner (token_of a slot r) = owner r"
  by (simp add: token_of_def)

lemma moved_slot_tokens:
  assumes "slot < length (records a)" and "records a ! slot = Some r"
  shows "slot_tokens (moved_account a slot r p) q =
    (slot_tokens a q - {token_of a slot r}) \<union> (if p = q \<and> p \<noteq> Vacant then {token_of a slot r} else {})"
proof (rule set_eqI)
  fix t
  show "t \<in> slot_tokens (moved_account a slot r p) q \<longleftrightarrow>
      t \<in> (slot_tokens a q - {token_of a slot r}) \<union> (if p = q \<and> p \<noteq> Vacant then {token_of a slot r} else {})"
    by (cases t; cases "token_slot t = slot")
      (use assms in \<open>auto simp: slot_tokens_def token_of_def after_transition_def\<close>)
qed

lemma move_ledger:
  assumes rel: "account_ledger a L" and slot: "slot < length (records a)" "records a ! slot = Some r"
    and legal: "phase r = Reserved \<and> (p = Retained \<or> p = Vacant) \<or> phase r = Retained \<and> (p = Quarantined \<or> p = Vacant)"
  shows "account_ledger (moved_account a slot r p) (settle L r p)"
proof -
  note D = account_ledgerD [OF rel]
  obtain us vs where split: "somes (records a) = us @ r # vs"
    "somes ((records a)[slot := after_transition p r]) =
       us @ (case after_transition p r of None \<Rightarrow> [] | Some y \<Rightarrow> [y]) @ vs"
    using live_split [OF slot] by metis
  have "set (somes (records (moved_account a slot r p))) = (held L - {r}) \<union> set_option (after_transition p r)"
    using D(2,6) unfolding moved_account_sel split by (auto split: option.splits)
  then show ?thesis
    using D transition_inv [OF D(1) slot legal] by (simp add: account_ledger_def settle_def)
qed

text \<open>A client's token names a record, whose owner no other token has.\<close>

lemma find_token_Some:
  assumes "account_inv a" and "tokens_ok a ts q" and "find_token own ts = Some t"
  obtains r where "token_slot t < length (records a)" "records a ! token_slot t = Some r" "owner r = own" "phase r = q"
    "token_owner t = own" "t = token_of a (token_slot t) r" "Some r \<in> set (records a)" "own \<noteq> 0"
proof -
  have t: "t \<in> slot_tokens a q" "token_owner t = own"
    using assms(2,3) find_keyed_Some [of token_owner own ts t] by (auto simp: find_token_def tokens_ok_def)
  then obtain r where r: "token_ledger t = ledger a" "token_slot t < length (records a)"
      "records a ! token_slot t = Some r" "owner r = own" "phase r = q"
    by (auto simp: slot_tokens_def)
  then have mem: "Some r \<in> set (records a)"
    by (metis nth_mem)
  then have "own \<noteq> 0"
    using assms(1) r(4) by (auto simp: account_inv_def records_ok_def record_ok_def set_somes [symmetric])
  then show thesis
    using that [of r] r t(2) mem by (simp add: token_of_def)
qed

lemma find_token_None:
  assumes "account_ledger a L" and "tokens_ok a ts q" and "find_token own ts = None"
  shows "\<not> holds L own q r"
proof
  assume "holds L own q r"
  then have "Some r \<in> set (records a)" "owner r = own" "phase r = q"
    using account_ledgerD(2) [OF assms(1)] by (auto simp: holds_def set_somes)
  then obtain slot where "slot < length (records a)" "records a ! slot = Some r"
    by (metis in_set_conv_nth)
  then have "token_of a slot r \<in> set ts"
    using assms(2) \<open>phase r = q\<close> by (auto simp: tokens_ok_def slot_tokens_def token_of_def)
  then show False
    using assms(3) \<open>owner r = own\<close> by (force simp: find_token_def find_None_iff token_of_def)
qed

lemma tokens_drop:
  assumes "tokens_ok a ts q" and "token_of a slot r \<in> slot_tokens a q"
  shows "distinct (map token_owner (drop_token (owner r) ts))"
    and "set (drop_token (owner r) ts) = slot_tokens a q - {token_of a slot r}"
proof -
  have ts: "distinct (map token_owner ts)" "set ts = slot_tokens a q"
    using assms(1) by (simp_all add: tokens_ok_def)
  show "distinct (map token_owner (drop_token (owner r) ts))"
    using ts(1) by (simp add: drop_token_def distinct_map_filter)
  have "inj_on token_owner (slot_tokens a q)"
    using ts by (simp add: distinct_map)
  then have "t = token_of a slot r" if "t \<in> slot_tokens a q" "token_owner t = owner r" for t
    using inj_onD [of token_owner "slot_tokens a q" t "token_of a slot r"] that assms(2) by simp
  moreover have "set (drop_token (owner r) ts) = {t \<in> slot_tokens a q. token_owner t \<noteq> owner r}"
    using ts(2) by (simp add: drop_token_def)
  ultimately show "set (drop_token (owner r) ts) = slot_tokens a q - {token_of a slot r}"
    using token_owner_token_of by blast
qed

lemma token_of_other_phase:
  assumes "account_inv a" and "slot < length (records a)" "records a ! slot = Some r" and "phase r \<noteq> q"
  shows "owner r \<notin> token_owner ` slot_tokens a q"
proof
  assume "owner r \<in> token_owner ` slot_tokens a q"
  then obtain t where "t \<in> slot_tokens a q" "token_owner t = owner r"
    by auto
  then obtain r' where "token_slot t < length (records a)" "records a ! token_slot t = Some r'" "owner r' = owner r" "phase r' = q"
    by (auto simp: slot_tokens_def)
  then show False
    using owner_unique [OF assms(1), of r r'] assms(2-4) by (metis nth_mem)
qed

lemma tokens_move:
  assumes inv: "account_inv a" and slot: "slot < length (records a)" "records a ! slot = Some r" and p: "p \<noteq> phase r"
  shows "tokens_ok a ts (phase r) \<Longrightarrow> tokens_ok (moved_account a slot r p) (drop_token (owner r) ts) (phase r)"
    and "\<lbrakk>tokens_ok a ts q; q \<noteq> phase r; q \<noteq> Vacant\<rbrakk> \<Longrightarrow>
      tokens_ok (moved_account a slot r p) (ts @ (if p = q then [token_of a slot r] else [])) q"
proof -
  have mem: "token_of a slot r \<in> slot_tokens a (phase r)"
    using slot by (simp add: slot_tokens_def token_of_def)
  note moved = moved_slot_tokens [OF slot]
  show "tokens_ok (moved_account a slot r p) (drop_token (owner r) ts) (phase r)" if "tokens_ok a ts (phase r)"
    using tokens_drop [OF that mem] p unfolding tokens_ok_def moved by simp
  show "tokens_ok (moved_account a slot r p) (ts @ (if p = q then [token_of a slot r] else [])) q"
    if "tokens_ok a ts q" "q \<noteq> phase r" "q \<noteq> Vacant"
  proof -
    have other: "owner r \<notin> token_owner ` slot_tokens a q"
      using token_of_other_phase [OF inv slot, of q] that(2) by auto
    then have "token_of a slot r \<notin> slot_tokens a q"
      by (metis image_eqI token_owner_token_of)
    then show ?thesis
      using that other unfolding tokens_ok_def moved by auto
  qed
qed

text \<open>A legal transition through a client's token succeeds and settles the record in the ledger.\<close>

lemma token_transition:
  assumes rel: "account_ledger a L" and ts: "tokens_ok a ts q" "find_token own ts = Some t"
    and act: "\<And>own. own \<noteq> 0 \<Longrightarrow> r67_credit_transition own own q action = Some p"
  obtains r where "holds L own q r" and "t = token_of a (token_slot t) r" and "token_owner t = own"
    and "records a ! token_slot t = Some r" and "token_slot t < length (records a)"
    and "account_transition a (token_slot t) (token_owner t) action = (Returned (Inr ()), moved_account a (token_slot t) r p)"
    and "account_ledger (moved_account a (token_slot t) r p) (settle L r p)" and "p \<noteq> q" and "phase r = q" and "owner r = own"
proof -
  note D = account_ledgerD [OF rel]
  obtain r where r: "token_slot t < length (records a)" "records a ! token_slot t = Some r" "owner r = own" "phase r = q"
    "token_owner t = own" "t = token_of a (token_slot t) r" "Some r \<in> set (records a)" "own \<noteq> 0"
    by (rule find_token_Some [OF D(1) ts])
  have trans: "r67_credit_transition (owner r) (token_owner t) (phase r) action = Some p"
    using act r by simp
  note legal = r67_credit_transition_Some [OF trans]
  have "account_ledger (moved_account a (token_slot t) r p) (settle L r p)"
    using move_ledger [OF rel r(1,2)] legal by blast
  moreover have "holds L own q r"
    using r D(2) by (simp add: holds_def set_somes)
  ultimately show thesis
    using that [of r] r account_transition_eq [OF D(1) r(1,2) trans] legal by simp
qed

end
