(* ===== verification/Credit_Refinement.thy ===== *)
theory Credit_Refinement
  imports Credit_Simulation
begin

text \<open>Every call of a client is a step of the ledger contract: one lemma per kind of call, and the simulation.\<close>

lemma world_ledgerD:
  assumes "world_ledger w L"
  shows "account_ledger (world_account w) L" and "account_inv (world_account w)"
    and "tokens_ok (world_account w) (reservations w) Reserved" and "tokens_ok (world_account w) (credits w) Retained"
  using assms by (auto simp: world_ledger_def account_ledger_def)

lemma single_reserve: "single (account_reserve a ch) = reserve_all a [ch]"
  by (auto split: prod.splits outcome.splits sum.splits)

lemma grant_simulated:
  assumes rel: "world_ledger w L" and fit: "roster_fits (world_account w) chs"
  obtains owners w' L' where "granted (reserve_all (world_account w) chs) w = (Granted owners, w')"
    "grant L chs = (owners, L')" "world_ledger w' L'"
proof -
  note W = world_ledgerD [OF rel]
  obtain ts b where all: "reserve_all (world_account w) chs = (Returned (Inr ts), b)"
    using reserve_all_issue [OF W(2) fit, of "next_owner (world_account w)" 0] by auto
  obtain L' where L': "grant L chs = (map token_owner ts, L')"
    "world_ledger \<lparr>world_account = b, reservations = reservations w @ ts, credits = credits w\<rparr> L'"
    using reserve_all_ledger [OF W(1) fit all W(3,4)] by blast
  have eq: "w\<lparr>world_account := b, reservations := reservations w @ ts\<rparr> =
      \<lparr>world_account = b, reservations = reservations w @ ts, credits = credits w\<rparr>"
    by (cases w) simp
  show thesis
    using that L' by (simp add: all eq)
qed

lemma sim_reserve:
  assumes rel: "world_ledger w L" and step: "credit_step (Reserve_Op ch) w = (out, w')"
  shows "\<exists>L'. contract L (Reserve_Op ch) out L' \<and> world_ledger w' L'"
proof (cases "roster_fits (world_account w) [ch]")
  case True
  obtain owners w'' L' where G: "granted (reserve_all (world_account w) [ch]) w = (Granted owners, w'')"
    "grant L [ch] = (owners, L')" "world_ledger w'' L'"
    by (rule grant_simulated [OF rel True])
  have "contract L (Reserve_Op ch) (Granted owners) L'"
    using True ledger_roster [OF world_ledgerD(1) [OF rel]] G(2) by (auto intro: Reserve_Grant)
  then show ?thesis
    using step G(1,3) by (auto simp: single_reserve simp del: reserve_all.simps)
next
  case False
  note W = world_ledgerD [OF rel] and F = ledger_fits [OF world_ledgerD(1) [OF rel], of "[ch]"]
  let ?a = "world_account w"
  have free: "free ?a = [] \<longleftrightarrow> \<not> has_places L [ch]"
    unfolding F(2) by (cases "free ?a") auto
  have lim: "fits (used ?a) ch (capacity ?a) \<longleftrightarrow> within_limit L [ch]"
    unfolding F(1) by (simp add: fits_def)
  have own: "unat (next_owner ?a) + 1 = 2 ^ 64 \<longleftrightarrow> \<not> has_owners L [ch]"
    unfolding F(3) using unat_less_2p [of "next_owner ?a"] by auto
  have refused: "\<not> (within_limit L [ch] \<and> has_places L [ch] \<and> has_owners L [ch])"
    using False ledger_roster [OF W(1)] by blast
  have "w\<lparr>world_account := ?a\<rparr> = w"
    by simp
  then show ?thesis
    using step rel refused unfolding credit_step.simps account_reserve_eq [OF W(2)] free lim own
    by (auto split: if_splits intro: Reserve_Capacity Reserve_Records Reserve_Owners)
qed

lemma sim_batch:
  assumes rel: "world_ledger w L" and step: "credit_step (Batch_Op x y chs) w = (out, w')"
  shows "\<exists>L'. contract L (Batch_Op x y chs) out L' \<and> world_ledger w' L'"
proof (cases "chs = [] \<or> R70_MAX_RESOURCE_BATCH_MEMBERS < length chs")
  case True
  then have "out = Refused InvalidRecordCapacity" "w' = w"
    using step by (auto simp: account_reserve_batch_def)
  then show ?thesis
    using rel Batch_Members [OF True] by blast
next
  case False
  note W = world_ledgerD [OF rel] and F = ledger_fits [OF world_ledgerD(1) [OF rel], of chs]
  let ?a = "world_account w"
  have len: "chs \<noteq> []" "length chs \<le> R70_MAX_RESOURCE_BATCH_MEMBERS"
    using False by auto
  have places: "\<not> has_places L chs" if "length (records ?a) < length chs \<or> length (free ?a) < length chs"
    using that free_length [OF W(2)] unfolding F(2) by auto
  have batch: "account_reserve_batch x y ?a chs =
      (if length (records ?a) < length chs then (Returned (Inl RecordCapacity), ?a)
       else if \<not> x \<or> \<not> y then (Returned (Inl AllocationFailed), ?a)
       else if length (free ?a) < length chs then (Returned (Inl RecordCapacity), ?a)
       else if 2 ^ 64 \<le> unat (next_owner ?a) + length chs then (Returned (Inl GenerationExhausted), ?a)
       else if roster_fits ?a chs then reserve_all ?a chs
       else (Returned (Inl Capacity), ?a))"
    using False W(2) batch_commit_eq [OF W(2) len] by (auto simp: account_reserve_batch_def Let_def)
  show ?thesis
  proof (cases "x \<and> y \<and> roster_fits ?a chs")
    case True
    then have fit: "within_limit L chs" "has_places L chs" "has_owners L chs"
      using ledger_roster [OF W(1)] by blast+
    have "account_reserve_batch x y ?a chs = reserve_all ?a chs"
      using True places fit(2,3) unfolding batch F(3) by auto
    moreover obtain owners w'' L' where "granted (reserve_all ?a chs) w = (Granted owners, w'')"
      "grant L chs = (owners, L')" "world_ledger w'' L'"
      using grant_simulated [OF rel] True by metis
    ultimately show ?thesis
      using step True fit len(1) by (auto intro: Batch_Grant)
  next
    case refused: False
    have "\<not> within_limit L chs" if "\<not> length (free ?a) < length chs" "\<not> 2 ^ 64 \<le> unat (next_owner ?a) + length chs" "\<not> roster_fits ?a chs"
      using that ledger_roster [OF W(1), of chs] unfolding F(2,3) by auto
    moreover have "\<not> has_owners L chs" if "2 ^ 64 \<le> unat (next_owner ?a) + length chs"
      using that unfolding F(3) by simp
    moreover have "w\<lparr>world_account := ?a\<rparr> = w"
      by simp
    ultimately show ?thesis
      using step rel refused places unfolding credit_step.simps batch
      by (auto split: if_splits intro: Batch_Allocation Batch_Records Batch_Owners Batch_Capacity_Refused)
  qed
qed

text \<open>Calls that consume a reservation, and calls that consume retained credits.\<close>

lemma legal_actions:
  "own \<noteq> 0 \<Longrightarrow> r67_credit_transition own own Reserved Retain = Some Retained"
  "own \<noteq> 0 \<Longrightarrow> r67_credit_transition own own Reserved CancelUnissued = Some Vacant"
  "own \<noteq> 0 \<Longrightarrow> r67_credit_transition own own Retained ReleaseRejected = Some Vacant"
  "own \<noteq> 0 \<Longrightarrow> r67_credit_transition own own Retained ReleaseDisposed = Some Vacant"
  "own \<noteq> 0 \<Longrightarrow> r67_credit_transition own own Retained Quarantine = Some Quarantined"
  by (simp_all add: r67_credit_transition_def)

lemma reservation_moves:
  assumes rel: "world_ledger w L" and t: "find_token own (reservations w) = Some t"
    and act: "\<And>own. own \<noteq> 0 \<Longrightarrow> r67_credit_transition own own Reserved action = Some p"
  obtains r a where "holds L own Reserved r" "token_owner t = own"
    "account_transition (world_account w) (token_slot t) (token_owner t) action = (Returned (Inr ()), a)"
    "world_ledger (w\<lparr>world_account := a, reservations := drop_token own (reservations w),
       credits := credits w @ (if p = Retained then [t] else [])\<rparr>) (settle L r p)"
proof -
  note W = world_ledgerD [OF rel]
  obtain r where r: "holds L own Reserved r" "t = token_of (world_account w) (token_slot t) r" "token_owner t = own"
    "records (world_account w) ! token_slot t = Some r" "token_slot t < length (records (world_account w))"
    "account_transition (world_account w) (token_slot t) (token_owner t) action =
      (Returned (Inr ()), moved_account (world_account w) (token_slot t) r p)"
    "account_ledger (moved_account (world_account w) (token_slot t) r p) (settle L r p)"
    "p \<noteq> Reserved" "phase r = Reserved" "owner r = own"
    by (rule token_transition [OF W(1,3) t act])
  note M = tokens_move [OF W(2) r(5,4), of p]
  have "tokens_ok (moved_account (world_account w) (token_slot t) r p) (drop_token own (reservations w)) Reserved"
    using M(1) W(3) r(8-10) by auto
  moreover have "tokens_ok (moved_account (world_account w) (token_slot t) r p)
      (credits w @ (if p = Retained then [t] else [])) Retained"
    using M(2) [of "credits w" Retained] W(4) r(2,8,9) by auto
  ultimately show thesis
    using that [OF r(1,3,6)] r(7) by (simp add: world_ledger_def)
qed

lemma credits_move:
  assumes rel: "world_ledger w L" and t: "find_token own (credits w) = Some t"
    and act: "\<And>own. own \<noteq> 0 \<Longrightarrow> r67_credit_transition own own Retained action = Some p"
  obtains r a where "holds L own Retained r" "token_owner t = own"
    "account_transition (world_account w) (token_slot t) (token_owner t) action = (Returned (Inr ()), a)"
    "world_ledger (w\<lparr>world_account := a, credits := drop_token own (credits w)\<rparr>) (settle L r p)"
proof -
  note W = world_ledgerD [OF rel]
  obtain r where r: "holds L own Retained r" "t = token_of (world_account w) (token_slot t) r" "token_owner t = own"
    "records (world_account w) ! token_slot t = Some r" "token_slot t < length (records (world_account w))"
    "account_transition (world_account w) (token_slot t) (token_owner t) action =
      (Returned (Inr ()), moved_account (world_account w) (token_slot t) r p)"
    "account_ledger (moved_account (world_account w) (token_slot t) r p) (settle L r p)"
    "p \<noteq> Retained" "phase r = Retained" "owner r = own"
    by (rule token_transition [OF W(1,4) t act])
  have "p \<noteq> Reserved"
    using r67_credit_transition_Some [OF act, of 1] by auto
  note M = tokens_move [OF W(2) r(5,4), of p]
  have "tokens_ok (moved_account (world_account w) (token_slot t) r p) (drop_token own (credits w)) Retained"
    using M(1) W(4) r(8-10) by auto
  moreover have "tokens_ok (moved_account (world_account w) (token_slot t) r p) (reservations w) Reserved"
    using M(2) [of "reservations w" Reserved] W(3) r(8,9) \<open>p \<noteq> Reserved\<close> by auto
  ultimately show thesis
    using that [OF r(1,3,6)] r(7) by (simp add: world_ledger_def)
qed

lemma sim_absent:
  assumes "world_ledger w L" and "token_op op = Some (own, q)"
    and "find_token own (if q = Reserved then reservations w else credits w) = None"
  shows "contract L op NoToken L"
proof (rule Absent [OF assms(2)])
  fix r
  have "q = Reserved \<or> q = Retained"
    using assms(2) by (cases op) auto
  then show "\<not> holds L own q r"
    using find_token_None [OF world_ledgerD(1) [OF assms(1)]] world_ledgerD(3,4) [OF assms(1)] assms(3)
    by (auto split: if_splits)
qed

lemma sim_retain:
  assumes rel: "world_ledger w L" and step: "credit_step (Retain_Op own) w = (out, w')"
  shows "\<exists>L'. contract L (Retain_Op own) out L' \<and> world_ledger w' L'"
proof (cases "find_token own (reservations w)")
  case None
  then show ?thesis
    using step rel sim_absent [OF rel, of "Retain_Op own"] by (auto simp: with_token_def)
next
  case (Some t)
  obtain r a where "holds L own Reserved r" "token_owner t = own"
    "account_transition (world_account w) (token_slot t) (token_owner t) Retain = (Returned (Inr ()), a)"
    "world_ledger (w\<lparr>world_account := a, reservations := drop_token own (reservations w),
       credits := credits w @ (if Retained = Retained then [t] else [])\<rparr>) (settle L r Retained)"
    by (rule reservation_moves [OF rel Some legal_actions(1)])
  then show ?thesis
    using step Some by (auto simp: with_token_def retain_step_def reservation_retain_def intro: Retain_Done)
qed

lemma sim_cancel:
  assumes rel: "world_ledger w L" and step: "credit_step (Cancel_Op own) w = (out, w')"
  shows "\<exists>L'. contract L (Cancel_Op own) out L' \<and> world_ledger w' L'"
proof (cases "find_token own (reservations w)")
  case None
  then show ?thesis
    using step rel sim_absent [OF rel, of "Cancel_Op own"] by (auto simp: with_token_def)
next
  case (Some t)
  obtain r a where "holds L own Reserved r" "token_owner t = own"
    "account_transition (world_account w) (token_slot t) (token_owner t) CancelUnissued = (Returned (Inr ()), a)"
    "world_ledger (w\<lparr>world_account := a, reservations := drop_token own (reservations w),
       credits := credits w @ (if Vacant = Retained then [t] else [])\<rparr>) (settle L r Vacant)"
    by (rule reservation_moves [OF rel Some legal_actions(2)])
  then show ?thesis
    using step Some by (auto simp: with_token_def reservation_drop_def intro: Cancel_Done)
qed

lemma sim_release:
  assumes rel: "world_ledger w L" and t: "find_token own (credits w) = Some t"
    and act: "\<And>own. own \<noteq> 0 \<Longrightarrow> r67_credit_transition own own Retained action = Some Vacant"
    and step: "release_step (credits_release action) t w = (out, w')"
  shows "\<exists>r. out = Done \<and> holds L own Retained r \<and> world_ledger w' (settle L r Vacant)"
proof -
  obtain r a where "holds L own Retained r" "token_owner t = own"
    "account_transition (world_account w) (token_slot t) (token_owner t) action = (Returned (Inr ()), a)"
    "world_ledger (w\<lparr>world_account := a, credits := drop_token own (credits w)\<rparr>) (settle L r Vacant)"
    by (rule credits_move [OF rel t act])
  then show ?thesis
    using step by (auto simp: release_step_def credits_release_def)
qed

lemma sim_reject:
  assumes rel: "world_ledger w L" and step: "credit_step (Reject_Op own) w = (out, w')"
  shows "\<exists>L'. contract L (Reject_Op own) out L' \<and> world_ledger w' L'"
proof (cases "find_token own (credits w)")
  case None
  then show ?thesis
    using step rel sim_absent [OF rel, of "Reject_Op own"] by (auto simp: with_token_def)
next
  case (Some t)
  then have "release_step (credits_release ReleaseRejected) t w = (out, w')"
    using step by (simp add: with_token_def release_after_rejection_def)
  then show ?thesis
    using sim_release [OF rel Some legal_actions(3)] by (auto intro: Reject_Done)
qed

lemma sim_dispose:
  assumes rel: "world_ledger w L" and step: "credit_step (Dispose_Op own) w = (out, w')"
  shows "\<exists>L'. contract L (Dispose_Op own) out L' \<and> world_ledger w' L'"
proof (cases "find_token own (credits w)")
  case None
  then show ?thesis
    using step rel sim_absent [OF rel, of "Dispose_Op own"] by (auto simp: with_token_def)
next
  case (Some t)
  then have "release_step (credits_release ReleaseDisposed) t w = (out, w')"
    using step by (simp add: with_token_def release_after_disposal_def)
  then show ?thesis
    using sim_release [OF rel Some legal_actions(4)] by (auto intro: Dispose_Done)
qed

lemma sim_quarantine:
  assumes rel: "world_ledger w L" and step: "credit_step (Quarantine_Op own) w = (out, w')"
  shows "\<exists>L'. contract L (Quarantine_Op own) out L' \<and> world_ledger w' L'"
proof (cases "find_token own (credits w)")
  case None
  then show ?thesis
    using step rel sim_absent [OF rel, of "Quarantine_Op own"] by (auto simp: with_token_def)
next
  case (Some t)
  obtain r a where "holds L own Retained r" "token_owner t = own"
    "account_transition (world_account w) (token_slot t) (token_owner t) Quarantine = (Returned (Inr ()), a)"
    "world_ledger (w\<lparr>world_account := a, credits := drop_token own (credits w)\<rparr>) (settle L r Quarantined)"
    by (rule credits_move [OF rel Some legal_actions(5)])
  then show ?thesis
    using step Some by (auto simp: with_token_def credits_quarantine_def credits_drop_def intro: Quarantine_Done)
qed

lemma sim_observe:
  assumes rel: "world_ledger w L" and step: "credit_step (Observe_Op own expected) w = (out, w')"
  shows "\<exists>L'. contract L (Observe_Op own expected) out L' \<and> world_ledger w' L'"
proof (cases "find_token own (credits w)")
  case None
  then show ?thesis
    using step rel sim_absent [OF rel, of "Observe_Op own expected"] by (auto simp: with_token_def)
next
  case (Some t)
  note W = world_ledgerD [OF rel]
  let ?a = "world_account w"
  obtain r where r: "token_slot t < length (records ?a)" "records ?a ! token_slot t = Some r" "owner r = own"
    "phase r = Retained" "token_owner t = own" "t = token_of ?a (token_slot t) r" "Some r \<in> set (records ?a)" "own \<noteq> 0"
    by (rule find_token_Some [OF W(2,4) Some])
  have "token_ledger t = ledger ?a"
    by (subst r(6)) (simp add: token_of_def)
  then have "matches_retained_charge ?a t expected \<longleftrightarrow> charge r = expected"
    using W(2) r by (simp add: matches_retained_charge_def independent_retained_observation_def
        record_matches_retained_charge_def account_inv_def)
  moreover have "holds L own Retained r"
    using r account_ledgerD(2) [OF W(1)] by (simp add: holds_def set_somes)
  ultimately show ?thesis
    using step Some rel by (auto simp: with_token_def dest: Observe_Done [of L own r expected])
qed

lemma sim_usage:
  assumes rel: "world_ledger w L" and step: "credit_step Usage_Op w = (out, w')"
  shows "\<exists>L'. contract L Usage_Op out L' \<and> world_ledger w' L'"
  using ledger_usage [OF world_ledgerD(1) [OF rel]] rel step by (auto intro: Usage_Snapshot)

lemmas sim_steps = sim_reserve sim_batch sim_retain sim_cancel sim_reject sim_dispose sim_quarantine sim_observe sim_usage

interpretation credit_sim: forward_simulation credit_step contract world_ledger
proof unfold_locales
  fix w L op out w'
  assume "world_ledger w L" and "credit_step op w = (out, w')"
  then show "\<exists>L'. contract L op out L' \<and> world_ledger w' L'"
    by (cases op) (simp_all only: sim_steps)
qed

end
