(* ===== verification/Credit_Theorems.thy ===== *)
theory Credit_Theorems
  imports Credit_Refinement
begin

text \<open>
  The properties of credit accounts over whole runs: \<open>run_ops credit_step\<close> applies any sequence of client calls,
  in any interleaving, to a new account.  What holds of every ledger is proved on the abstract side and carried to the
  account by the simulation.
\<close>

section \<open>Ledgers over runs\<close>

definition empty_credit_ledger :: "resource_vector \<Rightarrow> nat \<Rightarrow> credit_ledger" where
  "empty_credit_ledger cap n = \<lparr>limit = cap, places = n, held = {}, fresh = 1\<rparr>"

definition granted_owners :: "credit_out list \<Rightarrow> u64 list" where
  "granted_owners outs = concat (map (\<lambda>out. case out of Granted owners \<Rightarrow> owners | _ \<Rightarrow> []) outs)"

lemma granted_owners_Nil [simp]: "granted_owners [] = []"
  by (simp add: granted_owners_def)

lemma granted_owners_Cons:
  "granted_owners (out # outs) = (case out of Granted owners \<Rightarrow> owners | _ \<Rightarrow> []) @ granted_owners outs"
  by (simp add: granted_owners_def)

lemma grant_owners:
  assumes "grant L chs = (owners, L')" and "has_owners L chs"
  shows "map unat owners = [unat (fresh L)..<unat (fresh L')] \<and> fresh L \<le> fresh L'"
  using assms
proof (induction chs arbitrary: L owners)
  case (Cons ch chs)
  let ?L = "L\<lparr>held := insert \<lparr>owner = fresh L, charge = ch, phase = Reserved\<rparr> (held L), fresh := fresh L + 1\<rparr>"
  obtain owners' where rest: "grant ?L chs = (owners', L')" "owners = fresh L # owners'"
    using Cons.prems(1) by (auto split: prod.splits)
  have "unat (fresh L) + 1 \<noteq> 2 ^ 64"
    using Cons.prems(2) by (simp add: has_owners_def)
  note succ = owner_succ [OF this]
  have "has_owners ?L chs"
    using Cons.prems(2) succ(1) by (simp add: has_owners_def)
  then have IH: "map unat owners' = [unat (fresh L) + 1..<unat (fresh L')]" "fresh L + 1 \<le> fresh L'"
    using Cons.IH [OF rest(1)] succ(1) by simp_all
  have "unat (fresh L) < unat (fresh L')"
    using IH(2) succ(1) by (simp add: word_le_nat_alt)
  then show ?case
    using IH rest(2) succ(2) by (simp add: upt_conv_Cons)
qed simp

lemma contract_owners:
  assumes "contract L op out L'"
  shows "map unat (granted_owners [out]) = [unat (fresh L)..<unat (fresh L')] \<and> fresh L \<le> fresh L'"
  using assms by (cases rule: contract.cases) (use grant_owners in \<open>auto simp: granted_owners_Cons settle_def simp del: grant.simps\<close>)

lemma upt_join: "\<lbrakk>i \<le> j; j \<le> k\<rbrakk> \<Longrightarrow> [i..<j] @ [j..<k] = [i..<k]"
  by (metis le_add_diff_inverse upt_add_eq_append)

lemma run_owners:
  "spec_run contract L ops outs L' \<Longrightarrow>
     map unat (granted_owners outs) = [unat (fresh L)..<unat (fresh L')] \<and> fresh L \<le> fresh L'"
proof (induction rule: spec_run.induct)
  case (spec_run_Cons L op out L' ops outs L'')
  then have "map unat (granted_owners (out # outs)) = [unat (fresh L)..<unat (fresh L')] @ [unat (fresh L')..<unat (fresh L'')]"
    using contract_owners [OF spec_run_Cons.hyps(1)] by (simp add: granted_owners_Cons)
  then show ?case
    using contract_owners [OF spec_run_Cons.hyps(1)] spec_run_Cons.IH
    by (auto simp: upt_join word_le_nat_alt)
qed simp

lemma contract_outcome: "contract L op out L' \<Longrightarrow> out \<noteq> Unwound \<and> out \<noteq> Refused Invariant"
  by (cases rule: contract.cases) auto

lemma run_outcomes: "spec_run contract L ops outs L' \<Longrightarrow> Unwound \<notin> set outs \<and> Refused Invariant \<notin> set outs"
  by (induction rule: spec_run.induct) (use contract_outcome in auto)

lemma grant_held: "grant L chs = (owners, L') \<Longrightarrow> held L \<subseteq> held L'"
  by (induction chs arbitrary: L owners) (fastforce split: prod.splits)+

lemma contract_quarantined: "\<lbrakk>contract L op out L'; r \<in> held L; phase r = Quarantined\<rbrakk> \<Longrightarrow> r \<in> held L'"
  by (erule contract.cases) (auto simp: settle_def holds_def simp del: grant.simps dest: grant_held [THEN subsetD])

lemma new_account_ledger:
  assumes "account_new x y address cap n = Inr a"
  shows "world_ledger (new_world a) (empty_credit_ledger cap n)"
proof -
  have "account_inv a" and "records a = replicate n None" "next_owner a = 1" "capacity a = cap"
    using account_new_inv [OF assms] assms by (auto simp: account_new_def split: if_splits)
  then show ?thesis
    by (auto simp: world_ledger_def account_ledger_def tokens_ok_def slot_tokens_def new_world_def empty_credit_ledger_def)
qed

lemma world_account_new [simp]: "world_account (new_world a) = a"
  by (simp add: new_world_def)

lemma credit_run_ledger:
  assumes "account_new x y address cap n = Inr a" and "run_ops credit_step ops (new_world a) = (outs, w)"
  obtains L where "spec_run contract (empty_credit_ledger cap n) ops outs L" "world_ledger w L"
  using credit_sim.run_simulates [OF assms(2) new_account_ledger [OF assms(1)]] by blast

lemma grant_limit: "grant L chs = (owners, L') \<Longrightarrow> limit L' = limit L"
  by (induction chs arbitrary: L owners) (auto split: prod.splits)

lemma contract_limit: "contract L op out L' \<Longrightarrow> limit L' = limit L"
  by (erule contract.cases) (auto simp: settle_def simp del: grant.simps dest: grant_limit)

section \<open>Batches and poisoned accounts\<close>

lemma reserve_batch_commit:
  assumes "account_inv a" and "charges \<noteq> []" and "length charges \<le> length (records a)"
  shows "account_reserve_batch True True a charges = batch_commit (length (records a)) charges a"
    and "length charges \<le> R70_MAX_RESOURCE_BATCH_MEMBERS"
  using assms by (auto simp: account_reserve_batch_def Let_def account_inv_def account_lock_def
      MAX_RESOURCE_CREDIT_RECORDS_def R70_MAX_RESOURCE_BATCH_MEMBERS_def)

lemma reserve_batch_granted:
  assumes inv: "account_inv a" and ne: "charges \<noteq> []" and fit: "roster_fits a charges"
  shows "account_reserve_batch True True a charges = reserve_all a charges"
proof -
  have "length charges \<le> length (records a)"
    using fit free_length [OF inv] by (simp add: roster_fits_def)
  note B = reserve_batch_commit [OF inv ne this]
  show ?thesis
    using fit batch_commit_eq [OF inv ne B(2)] by (simp add: B(1) roster_fits_def)
qed

lemma reserve_batch_refused:
  assumes inv: "account_inv a" and ne: "charges \<noteq> []" and refused: "\<not> roster_fits a charges"
  shows "\<exists>e. account_reserve_batch True True a charges = (Returned (Inl e), a)"
proof (cases "length charges \<le> length (records a)")
  case True
  note B = reserve_batch_commit [OF inv ne True]
  show ?thesis
    using refused batch_commit_eq [OF inv ne B(2)] by (auto simp: B(1))
next
  case False
  then show ?thesis
    using inv ne by (auto simp: account_reserve_batch_def Let_def)
qed

lemma poisoned_refuses:
  assumes "poisoned b" "anchored b" "\<not> mutex_poisoned b"
  shows "account_reserve b ch = (Returned (Inl Invariant), b)"
    and "\<lbrakk>charges \<noteq> []; length charges \<le> R70_MAX_RESOURCE_BATCH_MEMBERS\<rbrakk> \<Longrightarrow>
      account_reserve_batch p q b charges = (Returned (Inl Invariant), b)"
    and "account_transition b slot own action = (Returned (Inl Invariant), b)"
    and "\<not> matches_retained_charge b t expected"
  using assms
  by (auto simp: account_reserve_def account_reserve_batch_def account_transition_def account_lock_def Let_def
      matches_retained_charge_def independent_retained_observation_def)

section \<open>A concrete account\<close>

definition sample_charge :: "u64 \<Rightarrow> resource_vector" where
  "sample_charge bytes = r67_requested_allocation_charge bytes"

definition sample_limit :: resource_vector where
  "sample_limit = vector_with (vector_with vector_zero RequestedAllocationBytes 16) AllocationRecords 3"

definition sample_account :: account where
  "sample_account = \<lparr>ledger = 7, capacity = sample_limit, used = vector_zero, records = [None, None, None], free = [2, 1, 0],
     next_owner = 1, reserved = 0, retained = 0, quarantined = 0, poisoned = False, anchored = False,
     mutex_poisoned = False\<rparr>"

definition sample_records :: "credit_record option list" where
  "sample_records = [Some \<lparr>owner = 1, charge = sample_charge 5, phase = Quarantined\<rparr>, None, None]"

definition sample_quarantined :: account where
  "sample_quarantined = \<lparr>ledger = 7, capacity = sample_limit, used = sample_charge 5, records = sample_records, free = [2, 1],
     next_owner = 2, reserved = 0, retained = 0, quarantined = 1, poisoned = False, anchored = True,
     mutex_poisoned = False\<rparr>"

definition sample_ops :: "credit_op list" where
  "sample_ops = [Reserve_Op (sample_charge 5), Retain_Op 1, Quarantine_Op 1]"

lemma sample_new: "account_new True True 7 sample_limit 3 = Inr sample_account"
  by (simp add: account_new_def sample_account_def MAX_RESOURCE_CREDIT_RECORDS_def numeral_3_eq_3)

lemma vector_of_zero_plus: "vector_ok v \<Longrightarrow> vector_of (\<lambda>k. amount vector_zero k + amount v k) = v"
proof -
  have "vector_of (\<lambda>k. amount vector_zero k + amount v k) = vector_of (amount v)"
    by (auto simp: vector_of_def amount_def vector_zero_def)
  then show "vector_ok v \<Longrightarrow> vector_of (\<lambda>k. amount vector_zero k + amount v k) = v"
    by (simp add: vector_of_amount)
qed

lemma sample_counts:
  "counts vector_zero = [0, 0, 0, 0, 0, 0, 0, 0, 0, 0, 0, 0, 0, 0, 0, 0, 0, 0, 0]"
  "counts sample_limit = [0, 16, 0, 0, 0, 0, 0, 0, 0, 0, 0, 0, 0, 0, 0, 0, 0, 0, 3]"
  "counts (sample_charge bytes) = [0, bytes, 0, 0, 0, 0, 0, 0, 0, 0, 0, 0, 0, 0, 0, 0, 0, 0, 1]"
  by (simp_all add: sample_limit_def sample_charge_def vector_with_def vector_zero_def r67_requested_allocation_charge_def
      R67_RESOURCE_DIMENSIONS_def eval_nat_numeral)

lemma sample_fits: "fits vector_zero (sample_charge 5) sample_limit" "vector_ok (sample_charge 5)"
proof -
  have "list_all (\<lambda>k. amount vector_zero k + amount (sample_charge 5) k \<le> amount sample_limit k) [0..<19]"
    by (simp add: amount_def sample_counts upt_conv_Cons)
  then show "fits vector_zero (sample_charge 5) sample_limit"
    by (simp add: fits_def list_all_iff R67_RESOURCE_DIMENSIONS_def)
qed (simp add: vector_ok_def sample_counts R67_RESOURCE_DIMENSIONS_def)

lemma sample_run:
  "run_ops credit_step sample_ops (new_world sample_account) = ([Granted [1], Done, Done], new_world sample_quarantined)"
proof -
  let ?token = "\<lparr>token_ledger = 7, token_slot = 0, token_owner = 1\<rparr>"
  let ?used = "\<lambda>p. sample_account\<lparr>free := [2, 1], records := [Some \<lparr>owner = 1, charge = sample_charge 5, phase = p\<rparr>, None, None],
      next_owner := 2, used := sample_charge 5, reserved := of_bool (p = Reserved), retained := of_bool (p = Retained)\<rparr>"
  have "account_reserve sample_account (sample_charge 5) = (Returned (Inr ?token), ?used Reserved)"
    using account_reserve_eq [OF account_new_inv [OF sample_new], of "sample_charge 5"] sample_fits
    by (simp add: sample_account_def reserved_account_def issued_token_def vector_of_zero_plus)
  moreover have "reservation_retain (?used Reserved) ?token = (Returned (Inr ?token), ?used Retained)"
    by (simp add: reservation_retain_def account_transition_def transition_body_def r67_credit_transition_def
        account_lock_def sample_account_def Let_def)
  moreover have "credits_quarantine (?used Retained) ?token = sample_quarantined"
    by (simp add: credits_quarantine_def credits_drop_def account_transition_def transition_body_def
        r67_credit_transition_def account_lock_def sample_account_def sample_quarantined_def sample_records_def Let_def)
  ultimately show ?thesis
    by (simp add: sample_ops_def new_world_def with_token_def find_token_def retain_step_def drop_token_def Let_def)
qed

section \<open>Properties\<close>

text \<open>C13: every sequence of calls on a new account is, call by call and outcome by outcome, a run of the ledger contract.
  The ledger is a set of owner records: a request is granted exactly when the sum of all held charges leaves room in
  every dimension, a record is free and owners are left; the tokens the clients hold are the reserved and the retained
  records.\<close>

theorem account_refines_ledger:
  assumes "account_new x y address cap n = Inr a" and "run_ops credit_step ops (new_world a) = (outs, w)"
  shows "\<exists>L. spec_run contract (empty_credit_ledger cap n) ops outs L \<and> world_ledger w L"
  using credit_run_ledger [OF assms] by blast

theorem account_refines_ledger_witness:
  "\<exists>L. spec_run contract (empty_credit_ledger sample_limit 3) sample_ops [Granted [1], Done, Done] L \<and>
     world_ledger (new_world sample_quarantined) L"
  by (rule account_refines_ledger [OF sample_new sample_run])

text \<open>C12: credits are conserved.  After any calls on a new account the account is not poisoned, no call has panicked or
  reported a broken invariant, no owner was granted twice, and the used vector is in every dimension the sum of the
  charges of the live records, within capacity.\<close>

theorem credits_conserved:
  assumes "account_new x y address cap n = Inr a" and "run_ops credit_step ops (new_world a) = (outs, w)"
  shows "\<not> poisoned (world_account w) \<and> Unwound \<notin> set outs \<and> Refused Invariant \<notin> set outs \<and>
    distinct (granted_owners outs) \<and>
    (\<forall>k < R67_RESOURCE_DIMENSIONS.
       amount (used (world_account w)) k = held_total k (somes (records (world_account w))) \<and>
       amount (used (world_account w)) k \<le> amount cap k)"
proof -
  obtain L where L: "spec_run contract (empty_credit_ledger cap n) ops outs L" "world_ledger w L"
    by (rule credit_run_ledger [OF assms])
  have "limit L = cap"
    using spec_run_invariant [OF L(1), of "\<lambda>L. limit L = cap"] contract_limit
    by (simp add: empty_credit_ledger_def)
  moreover have "distinct (map unat (granted_owners outs))"
    using run_owners [OF L(1)] by simp
  then have "distinct (granted_owners outs)"
    by (simp add: distinct_map)
  moreover have "account_inv (world_account w)" "limit L = capacity (world_account w)"
    using world_ledgerD [OF L(2)] account_ledgerD(4) by blast+
  ultimately show ?thesis
    using run_outcomes [OF L(1)] by (auto simp: account_inv_def usage_ok_def)
qed

theorem credits_conserved_witness:
  "amount (used sample_quarantined) 1 = held_total 1 (somes (records sample_quarantined)) \<and>
     amount (used sample_quarantined) 1 \<le> amount sample_limit 1"
proof -
  have "(1::nat) < R67_RESOURCE_DIMENSIONS"
    by (simp add: R67_RESOURCE_DIMENSIONS_def)
  then show ?thesis
    using credits_conserved [OF sample_new sample_run] unfolding world_account_new by blast
qed

text \<open>C14: a batch reservation on any reachable account is the sequence of its members' reservations, all or nothing: where
  the sequence succeeds the batch returns the same tokens and leaves the same account, and where some member would fail
  the batch is refused and leaves the account as it was.\<close>

theorem batch_is_sequential:
  assumes "account_new x y address cap n = Inr a" and "run_ops credit_step ops (new_world a) = (outs, w)"
    and "charges \<noteq> []"
  shows "(\<exists>ts b. reserve_all (world_account w) charges = (Returned (Inr ts), b) \<and>
        account_reserve_batch True True (world_account w) charges = (Returned (Inr ts), b)) \<or>
    (\<exists>e b e'. reserve_all (world_account w) charges = (Returned (Inl e), b) \<and>
        account_reserve_batch True True (world_account w) charges = (Returned (Inl e'), world_account w))"
proof -
  let ?a = "world_account w"
  obtain L where "world_ledger w L"
    by (rule credit_run_ledger [OF assms(1,2)])
  then have inv: "account_inv ?a"
    by (rule world_ledgerD(2))
  show ?thesis
  proof (cases "roster_fits ?a charges")
    case True
    obtain ts b where "reserve_all ?a charges = (Returned (Inr ts), b)"
      using reserve_all_issue [OF inv True, of "next_owner ?a" 0] by auto
    then show ?thesis
      using reserve_batch_granted [OF inv assms(3) True] by auto
  next
    case False
    then show ?thesis
      using reserve_batch_refused [OF inv assms(3)] reserve_all_refused [OF inv] by metis
  qed
qed

theorem batch_is_sequential_witness:
  "(\<exists>ts b. reserve_all sample_quarantined [sample_charge 4, sample_charge 7] = (Returned (Inr ts), b) \<and>
        account_reserve_batch True True sample_quarantined [sample_charge 4, sample_charge 7] = (Returned (Inr ts), b)) \<or>
    (\<exists>e b e'. reserve_all sample_quarantined [sample_charge 4, sample_charge 7] = (Returned (Inl e), b) \<and>
        account_reserve_batch True True sample_quarantined [sample_charge 4, sample_charge 7] = (Returned (Inl e'), sample_quarantined))"
  using batch_is_sequential [OF sample_new sample_run, of "[sample_charge 4, sample_charge 7]"] by (simp add: new_world_def)

text \<open>C35: quarantine is permanent.  Once a record of a reachable account is quarantined, no later calls remove it, refund
  its charge or free the account's anchor.\<close>

theorem quarantine_never_refunded:
  assumes "account_new x y address cap n = Inr a" and "run_ops credit_step ops (new_world a) = (outs, w)"
    and "Some r \<in> set (records (world_account w))" and "phase r = Quarantined"
    and "run_ops credit_step later w = (outs', w')"
  shows "Some r \<in> set (records (world_account w')) \<and> anchored (world_account w') \<and>
    (\<forall>k < R67_RESOURCE_DIMENSIONS. amount (charge r) k \<le> amount (used (world_account w')) k)"
proof -
  obtain L where L: "world_ledger w L"
    by (rule credit_run_ledger [OF assms(1,2)])
  obtain L' where L': "spec_run contract L later outs' L'" "world_ledger w' L'"
    using credit_sim.run_simulates [OF assms(5) L] by blast
  have "r \<in> held L"
    using assms(3) account_ledgerD(2) [OF world_ledgerD(1) [OF L]] by (simp add: set_somes)
  then have "r \<in> held L'"
    using spec_run_invariant [OF L'(1), of "\<lambda>L. r \<in> held L"] contract_quarantined assms(4) by blast
  then have r: "Some r \<in> set (records (world_account w'))"
    using account_ledgerD(2) [OF world_ledgerD(1) [OF L'(2)]] by (simp add: set_somes)
  note inv = world_ledgerD(2) [OF L'(2)]
  obtain slot where "slot < length (records (world_account w'))" "records (world_account w') ! slot = Some r"
    using r by (metis in_set_conv_nth)
  then have "covers (used (world_account w')) (charge r)"
    by (rule occupied_slot(1) [OF inv])
  moreover have "filter (\<lambda>r. phase r = Quarantined) (somes (records (world_account w'))) \<noteq> []"
    using r assms(4) by (auto simp: filter_empty_conv set_somes)
  then have "anchored (world_account w')"
    using inv by (simp add: account_inv_def counters_ok_def phase_count_def)
  ultimately show ?thesis
    using r by (simp add: covers_def)
qed

theorem quarantine_never_refunded_witness:
  "Some \<lparr>owner = 1, charge = sample_charge 5, phase = Quarantined\<rparr> \<in> set (records sample_quarantined) \<and>
     anchored sample_quarantined"
  using quarantine_never_refunded [OF sample_new sample_run,
      of "\<lparr>owner = 1, charge = sample_charge 5, phase = Quarantined\<rparr>" "[]" "[]" "new_world sample_quarantined"]
  by (simp add: new_world_def sample_quarantined_def sample_records_def)

text \<open>C36: a stale or forged owner never moves credits.  On a reachable account, a transition of a slot that holds no record
  of that owner reports a broken invariant, leaves records, free list and usage as they are and poisons the account; from
  then on every reservation, batch, transition and observation is refused.\<close>

theorem stale_owner_fails_closed:
  assumes "account_new x y address cap n = Inr a" and "run_ops credit_step ops (new_world a) = (outs, w)"
    and "\<And>r. \<lbrakk>slot < length (records (world_account w)); records (world_account w) ! slot = Some r\<rbrakk> \<Longrightarrow> owner r \<noteq> own"
  shows "\<exists>b. account_transition (world_account w) slot own action = (Returned (Inl Invariant), b) \<and>
    b = (world_account w)\<lparr>poisoned := True, anchored := True\<rparr> \<and>
    account_reserve b ch = (Returned (Inl Invariant), b) \<and>
    (charges \<noteq> [] \<and> length charges \<le> R70_MAX_RESOURCE_BATCH_MEMBERS \<longrightarrow>
       account_reserve_batch p q b charges = (Returned (Inl Invariant), b)) \<and>
    account_transition b slot' own' action' = (Returned (Inl Invariant), b) \<and>
    \<not> matches_retained_charge b t expected"
proof -
  obtain L where "world_ledger w L"
    by (rule credit_run_ledger [OF assms(1,2)])
  then have inv: "account_inv (world_account w)"
    by (rule world_ledgerD(2))
  have "r67_credit_transition (owner r) own (phase r) action = None"
    if "slot < length (records (world_account w))" "records (world_account w) ! slot = Some r" for r
    using assms(3) [OF that] by (simp add: r67_credit_transition_def)
  then show ?thesis
    using account_transition_illegal [OF inv] poisoned_refuses [of "(world_account w)\<lparr>poisoned := True, anchored := True\<rparr>"] inv
    by (simp add: account_inv_def)
qed

theorem stale_owner_fails_closed_witness:
  "\<exists>b. account_transition sample_quarantined 0 9 ReleaseDisposed = (Returned (Inl Invariant), b) \<and> used b = sample_charge 5"
  using stale_owner_fails_closed [OF sample_new sample_run, of 0 9 ReleaseDisposed]
  by (auto simp: new_world_def sample_quarantined_def sample_records_def)

end
