(* ===== verification/Credit_Domain.thy ===== *)
theory Credit_Domain
  imports Credit_Batch
begin

text \<open>
  The planner of shared-root accounts, \<open>crates/fe2o3-runtime-model/src/r75_resource_domain.rs\<close> and the bodies it
  includes.  It stages a batch in a leaf and in all its ancestors before the caller changes any of them.  Facts are
  ordered from the leaf to the root; the arrays have four levels and the first \<open>depth\<close> are active.
\<close>

section \<open>The planner\<close>

definition R75_RESOURCE_DOMAIN_LEVELS :: nat where
  "R75_RESOURCE_DOMAIN_LEVELS = 4"

datatype r75_domain_error =
    Domain_Invariant
  | Domain_InvalidMemberCount
  | Domain_RecordCapacity
  | Domain_GenerationExhausted
  | Domain_Capacity

record r75_domain_facts =
  fact_used :: resource_vector
  fact_capacity :: resource_vector
  fact_counts :: "nat list"
  record_limit :: nat

record r75_domain_plan =
  next_used :: "resource_vector list"
  next_reserved :: "nat list"
  plan_next_owner :: u64

definition resource_domain_records :: "r75_domain_facts \<Rightarrow> nat \<Rightarrow> u64 \<Rightarrow> r75_domain_error + nat \<times> u64" where
  "resource_domain_records facts count own =
     (let occupied = fact_counts facts ! 0 + fact_counts facts ! 1 + fact_counts facts ! 2
      in if record_limit facts < occupied then Inl Domain_Invariant
      else let free_records = record_limit facts - occupied
      in if count = 0 \<or> 65536 < count then Inl Domain_InvalidMemberCount
      else if free_records < count then Inl Domain_RecordCapacity
      else if own = 0 then Inl Domain_GenerationExhausted
      else case checked_add own (of_nat count) of
          None \<Rightarrow> Inl Domain_GenerationExhausted
        | Some next_own \<Rightarrow> Inr (fact_counts facts ! 0 + count, next_own))"

definition resource_domain_leaf :: "resource_vector \<Rightarrow> resource_vector list \<Rightarrow> resource_vector \<Rightarrow>
    r75_domain_error + resource_vector" where
  "resource_domain_leaf usage charges cap =
     try_fold (\<lambda>next_used ch. ok_or (r67_resource_reserve next_used ch cap) Domain_Capacity) usage charges"

text \<open>One round of the loop over the levels; the batch total is taken from the accepted leaf.\<close>

definition resource_domain_level :: "r75_domain_facts list \<Rightarrow> nat \<Rightarrow> resource_vector list \<Rightarrow> u64 \<Rightarrow>
    r75_domain_plan \<times> resource_vector \<Rightarrow> nat \<Rightarrow> r75_domain_error + r75_domain_plan \<times> resource_vector" where
  "resource_domain_level facts depth charges own state level =
     (let (plan, batch_total) = state; here = facts ! level
      in and_then (resource_domain_records here (length charges) own) (\<lambda>(reserved_count, next_own).
         and_then
           (if level = 0
            then and_then (resource_domain_leaf (fact_used here) charges (fact_capacity here)) (\<lambda>next.
              if 1 < depth
              then if length charges = 1 then Inr (next, charges ! 0)
                else (case r67_resource_release next (fact_used here) of
                    Some rest \<Rightarrow> Inr (next, rest)
                  | None \<Rightarrow> Inl Domain_Invariant)
              else Inr (next, batch_total))
            else (case r67_resource_reserve (fact_used here) batch_total (fact_capacity here) of
                Some next \<Rightarrow> Inr (next, batch_total)
              | None \<Rightarrow> Inl Domain_Capacity))
         (\<lambda>(next, batch_total'). Inr (plan\<lparr>next_used := (next_used plan)[level := next],
            next_reserved := (next_reserved plan)[level := reserved_count], plan_next_owner := next_own\<rparr>, batch_total'))))"

definition r75_resource_domain_reserve :: "r75_domain_facts list \<Rightarrow> nat \<Rightarrow> nat \<Rightarrow> resource_vector list \<Rightarrow> u64 \<Rightarrow>
    r75_domain_error + r75_domain_plan" where
  "r75_resource_domain_reserve facts depth profile charges own =
     (if (profile \<noteq> 3 \<and> profile \<noteq> 4) \<or> depth = 0 \<or> profile < depth then Inl Domain_Invariant
      else if own = 0 then Inl Domain_Invariant
      else and_then (try_fold (resource_domain_level facts depth charges own)
          (\<lparr>next_used = replicate R75_RESOURCE_DOMAIN_LEVELS vector_zero,
             next_reserved = replicate R75_RESOURCE_DOMAIN_LEVELS 0, plan_next_owner = own\<rparr>, vector_zero) [0..<depth])
        (\<lambda>(plan, batch_total). Inr plan))"

section \<open>One level\<close>

definition level_fits :: "r75_domain_facts \<Rightarrow> resource_vector list \<Rightarrow> bool" where
  "level_fits lv charges \<longleftrightarrow> sum_list (fact_counts lv) + length charges \<le> record_limit lv \<and>
     (\<forall>k < R67_RESOURCE_DIMENSIONS. amount (fact_used lv) k + demand charges k \<le> amount (fact_capacity lv) k)"

text \<open>What the types and the ledger give of the facts of a level: three counters, a used vector within capacity.\<close>

definition facts_ok :: "r75_domain_facts \<Rightarrow> bool" where
  "facts_ok lv \<longleftrightarrow> length (fact_counts lv) = 3 \<and> vector_ok (fact_used lv) \<and>
     sum_list (fact_counts lv) \<le> record_limit lv \<and>
     (\<forall>k < R67_RESOURCE_DIMENSIONS. amount (fact_used lv) k \<le> amount (fact_capacity lv) k)"

definition staged :: "r75_domain_facts \<Rightarrow> resource_vector list \<Rightarrow> resource_vector" where
  "staged lv charges = vector_of (\<lambda>k. amount (fact_used lv) k + demand charges k)"

definition owners_fit :: "u64 \<Rightarrow> resource_vector list \<Rightarrow> bool" where
  "owners_fit own charges \<longleftrightarrow> unat own + length charges < 2 ^ 64"

definition is_total :: "resource_vector \<Rightarrow> resource_vector list \<Rightarrow> bool" where
  "is_total v charges \<longleftrightarrow> (\<forall>k < R67_RESOURCE_DIMENSIONS. amount v k = demand charges k)"

definition usage_fits :: "r75_domain_facts \<Rightarrow> resource_vector list \<Rightarrow> bool" where
  "usage_fits lv charges \<longleftrightarrow>
     (\<forall>k < R67_RESOURCE_DIMENSIONS. amount (fact_used lv) k + demand charges k \<le> amount (fact_capacity lv) k)"

lemma records_eq:
  assumes "facts_ok lv" and "charges \<noteq> []" "length charges \<le> 65536" and "own \<noteq> 0"
  shows "resource_domain_records lv (length charges) own =
    (if record_limit lv < sum_list (fact_counts lv) + length charges then Inl Domain_RecordCapacity
     else if \<not> owners_fit own charges then Inl Domain_GenerationExhausted
     else Inr (fact_counts lv ! 0 + length charges, own + of_nat (length charges)))"
proof -
  obtain c0 c1 c2 where c: "fact_counts lv = [c0, c1, c2]"
    using assms(1) by (auto simp: facts_ok_def numeral_3_eq_3 length_Suc_conv)
  have "unat (of_nat (length charges) :: u64) = length charges"
    using assms(3) by (simp add: unat_of_nat)
  then show ?thesis
    using assms by (auto simp: resource_domain_records_def facts_ok_def c owners_fit_def checked_add_def Let_def)
qed

lemma leaf_eq:
  assumes "facts_ok lv"
  shows "resource_domain_leaf (fact_used lv) charges (fact_capacity lv) =
    (if usage_fits lv charges then Inr (staged lv charges) else Inl Domain_Capacity)"
  using assms unfolding resource_domain_leaf_def facts_ok_def usage_fits_def staged_def
  by (intro try_fold_reserve) auto

lemma parent_eq:
  assumes "is_total v charges"
  shows "r67_resource_reserve (fact_used lv) v (fact_capacity lv) =
    (if usage_fits lv charges then Some (staged lv charges) else None)"
proof -
  have "vector_of (\<lambda>k. amount (fact_used lv) k + amount v k) = staged lv charges"
    using assms unfolding vector_of_def staged_def is_total_def by simp
  then show ?thesis
    using assms by (simp add: r67_resource_reserve_eq fits_def usage_fits_def is_total_def)
qed

lemma staged_amount:
  "\<lbrakk>usage_fits lv charges; k < R67_RESOURCE_DIMENSIONS\<rbrakk> \<Longrightarrow>
     amount (staged lv charges) k = amount (fact_used lv) k + demand charges k"
  using amount_less [of "fact_capacity lv" k]
  by (auto simp: usage_fits_def staged_def intro!: amount_vector_of elim: order.strict_trans1)

text \<open>The total that the accepted leaf supplies to its parents.\<close>

lemma leaf_total:
  assumes "usage_fits lv charges"
  shows "\<exists>v. r67_resource_release (staged lv charges) (fact_used lv) = Some v \<and> is_total v charges"
proof -
  have "covers (staged lv charges) (fact_used lv)"
    using staged_amount [OF assms] by (simp add: covers_def)
  moreover have "is_total (vector_of (\<lambda>k. amount (staged lv charges) k - amount (fact_used lv) k)) charges"
    unfolding is_total_def
  proof (intro allI impI)
    fix k assume k: "k < R67_RESOURCE_DIMENSIONS"
    have "amount (staged lv charges) k - amount (fact_used lv) k < 2 ^ 64"
      using amount_less [of "staged lv charges" k] by (rule le_less_trans [rotated]) simp
    then show "amount (vector_of (\<lambda>k. amount (staged lv charges) k - amount (fact_used lv) k)) k = demand charges k"
      using k staged_amount [OF assms k] by (simp add: amount_vector_of)
  qed
  ultimately show ?thesis
    by (simp add: r67_resource_release_eq)
qed

definition staged_plan :: "r75_domain_facts list \<Rightarrow> nat \<Rightarrow> resource_vector list \<Rightarrow> u64 \<Rightarrow> r75_domain_plan" where
  "staged_plan facts depth charges own =
     \<lparr>next_used = map (\<lambda>i. if i < depth then staged (facts ! i) charges else vector_zero) [0..<R75_RESOURCE_DOMAIN_LEVELS],
      next_reserved = map (\<lambda>i. if i < depth then fact_counts (facts ! i) ! 0 + length charges else 0)
        [0..<R75_RESOURCE_DOMAIN_LEVELS],
      plan_next_owner = (if depth = 0 then own else own + of_nat (length charges))\<rparr>"

lemma update_stage:
  "level < n \<Longrightarrow> (map (\<lambda>i. if i < level then f i else z) [0..<n])[level := f level] =
     map (\<lambda>i. if i < Suc level then f i else z) [0..<n]"
  by (rule nth_equalityI) (auto simp: nth_list_update less_Suc_eq)

lemma level_eq:
  assumes lv: "facts_ok (facts ! level)" and ch: "charges \<noteq> []" "length charges \<le> 65536" and own: "own \<noteq> 0"
    and level: "level < depth" "depth \<le> R75_RESOURCE_DOMAIN_LEVELS" and v: "0 < level \<Longrightarrow> is_total v charges"
  shows "if level_fits (facts ! level) charges \<and> owners_fit own charges
    then \<exists>v'. resource_domain_level facts depth charges own (staged_plan facts level charges own, v) level =
        Inr (staged_plan facts (Suc level) charges own, v') \<and> (1 < depth \<longrightarrow> is_total v' charges)
    else \<exists>e. resource_domain_level facts depth charges own (staged_plan facts level charges own, v) level = Inl e"
proof -
  let ?lv = "facts ! level"
  have fits: "level_fits ?lv charges \<longleftrightarrow>
      \<not> record_limit ?lv < sum_list (fact_counts ?lv) + length charges \<and> usage_fits ?lv charges"
    by (auto simp: level_fits_def usage_fits_def)
  have upd: "(staged_plan facts level charges own)
      \<lparr>next_used := (next_used (staged_plan facts level charges own))[level := staged ?lv charges],
       next_reserved := (next_reserved (staged_plan facts level charges own))[level := fact_counts ?lv ! 0 + length charges],
       plan_next_owner := own + of_nat (length charges)\<rparr> = staged_plan facts (Suc level) charges own"
    using level update_stage [of level _ "\<lambda>i. staged (facts ! i) charges" vector_zero]
      update_stage [of level _ "\<lambda>i. fact_counts (facts ! i) ! 0 + length charges" 0]
    by (simp add: staged_plan_def)
  have one: "is_total (charges ! 0) charges" if "length charges = 1"
    using that by (auto simp: is_total_def length_Suc_conv)
  obtain rest where rest: "usage_fits ?lv charges \<Longrightarrow> r67_resource_release (staged ?lv charges) (fact_used ?lv) = Some rest"
    "usage_fits ?lv charges \<Longrightarrow> is_total rest charges"
    using leaf_total by blast
  show ?thesis
    unfolding resource_domain_level_def Let_def prod.case records_eq [OF lv ch own] leaf_eq [OF lv] fits upd [symmetric]
    using v level(1) one rest by (cases "level = 0") (auto simp: parent_eq)
qed

section \<open>All levels\<close>

lemma and_then_Inr_id: "and_then m Inr = m"
  by (cases m) simp_all

lemma try_fold_snoc: "try_fold f s (xs @ [x]) = and_then (try_fold f s xs) (\<lambda>s'. f s' x)"
proof (induction xs arbitrary: s)
  case (Cons y ys)
  then show ?case by (cases "f s y") auto
qed (simp add: and_then_Inr_id)

lemma levels_eq:
  assumes lvs: "\<forall>i < depth. facts_ok (facts ! i)" and ch: "charges \<noteq> []" "length charges \<le> 65536" and own: "own \<noteq> 0"
    and depth: "depth \<le> R75_RESOURCE_DOMAIN_LEVELS" and "n \<le> depth"
  shows "if \<forall>i < n. level_fits (facts ! i) charges \<and> owners_fit own charges
    then \<exists>v. try_fold (resource_domain_level facts depth charges own) (staged_plan facts 0 charges own, vector_zero) [0..<n] =
        Inr (staged_plan facts n charges own, v) \<and> (0 < n \<and> 1 < depth \<longrightarrow> is_total v charges)
    else \<exists>e. try_fold (resource_domain_level facts depth charges own) (staged_plan facts 0 charges own, vector_zero) [0..<n] = Inl e"
  using \<open>n \<le> depth\<close>
proof (induction n)
  case (Suc n)
  let ?run = "\<lambda>n. try_fold (resource_domain_level facts depth charges own) (staged_plan facts 0 charges own, vector_zero) [0..<n]"
  let ?ok = "\<lambda>i. level_fits (facts ! i) charges \<and> owners_fit own charges"
  have step: "?run (Suc n) = and_then (?run n) (\<lambda>s. resource_domain_level facts depth charges own s n)"
    by (simp add: try_fold_snoc)
  show ?case
  proof (cases "\<forall>i < n. ?ok i")
    case True
    then obtain v where v: "?run n = Inr (staged_plan facts n charges own, v)" "0 < n \<and> 1 < depth \<longrightarrow> is_total v charges"
      using Suc by auto
    have "if ?ok n
      then \<exists>v'. resource_domain_level facts depth charges own (staged_plan facts n charges own, v) n =
          Inr (staged_plan facts (Suc n) charges own, v') \<and> (1 < depth \<longrightarrow> is_total v' charges)
      else \<exists>e. resource_domain_level facts depth charges own (staged_plan facts n charges own, v) n = Inl e"
      using Suc.prems lvs v(2) by (intro level_eq ch own depth) auto
    then show ?thesis
      using True unfolding step v(1) and_then.simps by (auto simp: less_Suc_eq split: if_splits)
  next
    case False
    then obtain e where "?run n = Inl e"
      using Suc by (auto split: if_splits)
    then show ?thesis
      using False unfolding step by (auto simp: less_Suc_eq)
  qed
qed simp

section \<open>A concrete path\<close>

definition sample_level :: r75_domain_facts where
  "sample_level = \<lparr>fact_used = vector_zero, fact_capacity = vector_of (\<lambda>k. 9), fact_counts = [0, 0, 0], record_limit = 4\<rparr>"

lemma sample_level_ok: "facts_ok sample_level"
  by (simp add: facts_ok_def sample_level_def)

section \<open>Properties\<close>

text \<open>C15: a batch in a shared-root account is planned in the leaf and in every ancestor, or nowhere.  The planner accepts
  exactly when in each active level the records and, in every dimension, the used vector plus the sum of all charges
  stay within that level's limits and the owners do not run out; the plan then adds that sum and the number of members
  to every active level, and leaves the inactive entries zero.\<close>

theorem domain_plan_every_ancestor:
  assumes "profile = 3 \<or> profile = 4" and "0 < depth" "depth \<le> profile" and "own \<noteq> 0"
    and "\<forall>i < depth. facts_ok (facts ! i)" and "charges \<noteq> []" "length charges \<le> 65536"
  shows "case r75_resource_domain_reserve facts depth profile charges own of
      Inr plan \<Rightarrow> (\<forall>i < depth. level_fits (facts ! i) charges) \<and> owners_fit own charges \<and>
        plan = staged_plan facts depth charges own
    | Inl e \<Rightarrow> \<not> ((\<forall>i < depth. level_fits (facts ! i) charges) \<and> owners_fit own charges)"
proof -
  have init: "staged_plan facts 0 charges own = \<lparr>next_used = replicate R75_RESOURCE_DOMAIN_LEVELS vector_zero,
      next_reserved = replicate R75_RESOURCE_DOMAIN_LEVELS 0, plan_next_owner = own\<rparr>"
    by (simp add: staged_plan_def map_replicate_const)
  have "depth \<le> R75_RESOURCE_DOMAIN_LEVELS"
    using assms(1,3) by (auto simp: R75_RESOURCE_DOMAIN_LEVELS_def)
  note all = levels_eq [OF assms(5-7,4) this order_refl, unfolded init]
  have "\<not> (\<forall>i < depth. level_fits (facts ! i) charges \<and> owners_fit own charges) \<longleftrightarrow>
      \<not> ((\<forall>i < depth. level_fits (facts ! i) charges) \<and> owners_fit own charges)"
    using assms(2) by blast
  then show ?thesis
    using all assms(1-4) by (auto simp: r75_resource_domain_reserve_def init [symmetric] split: if_splits)
qed

theorem domain_plan_every_ancestor_witness:
  "case r75_resource_domain_reserve [sample_level, sample_level, sample_level, sample_level] 2 3 [vector_of (\<lambda>k. 9)] 1 of
      Inr plan \<Rightarrow> (\<forall>i < 2. level_fits ([sample_level, sample_level, sample_level, sample_level] ! i) [vector_of (\<lambda>k. 9)]) \<and>
        owners_fit 1 [vector_of (\<lambda>k. 9)] \<and>
        plan = staged_plan [sample_level, sample_level, sample_level, sample_level] 2 [vector_of (\<lambda>k. 9)] 1
    | Inl e \<Rightarrow> \<not> ((\<forall>i < 2. level_fits ([sample_level, sample_level, sample_level, sample_level] ! i) [vector_of (\<lambda>k. 9)]) \<and>
        owners_fit 1 [vector_of (\<lambda>k. 9)])"
  by (rule domain_plan_every_ancestor) (auto simp: sample_level_ok less_2_cases_iff)

end
