(* ===== verification/Spec2Isabelle.thy ===== *)
theory Spec2Isabelle
  imports Runtime_Theorems Runtime_Teardown Memory_Pool_Theorems Completion_Authority_Theorems
    Completion_Policy_Theorems Operation_Lifecycle_Theorems Aql_Packet_Theorems Aql_Dependency_Theorems
    Credit_Theorems Credit_Domain
begin

text \<open>
  A verification development for fe2o3, a Rust toolchain and runtime for AMD GPUs.

  \<^bold>\<open>Scope.\<close> The repository is a workspace of many crates: a compiler from Rust to GPU code, a runtime
  that drives the kernel driver, protocol services, simulators and tools.  This development models the components that
  carry the runtime's safety argument and are self-contained state machines, and proves what the rest of the runtime
  relies on: resources are not reused while the device may still touch them, and records of the past are exact.

  \<^item> The \<^emph>\<open>runtime lifecycle model\<close> (\<open>crates/fe2o3-runtime-model/src/model.rs\<close>, \<open>identity.rs\<close>): devices,
    address spaces, allocations, mappings, queues, code objects, dispatches and completions, with 24 transitions.
  \<^item> The \<^emph>\<open>memory pool\<close> (\<open>crates/fe2o3-runtime-model/src/memory_pool.rs\<close>): reusable blocks under
    generation-checked leases.
  \<^item> The \<^emph>\<open>completion graph\<close> (\<open>crates/fe2o3-completion/src/graph.rs\<close>, \<open>wire.rs\<close>): a validated
    dependency graph of futures and events, its canonical encoding, and the linear authority that drives every node
    to a terminal state.
  \<^item> The \<^emph>\<open>operation lifecycle\<close> (\<open>crates/fe2o3-completion/src/lifecycle.rs\<close>) and the
    \<^emph>\<open>completion policy\<close> (\<open>lib.rs\<close>): who owns the resources of one asynchronous operation until the
    backend is quiescent.
  \<^item> The \<^emph>\<open>AQL layer\<close> (\<open>crates/fe2o3-aql/src\<close>): the packets a queue consumes, the ring they are placed
    in, and the order in which a dependency-ordered dispatch is published.
  \<^item> \<^emph>\<open>Resource accounting\<close> (\<open>crates/fe2o3-resource-accounting/src/lib.rs\<close>, \<open>batch.rs\<close>, and
    \<open>r67_resource_credits.rs\<close>, \<open>r70_resource_batch.rs\<close>, \<open>r75_resource_domain.rs\<close> of
    \<open>crates/fe2o3-runtime-model/src\<close>): bounded credit accounts whose tokens stand for the resources a backend
    call may use.

  The components meet at their contracts: a dispatch of the runtime model pins the mappings it names, a pool lease pins
  its block while in flight, and the lifecycle hands resources back only after the backend has been observed idle.

  \<^bold>\<open>Conventions.\<close> A Rust result is a sum with the error on the left, \<open>?\<close> is \<open>and_then\<close>, and guards
  stand in source order, so the first failing guard decides the error.  Fixed-width integers are words, lengths are
  natural numbers, \<open>[u8; 32]\<close> is the type \<open>bytes32\<close>, a \<open>BTreeMap\<close> is a map or a key-ordered list.  A
  method that mutates its receiver returns the new state.  A panic is a value of the model where a theorem speaks of
  panics: every array read of the completion authority, a failed \<open>expect\<close> of the credit account, an unwinding
  closure of the completion policy, the assertions of the AQL planner, and an underflow in the graph constructor.
  Elsewhere an index that the code has taken from the list it indexes is read without a panic branch.

  \<^bold>\<open>Shared theories.\<close> \<open>Fe2o3_Prelude\<close> holds machine integers, results, loops with early return and generic
  lemmas; \<open>Byte_Arrays\<close> 32-byte arrays and little-endian integers; \<open>Simulation\<close> runs of a component, runs
  of a specification and the locale \<open>forward_simulation\<close> between them.

  \<^bold>\<open>Runtime lifecycle.\<close> \<open>Runtime_Identity\<close> models the keys of \<open>identity.rs\<close>.
  \<open>Runtime_State\<close> models the records, errors, tables, lookups and helpers of \<open>model.rs\<close>;
  \<open>Runtime_Transitions\<close> one definition per operation and \<open>apply\<close>; \<open>Runtime_Invariants\<close> the
  validators and \<open>next_all\<close>.  \<open>Runtime_Tables\<close> is the locale of keyed tables, interpreted on all eight
  tables of the state.  \<open>Runtime_Global_Invariant\<close> proves that the validator decides a declarative invariant;
  \<open>Runtime_Preservation\<close> that every operation preserves it; \<open>Runtime_Safety\<close> defines reachable states and
  record lifecycles; \<open>Runtime_Theorems\<close> and \<open>Runtime_Teardown\<close> hold the properties (batches need no
  intermediate checks, in-flight dispatches pin their resources, live mappings are disjoint, teardown is always possible
  and terminates), and \<open>Runtime_Example\<close> the run at which they are instantiated.

  \<^bold>\<open>Memory pool.\<close> \<open>Memory_Pool\<close> models every method; \<open>Memory_Pool_Invariant\<close> proves rounding, best
  fit and that the validator's condition, strengthened by the freshness of block ids, is preserved;
  \<open>Memory_Pool_Ownership\<close> states the contract as a ledger of leases and proves the simulation;
  \<open>Memory_Pool_Theorems\<close> holds the properties over whole runs.

  \<^bold>\<open>Completion graph.\<close> \<open>Completion_Identity\<close>, \<open>Completion_Graph\<close> and
  \<open>Completion_Authority\<close> model the code; \<open>Completion_Successors\<close> and \<open>Completion_Topology\<close> prove the
  successor index and the worklist order; \<open>Completion_Graph_Valid\<close> and \<open>Completion_Graph_Theorems\<close> that the
  constructor decides declarative validity.  \<open>Completion_Wire\<close>, \<open>Completion_Wire_Codec\<close> (the locale of field
  codecs) and \<open>Completion_Wire_Theorems\<close> treat the encoding, with SHA-256 a parameter; the
  theorem on identities holds for every digest function and names the two byte strings that are hashed.
  \<open>Completion_Propagation\<close>, \<open>Completion_Authority_Invariant\<close>, \<open>Completion_Authority_Steps\<close>,
  \<open>Completion_Authority_Runs\<close> and \<open>Completion_Authority_Theorems\<close> prove the authority;
  \<open>Completion_Example\<close> is its concrete graph.  The operations read every array through a checked access, and
  \<open>Completion_Propagation\<close> shows that on a compiled graph they are the plain functions \<open>cause_of\<close> and
  \<open>enqueued\<close>.  No loop needs fuel: the ready queue, the propagation worklist and
  the binary search are total functions, their measures the edges still to release, the nodes still blocked and the
  length of the slice.

  \<^bold>\<open>Operations.\<close> \<open>Completion_Policy\<close> models \<open>lib.rs\<close> with closures that return, fail or panic and with
  the fate of every resource in the result; \<open>Completion_Policy_Theorems\<close> proves that nothing is released under a
  busy backend.  \<open>Operation_Lifecycle\<close> models \<open>lifecycle.rs\<close>; \<open>Operation_Fleet\<close> runs any interleaving
  of any number of shared lifecycles around one quarantine; \<open>Operation_Lifecycle_Theorems\<close> proves that resources
  are conserved and that the first terminal state wins.

  \<^bold>\<open>AQL.\<close> \<open>Aql_Ring\<close> models the single-producer ring with its 64-bit counters and power-of-two mask, and
  \<open>Aql_Ring_Theorems\<close> proves that packets not yet read occupy distinct slots.  \<open>Aql_Packet\<close> models addresses,
  geometry, packet images, batches, closed programs and signals; \<open>Aql_Packet_Theorems\<close> proves the layout.
  \<open>Aql_Dependency\<close> models the plan of barrier packets and its publication, and \<open>Aql_Dependency_Theorems\<close>
  proves that the plan waits for the given signals and that no header is exposed before every body is written.

  \<^bold>\<open>Resource accounting.\<close> \<open>Credit_Vector\<close> models the 19-dimensional vectors, their admission and release
  loops (total, with the dimensions left as measure) and the record transitions, and proves the loops to be pointwise
  arithmetic.  \<open>Credit_Account\<close> models the account, its mutex poisoning, batches and the token destructors;
  \<open>Credit_Invariant\<close> gives every operation as an equation under the account's invariant; \<open>Credit_Batch\<close>
  proves the bitmap check of a batch roster and that a batch is the sequence of its members.  \<open>Credit_Ledger\<close>
  states the clients' world and the contract as a ledger of owner records, \<open>Credit_Simulation\<close> and
  \<open>Credit_Refinement\<close> prove the simulation, and \<open>Credit_Theorems\<close> holds the properties: conservation,
  permanence of quarantine, and that a stale owner fails closed.  Every call is a critical section of one mutex, so a
  sequence of calls stands for any interleaving of threads.  A batch has two sections, run here back to back: the first
  reads only the poison flag, which the second reads again, and the record capacity, which never changes.
  \<open>Credit_Domain\<close> models the planner that stages a batch in a leaf account and all its ancestors.

  \<^bold>\<open>Not modelled.\<close> Allocation failure of the Rust standard library, except where the source handles it
  (\<open>try_reserve\<close> is a parameter); formatting of errors; accessors that return a field, which are record
  selectors.  Of resource accounting the arena of shared-root domains (\<open>domain.rs\<close>) and the host table.  The other
  crates are not covered, for one of three reasons.  The rustc backend and the Pliron dialects work
  on data structures of rustc and Pliron, which are outside the repository.  The driver adapters and the services act
  through the kernel driver, processes, sockets and files.  The rest is in-memory code that could be modelled in the
  style used here and is not: the memory, queue and device models and the numbered adapter contracts of
  \<open>fe2o3-runtime-model\<close>, the service and virtual runtime models, the Kernel IR with its analyses, lowering and
  simulator, and the record formats and protocol codecs.
\<close>

end
